(* ===== verification/PyPrelude.thy ===== *)
theory PyPrelude
  imports Complex_Main "HOL-Library.Char_ord" "HOL-Library.List_Lexorder"
begin

section \<open>Python values shared by all components\<close>

text \<open>
  The vocabulary every component theory uses.

  \<^item> Exceptions: \<open>exn\<close> has one constructor per exception class that the repository raises or
    catches by name, with the class hierarchy as the predicates \<open>is_Exception\<close>,
    \<open>is_ValueError\<close>, \<open>is_ConnectionError\<close>, \<open>is_AdapterRunError\<close> (Python's \<open>isinstance\<close>).
  \<^item> Results: a call that may raise returns \<open>'a result = exn + 'a\<close>, \<open>Inl\<close> for the exception.
  \<^item> Strings: a Python \<open>str\<close> is a HOL \<open>string\<close>, whose characters are the code points 0 to 255.
    Code points above 255 are not modelled. \<open>lower\<close>, \<open>strip\<close>, \<open>isdigit\<close>, \<open>int(str)\<close> follow
    CPython on that range, the non-ASCII part included (the superscript digits are
    \<open>isdigit\<close> and not accepted by \<open>int\<close>).
  \<^item> Numbers: \<open>int\<close> is \<open>int\<close>; a finite \<open>float\<close> is the exact rational of its decimal literal,
    and float arithmetic is exact (\<open>rat\<close>): rounding is not modelled.
  \<^item> Generic lemmas on strings, results and lists, collected for \<open>simp\<close>.
\<close>

named_theorems py_simps \<open>unfolding rules for the Python string and result operations\<close>

subsection \<open>Exceptions and results\<close>

datatype exn =
    ValueError string
  | KeyError string
  | TypeError string
  | IndexError string
  | RuntimeError string
  | OverflowError string
  | ConnectionError string
  | OSError string
  | ConfigurationError string
  | BrowserSessionConfigurationError string
  | BrowserRuntimeConfigurationError string
  | SnapshotConfigurationError string
  | InspectionInputError string
  | DatabaseUnavailableError string
  | AdapterRunError string
  | AdapterContractError string
  | FetchError string
  | ParseError string
  | NormalizationError string
  | ValidationError "string list"
  | ResponseFailure int "string option" string
  | BrowserSessionRequiredError string string "string option"
  | BrowserOperationError string string string "string option"
  | OtherException string
  | OtherBaseException string

type_synonym 'a result = "exn + 'a"

fun is_Exception :: "exn \<Rightarrow> bool" where
  "is_Exception (OtherBaseException _) = False"
| "is_Exception _ = True"

fun is_ValueError :: "exn \<Rightarrow> bool" where
  "is_ValueError (ValueError _) = True"
| "is_ValueError (ConfigurationError _) = True"
| "is_ValueError (BrowserSessionConfigurationError _) = True"
| "is_ValueError (BrowserRuntimeConfigurationError _) = True"
| "is_ValueError (SnapshotConfigurationError _) = True"
| "is_ValueError (InspectionInputError _) = True"
| "is_ValueError (ValidationError _) = True"
| "is_ValueError _ = False"

fun is_ConnectionError :: "exn \<Rightarrow> bool" where
  "is_ConnectionError (ConnectionError _) = True"
| "is_ConnectionError _ = False"

text \<open>\<open>AdapterRunError\<close> and its subclasses (\<open>adapters/base.py\<close>).\<close>

fun is_AdapterRunError :: "exn \<Rightarrow> bool" where
  "is_AdapterRunError (AdapterRunError _) = True"
| "is_AdapterRunError (AdapterContractError _) = True"
| "is_AdapterRunError (FetchError _) = True"
| "is_AdapterRunError (ParseError _) = True"
| "is_AdapterRunError (NormalizationError _) = True"
| "is_AdapterRunError _ = False"

fun bindR :: "'a result \<Rightarrow> ('a \<Rightarrow> 'b result) \<Rightarrow> 'b result" where
  "bindR (Inl e) f = Inl e"
| "bindR (Inr x) f = f x"

text \<open>Evaluate a list of calls from left to right; the first exception wins.\<close>

fun sequenceR :: "'a result list \<Rightarrow> 'a list result" where
  "sequenceR [] = Inr []"
| "sequenceR (Inl e # rs) = Inl e"
| "sequenceR (Inr x # rs) = (case sequenceR rs of Inl e \<Rightarrow> Inl e | Inr xs \<Rightarrow> Inr (x # xs))"

lemma bindR_Inr_iff [simp]: "bindR r f = Inr y \<longleftrightarrow> (\<exists>x. r = Inr x \<and> f x = Inr y)"
  by (cases r) auto

lemma bindR_Inl_iff: "bindR r f = Inl e \<longleftrightarrow> r = Inl e \<or> (\<exists>x. r = Inr x \<and> f x = Inl e)"
  by (cases r) auto

lemma sequenceR_Inr:
  "sequenceR (map f xs) = Inr ys \<longleftrightarrow> list_all2 (\<lambda>x y. f x = Inr y) xs ys"
proof (induction xs arbitrary: ys)
  case Nil
  then show ?case by auto
next
  case (Cons x xs)
  show ?case
  proof (cases "f x")
    case (Inl e)
    then show ?thesis by (cases ys) auto
  next
    case (Inr y)
    then show ?thesis
      by (cases ys) (auto simp: Cons.IH [symmetric] split: sum.splits)
  qed
qed

lemma sequenceR_map_Inr [simp]: "sequenceR (map (\<lambda>x. Inr (f x)) xs) = Inr (map f xs)"
  by (induction xs) auto

lemma sequenceR_map_cong_Inr:
  "(\<And>x. x \<in> set xs \<Longrightarrow> f x = Inr (g x)) \<Longrightarrow> sequenceR (map f xs) = Inr (map g xs)"
  by (induction xs) auto

lemma sequenceR_Inr_set:
  assumes "sequenceR (map f xs) = Inr ys" and "y \<in> set ys"
  shows "\<exists>x \<in> set xs. f x = Inr y"
proof -
  from assms(1) have "list_all2 (\<lambda>x y. f x = Inr y) xs ys" by (simp add: sequenceR_Inr)
  then show ?thesis using assms(2) by (induction rule: list_all2_induct) auto
qed

lemma sequenceR_Inl_ex: "sequenceR (map f xs) = Inl e \<Longrightarrow> \<exists>x \<in> set xs. f x = Inl e"
proof (induction xs)
  case Nil
  then show ?case by simp
next
  case (Cons x xs)
  then show ?case by (cases "f x") (auto split: sum.splits)
qed

lemma sequenceR_Inr_all:
  assumes "sequenceR (map f xs) = Inr ys" and "x \<in> set xs"
  shows "\<exists>y. f x = Inr y"
proof -
  from assms(1) have "list_all2 (\<lambda>x y. f x = Inr y) xs ys" by (simp add: sequenceR_Inr)
  then show ?thesis using assms(2) by (induction rule: list_all2_induct) auto
qed

lemma sequenceR_total: "(\<And>x. x \<in> set xs \<Longrightarrow> \<exists>y. f x = Inr y) \<Longrightarrow> \<exists>ys. sequenceR (map f xs) = Inr ys"
proof (induction xs)
  case (Cons x xs)
  obtain y where y: "f x = Inr y" using Cons.prems [of x] by auto
  moreover obtain ys where "sequenceR (map f xs) = Inr ys" using Cons by auto
  ultimately show ?case by simp
qed simp

lemma sequenceR_length: "sequenceR (map f xs) = Inr ys \<Longrightarrow> length ys = length xs"
  by (auto simp: sequenceR_Inr dest: list_all2_lengthD)

subsection \<open>Calls that change the world\<close>

text \<open>
  A call that may change a state of type \<open>'s\<close> and may raise: what it returns or raises, and the
  state it leaves (Python keeps the effects made before an exception). \<open>tryP\<close> is \<open>try/except\<close>
  (the handler returns \<open>None\<close> for an exception it does not catch), \<open>finallyP\<close> is
  \<open>try/finally\<close>: an exception of the cleanup replaces the outcome of the body.
\<close>

type_synonym ('s, 'a) py = "'s \<Rightarrow> 'a result \<times> 's"

definition ret :: "'a \<Rightarrow> ('s, 'a) py" where
  "ret x s = (Inr x, s)"

definition raise :: "exn \<Rightarrow> ('s, 'a) py" where
  "raise e s = (Inl e, s)"

definition liftR :: "'a result \<Rightarrow> ('s, 'a) py" where
  "liftR r s = (r, s)"

definition bindP :: "('s, 'a) py \<Rightarrow> ('a \<Rightarrow> ('s, 'b) py) \<Rightarrow> ('s, 'b) py" where
  "bindP m f s = (case m s of (Inl e, s') \<Rightarrow> (Inl e, s') | (Inr x, s') \<Rightarrow> f x s')"

definition thenP :: "('s, 'a) py \<Rightarrow> ('s, 'b) py \<Rightarrow> ('s, 'b) py" where
  "thenP m n = bindP m (\<lambda>_. n)"

definition tryP :: "('s, 'a) py \<Rightarrow> (exn \<Rightarrow> ('s, 'a) py option) \<Rightarrow> ('s, 'a) py" where
  "tryP m h s = (case m s of
       (Inl e, s') \<Rightarrow> (case h e of None \<Rightarrow> (Inl e, s') | Some n \<Rightarrow> n s')
     | (Inr x, s') \<Rightarrow> (Inr x, s'))"

definition finallyP :: "('s, 'a) py \<Rightarrow> ('s, 'b) py \<Rightarrow> ('s, 'a) py" where
  "finallyP m c s = (case m s of (r, s') \<Rightarrow>
     (case c s' of (Inl e, s'') \<Rightarrow> (Inl e, s'') | (Inr _, s'') \<Rightarrow> (r, s'')))"

text \<open>\<open>for x in xs: f(x)\<close>, collecting what each call returns.\<close>

primrec mapP :: "('a \<Rightarrow> ('s, 'b) py) \<Rightarrow> 'a list \<Rightarrow> ('s, 'b list) py" where
  "mapP f [] = ret []"
| "mapP f (x # xs) = bindP (f x) (\<lambda>y. bindP (mapP f xs) (\<lambda>ys. ret (y # ys)))"

lemma ret_apply [simp]: "ret x s = (Inr x, s)"
  and raise_apply [simp]: "raise e s = (Inl e, s)"
  and liftR_apply [simp]: "liftR r s = (r, s)"
  by (simp_all add: ret_def raise_def liftR_def)

lemma bindP_Inr [simp]: "m s = (Inr x, s') \<Longrightarrow> bindP m f s = f x s'"
  and bindP_Inl [simp]: "m s = (Inl e, s') \<Longrightarrow> bindP m f s = (Inl e, s')"
  by (simp_all add: bindP_def)

lemma thenP_Inr [simp]: "m s = (Inr x, s') \<Longrightarrow> thenP m n s = n s'"
  and thenP_Inl [simp]: "m s = (Inl e, s') \<Longrightarrow> thenP m n s = (Inl e, s')"
  by (simp_all add: thenP_def)

lemma bindP_ret [simp]: "bindP (ret x) f = f x"
  and bindP_raise [simp]: "bindP (raise e) f = raise e"
  and bindP_liftR: "bindP (liftR r) f = (case r of Inl e \<Rightarrow> raise e | Inr x \<Rightarrow> f x)"
  by (auto simp: fun_eq_iff bindP_def split: sum.splits)

lemma bindP_liftR_simps [simp]: "bindP (liftR (Inl e)) f = raise e" "bindP (liftR (Inr x)) f = f x"
  by (simp_all add: bindP_liftR)

lemma bindP_eq_Inr: "bindP m f s = (Inr y, t) \<longleftrightarrow> (\<exists>x s'. m s = (Inr x, s') \<and> f x s' = (Inr y, t))"
  by (auto simp: bindP_def split: prod.splits sum.splits)

lemma bindP_eq_Inl: "bindP m f s = (Inl e, t) \<longleftrightarrow>
    m s = (Inl e, t) \<or> (\<exists>x s'. m s = (Inr x, s') \<and> f x s' = (Inl e, t))"
  by (auto simp: bindP_def split: prod.splits sum.splits)

lemma thenP_eq_Inr: "thenP m n s = (Inr y, t) \<longleftrightarrow> (\<exists>x s'. m s = (Inr x, s') \<and> n s' = (Inr y, t))"
  and thenP_eq_Inl: "thenP m n s = (Inl e, t) \<longleftrightarrow>
    m s = (Inl e, t) \<or> (\<exists>x s'. m s = (Inr x, s') \<and> n s' = (Inl e, t))"
  by (auto simp: thenP_def bindP_eq_Inr bindP_eq_Inl)

lemma finallyP_eq: "m s = (r, s') \<Longrightarrow> c s' = (Inr x, s'') \<Longrightarrow> finallyP m c s = (r, s'')"
  and finallyP_Inl: "m s = (r, s') \<Longrightarrow> c s' = (Inl e, s'') \<Longrightarrow> finallyP m c s = (Inl e, s'')"
  by (simp_all add: finallyP_def)

text \<open>A relation between the state before and after that every step of a call keeps: the frame rules
  of the components are instances of it.\<close>

definition keeps :: "('s \<Rightarrow> 's \<Rightarrow> bool) \<Rightarrow> ('s, 'a) py \<Rightarrow> bool" where
  "keeps R m \<longleftrightarrow> (\<forall>s. R s (snd (m s)))"

lemma keepsD: "keeps R m \<Longrightarrow> m s = (r, t) \<Longrightarrow> R s t"
  by (metis keeps_def snd_conv)

lemma keepsI: "(\<And>s r t. m s = (r, t) \<Longrightarrow> R s t) \<Longrightarrow> keeps R m"
  by (metis keeps_def prod.collapse)

lemma keeps_pure: "reflp R \<Longrightarrow> keeps R (ret x)" "reflp R \<Longrightarrow> keeps R (raise e)"
  "reflp R \<Longrightarrow> keeps R (liftR r)"
  by (simp_all add: keeps_def reflpD)

lemma keeps_bindP:
  assumes "transp R" and "keeps R m" and "\<And>x. keeps R (f x)"
  shows "keeps R (bindP m f)"
proof (rule keepsI)
  fix s r t assume b: "bindP m f s = (r, t)"
  obtain r' s' where m: "m s = (r', s')" by (cases "m s")
  have "R s s'" using assms(2) m by (rule keepsD)
  with b m show "R s t"
    using keepsD [OF assms(3)] transpD [OF assms(1)] by (cases r') (auto simp: bindP_def)
qed

lemma keeps_thenP: "transp R \<Longrightarrow> keeps R m \<Longrightarrow> keeps R n \<Longrightarrow> keeps R (thenP m n)"
  by (simp add: thenP_def keeps_bindP)

lemma keeps_tryP:
  assumes "transp R" and "keeps R m" and "\<And>e n. h e = Some n \<Longrightarrow> keeps R n"
  shows "keeps R (tryP m h)"
proof (rule keepsI)
  fix s r t assume b: "tryP m h s = (r, t)"
  obtain r' s' where m: "m s = (r', s')" by (cases "m s")
  have "R s s'" using assms(2) m by (rule keepsD)
  with b m show "R s t"
    using keepsD [OF assms(3)] transpD [OF assms(1)]
    by (cases r') (auto simp: tryP_def split: option.splits)
qed

lemma keeps_mapP: "reflp R \<Longrightarrow> transp R \<Longrightarrow> (\<And>x. x \<in> set xs \<Longrightarrow> keeps R (f x)) \<Longrightarrow> keeps R (mapP f xs)"
  by (induction xs) (auto intro!: keeps_bindP keeps_pure)

lemma mapP_Inr_each: "mapP f xs s = (Inr ys, t) \<Longrightarrow> list_all2 (\<lambda>x y. \<exists>s1 t1. f x s1 = (Inr y, t1)) xs ys"
  by (induction xs arbitrary: s ys) (auto simp: bindP_eq_Inr)

lemma mapP_Inl_ex: "mapP f xs s = (Inl e, t) \<Longrightarrow> \<exists>x \<in> set xs. \<exists>s1 t1. f x s1 = (Inl e, t1)"
  by (induction xs arbitrary: s) (fastforce simp: bindP_eq_Inl)+

lemma mapP_total:
  assumes "\<And>x s. x \<in> set xs \<Longrightarrow> \<exists>y t. f x s = (Inr y, t)"
  shows "\<exists>ys t. mapP f xs s = (Inr ys, t)"
  using assms
proof (induction xs arbitrary: s)
  case (Cons x xs)
  obtain y t where "f x s = (Inr y, t)" using Cons.prems [of x s] by auto
  moreover obtain ys u where "mapP f xs t = (Inr ys, u)" using Cons.IH [of t] Cons.prems by auto
  ultimately show ?case by simp
qed simp

text \<open>A loop whose calls leave the state alone is a sequence of results.\<close>

lemma mapP_pure: "(\<And>x s. f x s = (g x, s)) \<Longrightarrow> mapP f xs s = (sequenceR (map g xs), s)"
proof (induction xs)
  case (Cons x xs)
  then show ?case by (cases "g x") (auto simp: bindP_def split: sum.splits)
qed simp

lemma mapP_const: "(\<And>x s. x \<in> set xs \<Longrightarrow> f x s = (Inr (g x), s)) \<Longrightarrow> mapP f xs s = (Inr (map g xs), s)"
  by (induction xs) auto

end
