(* ===== verification/Stores.thy ===== *)
theory Stores
  imports PyPrelude
begin

section \<open>The stores the program is given\<close>

text \<open>
  The source never builds a store itself: every component takes a client as an argument and declares
  the operations it needs as a \<open>Protocol\<close> class (\<open>SchedulerStore\<close>, \<open>AlertStateStore\<close>,
  \<open>RedisStateStore\<close>, \<open>RedisLeaseStore\<close>). This theory has one record of operations per protocol, and
  one locale per protocol with the laws that Redis documents for them, in terms of an abstract view of
  the store. An operation may raise; \<open>up\<close> says that the server answers. A raised write may or may not
  have been applied (the reply can be lost after the server has executed it), a raised read changes
  nothing.
\<close>

subsection \<open>Values that persist (\<open>SchedulerStore\<close>, \<open>AlertStateStore\<close>)\<close>

record 's kv_ops =
  kv_get :: "string \<Rightarrow> ('s, string option) py"
  kv_set :: "string \<Rightarrow> string \<Rightarrow> ('s, unit) py"

locale kv_store =
  fixes ops :: "'s kv_ops"
    and view :: "'s \<Rightarrow> string \<Rightarrow> string option"
    and up :: "'s \<Rightarrow> bool"
  assumes get_Inr: "kv_get ops k s = (Inr r, t) \<Longrightarrow> r = view s k \<and> view t = view s"
    and get_Inl: "kv_get ops k s = (Inl e, t) \<Longrightarrow> is_Exception e \<and> view t = view s"
    and get_up: "up s \<Longrightarrow> \<exists>r t. kv_get ops k s = (Inr r, t) \<and> up t"
    and set_Inr: "kv_set ops k v s = (Inr u, t) \<Longrightarrow> view t = (view s)(k \<mapsto> v)"
    and set_Inl: "kv_set ops k v s = (Inl e, t) \<Longrightarrow>
      is_Exception e \<and> (view t = view s \<or> view t = (view s)(k \<mapsto> v))"
    and set_up: "up s \<Longrightarrow> \<exists>u t. kv_set ops k v s = (Inr u, t) \<and> up t"
begin

lemma get_upE:
  assumes "up s"
  obtains t where "kv_get ops k s = (Inr (view s k), t)" and "view t = view s" and "up t"
  using get_up [OF assms, of k] get_Inr by metis

lemma set_upE:
  assumes "up s"
  obtains t where "kv_set ops k v s = (Inr (), t)" and "view t = (view s)(k \<mapsto> v)" and "up t"
  using set_up [OF assms, of k v] set_Inr by (metis old.unit.exhaust)

lemma get_view: "kv_get ops k s = (r, t) \<Longrightarrow> view t = view s"
  using get_Inr get_Inl by (cases r) blast+

lemma set_other: "kv_set ops k v s = (r, t) \<Longrightarrow> j \<noteq> k \<Longrightarrow> view t j = view s j"
  by (cases r) (auto dest!: set_Inr set_Inl)

end

subsection \<open>Values that expire (\<open>RedisStateStore\<close>)\<close>

text \<open>\<open>tv_view s k\<close> is the live value and the time at which it expires; \<open>wait_ms d\<close> lets time
  pass (the environment's step, in milliseconds).\<close>

record 's ttl_ops =
  ttl_get :: "string \<Rightarrow> ('s, string option) py"
  ttl_set :: "string \<Rightarrow> string \<Rightarrow> int option \<Rightarrow> ('s, unit) py"

type_synonym 'v expiring = "('v \<times> int option) option"

definition live_at :: "int \<Rightarrow> 'v expiring \<Rightarrow> 'v expiring" where
  "live_at t x = (case x of Some (v, Some e) \<Rightarrow> (if t < e then x else None) | _ \<Rightarrow> x)"

lemma live_at_simps [simp]:
  "live_at t None = None" "live_at t (Some (v, None)) = Some (v, None)"
  "live_at t (Some (v, Some e)) = (if t < e then Some (v, Some e) else None)"
  by (simp_all add: live_at_def)

lemma live_at_idem [simp]: "t \<le> u \<Longrightarrow> live_at u (live_at t x) = live_at u x"
  by (auto simp: live_at_def split: option.splits)

definition expiry :: "int \<Rightarrow> int option \<Rightarrow> int option" where
  "expiry t ex = map_option (\<lambda>secs. t + 1000 * secs) ex"

locale ttl_store =
  fixes ops :: "'s ttl_ops"
    and tview :: "'s \<Rightarrow> string \<Rightarrow> string expiring"
    and now_ms :: "'s \<Rightarrow> int"
    and wait_ms :: "int \<Rightarrow> 's \<Rightarrow> 's"
    and up :: "'s \<Rightarrow> bool"
  assumes tget_Inr: "ttl_get ops k s = (Inr r, t) \<Longrightarrow>
      r = map_option fst (tview s k) \<and> tview t = tview s \<and> now_ms t = now_ms s"
    and tget_Inl: "ttl_get ops k s = (Inl e, t) \<Longrightarrow>
      is_Exception e \<and> tview t = tview s \<and> now_ms t = now_ms s"
    and tget_up: "up s \<Longrightarrow> \<exists>r t. ttl_get ops k s = (Inr r, t) \<and> up t"
    and tset_Inr: "(\<forall>secs. ex = Some secs \<longrightarrow> 0 < secs) \<Longrightarrow> ttl_set ops k v ex s = (Inr u, t) \<Longrightarrow>
      tview t = (tview s)(k \<mapsto> (v, expiry (now_ms s) ex)) \<and> now_ms t = now_ms s"
    and tset_Inl: "(\<forall>secs. ex = Some secs \<longrightarrow> 0 < secs) \<Longrightarrow> ttl_set ops k v ex s = (Inl e, t) \<Longrightarrow>
      is_Exception e \<and> now_ms t = now_ms s \<and>
      (tview t = tview s \<or> tview t = (tview s)(k \<mapsto> (v, expiry (now_ms s) ex)))"
    and tset_up: "(\<forall>secs. ex = Some secs \<longrightarrow> 0 < secs) \<Longrightarrow> up s \<Longrightarrow>
      \<exists>u t. ttl_set ops k v ex s = (Inr u, t) \<and> up t"
    and wait_view: "0 \<le> d \<Longrightarrow> tview (wait_ms d s) k = live_at (now_ms s + d) (tview s k)"
    and wait_now: "0 \<le> d \<Longrightarrow> now_ms (wait_ms d s) = now_ms s + d"
    and wait_up: "up s \<Longrightarrow> up (wait_ms d s)"
begin

lemma tget_upE:
  assumes "up s"
  obtains t where "ttl_get ops k s = (Inr (map_option fst (tview s k)), t)"
    and "tview t = tview s" and "now_ms t = now_ms s" and "up t"
  using tget_up [OF assms, of k] tget_Inr by metis

lemma tset_upE:
  assumes "\<forall>secs. ex = Some secs \<longrightarrow> 0 < secs" and "up s"
  obtains t where "ttl_set ops k v ex s = (Inr (), t)"
    and "tview t = (tview s)(k \<mapsto> (v, expiry (now_ms s) ex))" and "now_ms t = now_ms s" and "up t"
  using tset_up [OF assms, of k v] tset_Inr [OF assms(1)] by (metis old.unit.exhaust)

end

subsection \<open>Leases (\<open>RedisLeaseStore\<close>)\<close>

text \<open>\<open>SET key value NX EX ttl\<close>, and \<open>EVAL\<close>, which runs a script atomically on the server; the
  script itself calls \<open>GET\<close>, \<open>DEL\<close> and \<open>EXPIRE\<close> there. \<open>lview s k\<close> is the live holder of a lock
  key and the time its lease ends, if it ends.\<close>

record 's lease_ops =
  set_nx_ex :: "string \<Rightarrow> string \<Rightarrow> int \<Rightarrow> ('s, bool) py"
  eval_script :: "('s \<Rightarrow> int \<times> 's) \<Rightarrow> ('s, int) py"
  call_get :: "string \<Rightarrow> 's \<Rightarrow> string option"
  call_del :: "string \<Rightarrow> 's \<Rightarrow> int \<times> 's"
  call_expire :: "string \<Rightarrow> int \<Rightarrow> 's \<Rightarrow> int \<times> 's"

locale lease_store =
  fixes ops :: "'s lease_ops"
    and lview :: "'s \<Rightarrow> string \<Rightarrow> string expiring"
    and now_ms :: "'s \<Rightarrow> int"
    and wait_ms :: "int \<Rightarrow> 's \<Rightarrow> 's"
    and up :: "'s \<Rightarrow> bool"
  assumes nx_Inr: "0 < ttl \<Longrightarrow> set_nx_ex ops k v ttl s = (Inr b, t) \<Longrightarrow>
      b = (lview s k = None) \<and> now_ms t = now_ms s \<and>
      lview t = (if b then (lview s)(k \<mapsto> (v, Some (now_ms s + 1000 * ttl))) else lview s)"
    and nx_Inl: "0 < ttl \<Longrightarrow> set_nx_ex ops k v ttl s = (Inl e, t) \<Longrightarrow>
      is_Exception e \<and> now_ms t = now_ms s \<and>
      (lview t = lview s \<or> lview s k = None \<and> lview t = (lview s)(k \<mapsto> (v, Some (now_ms s + 1000 * ttl))))"
    and nx_up: "0 < ttl \<Longrightarrow> up s \<Longrightarrow> \<exists>b t. set_nx_ex ops k v ttl s = (Inr b, t) \<and> up t"
    and eval_Inr: "eval_script ops f s = (Inr n, t) \<Longrightarrow>
      n = fst (f s) \<and> lview t = lview (snd (f s)) \<and> now_ms t = now_ms (snd (f s))"
    and eval_Inl: "eval_script ops f s = (Inl e, t) \<Longrightarrow> is_Exception e \<and>
      (lview t = lview s \<and> now_ms t = now_ms s \<or>
       lview t = lview (snd (f s)) \<and> now_ms t = now_ms (snd (f s)))"
    and eval_up: "up s \<Longrightarrow> up (snd (f s)) \<Longrightarrow> \<exists>n t. eval_script ops f s = (Inr n, t) \<and> up t"
    and get_law: "call_get ops k s = map_option fst (lview s k)"
    and del_law: "fst (call_del ops k s) = (if lview s k = None then 0 else 1)"
    and del_view: "lview (snd (call_del ops k s)) = (lview s)(k := None)"
    and del_now: "now_ms (snd (call_del ops k s)) = now_ms s"
    and del_up: "up s \<Longrightarrow> up (snd (call_del ops k s))"
    and expire_law: "0 < ttl \<Longrightarrow>
      fst (call_expire ops k ttl s) = (if lview s k = None then 0 else 1)"
    and expire_view: "0 < ttl \<Longrightarrow> lview (snd (call_expire ops k ttl s)) =
      (lview s)(k := map_option (\<lambda>(v, _). (v, Some (now_ms s + 1000 * ttl))) (lview s k))"
    and expire_now: "now_ms (snd (call_expire ops k ttl s)) = now_ms s"
    and expire_up: "up s \<Longrightarrow> up (snd (call_expire ops k ttl s))"
    and wait_lview: "0 \<le> d \<Longrightarrow> lview (wait_ms d s) k = live_at (now_ms s + d) (lview s k)"
    and lwait_now: "0 \<le> d \<Longrightarrow> now_ms (wait_ms d s) = now_ms s + d"
    and lwait_up: "up s \<Longrightarrow> up (wait_ms d s)"

end
