(* ===== verification/Redis.thy ===== *)
theory Redis
  imports Stores "HOL-Library.AList"
begin

section \<open>A reference Redis\<close>

text \<open>
  A small executable model of a Redis server and its client, with the commands that the source's
  protocol classes name. It is the instance on which the laws of \<open>Stores\<close> are shown to hold together
  (the interpretations below) and on which the witnesses run; no property of the program depends on
  its details.

  The server has a clock in milliseconds; a string may carry an expiry time, and a string past it is
  absent. \<open>faults\<close> is the fate of the next commands: \<open>Served\<close>, \<open>Refused\<close> (the command never reached
  the server) or \<open>ReplyLost\<close> (it ran, and the client saw a broken connection); commands after the end
  of the list are served. Strings, hashes, sets and lists are separate key spaces here.
\<close>

datatype fault = Served | Refused | ReplyLost

record redis =
  clock :: int
  strings :: "string \<Rightarrow> string expiring"
  hashes :: "string \<Rightarrow> (string \<times> string) list"
  sets :: "string \<Rightarrow> string list"
  queues :: "string \<Rightarrow> string list"
  faults :: "fault list"

definition redis0 :: redis where
  "redis0 = \<lparr>clock = 0, strings = (\<lambda>_. None), hashes = (\<lambda>_. []), sets = (\<lambda>_. []), queues = (\<lambda>_. []),
     faults = []\<rparr>"

abbreviation redis_error :: exn where
  "redis_error \<equiv> OtherException ''redis.exceptions.ConnectionError''"

text \<open>Send one command: \<open>f\<close> is what the server does.\<close>

definition command :: "('m redis_scheme \<Rightarrow> 'a \<times> 'm redis_scheme) \<Rightarrow> ('m redis_scheme, 'a) py" where
  "command f s = (case faults s of
       [] \<Rightarrow> (case f s of (x, t) \<Rightarrow> (Inr x, t))
     | Served # fs \<Rightarrow> (case f s of (x, t) \<Rightarrow> (Inr x, t\<lparr>faults := fs\<rparr>))
     | Refused # fs \<Rightarrow> (Inl redis_error, s\<lparr>faults := fs\<rparr>)
     | ReplyLost # fs \<Rightarrow> (Inl redis_error, (snd (f s))\<lparr>faults := fs\<rparr>))"

definition live_str :: "'m redis_scheme \<Rightarrow> string \<Rightarrow> string expiring" where
  "live_str s k = live_at (clock s) (strings s k)"

definition redis_get :: "string \<Rightarrow> 'm redis_scheme \<Rightarrow> string option" where
  "redis_get k s = map_option fst (live_str s k)"

definition redis_set :: "string \<Rightarrow> string \<Rightarrow> int option \<Rightarrow> 'm redis_scheme \<Rightarrow> 'm redis_scheme" where
  "redis_set k v ex s = s\<lparr>strings := (strings s)(k \<mapsto> (v, expiry (clock s) ex))\<rparr>"

definition redis_set_nx_ex :: "string \<Rightarrow> string \<Rightarrow> int \<Rightarrow> 'm redis_scheme \<Rightarrow> bool \<times> 'm redis_scheme" where
  "redis_set_nx_ex k v ttl s =
     (if live_str s k = None then (True, redis_set k v (Some ttl) s) else (False, s))"

definition redis_del :: "string \<Rightarrow> 'm redis_scheme \<Rightarrow> int \<times> 'm redis_scheme" where
  "redis_del k s = (if live_str s k = None then 0 else 1, s\<lparr>strings := (strings s)(k := None)\<rparr>)"

definition redis_expire :: "string \<Rightarrow> int \<Rightarrow> 'm redis_scheme \<Rightarrow> int \<times> 'm redis_scheme" where
  "redis_expire k ttl s = (case live_str s k of
       None \<Rightarrow> (0, s)
     | Some (v, _) \<Rightarrow> (1, redis_set k v (Some ttl) s))"

definition redis_wait :: "int \<Rightarrow> 'm redis_scheme \<Rightarrow> 'm redis_scheme" where
  "redis_wait d s = s\<lparr>clock := clock s + d\<rparr>"

definition redis_push :: "string \<Rightarrow> string \<Rightarrow> 'm redis_scheme \<Rightarrow> unit \<times> 'm redis_scheme" where
  "redis_push q x s = ((), s\<lparr>queues := (queues s)(q := queues s q @ [x])\<rparr>)"

definition redis_up :: "'m redis_scheme \<Rightarrow> bool" where
  "redis_up s \<longleftrightarrow> faults s = []"

definition redis_kv :: "'m redis_scheme kv_ops" where
  "redis_kv = \<lparr>kv_get = \<lambda>k. command (\<lambda>s. (redis_get k s, s)),
     kv_set = \<lambda>k v. command (\<lambda>s. ((), redis_set k v None s))\<rparr>"

definition redis_ttl :: "'m redis_scheme ttl_ops" where
  "redis_ttl = \<lparr>ttl_get = \<lambda>k. command (\<lambda>s. (redis_get k s, s)),
     ttl_set = \<lambda>k v ex. command (\<lambda>s. ((), redis_set k v ex s))\<rparr>"

definition redis_lease :: "'m redis_scheme lease_ops" where
  "redis_lease = \<lparr>set_nx_ex = \<lambda>k v ttl. command (redis_set_nx_ex k v ttl),
     eval_script = command, call_get = redis_get, call_del = redis_del, call_expire = redis_expire\<rparr>"

definition redis_view :: "'m redis_scheme \<Rightarrow> string \<Rightarrow> string option" where
  "redis_view s k = redis_get k s"

lemmas redis_defs = redis_kv_def redis_ttl_def redis_lease_def redis_view_def [abs_def] redis_get_def
  redis_set_def redis_set_nx_ex_def redis_del_def redis_expire_def redis_wait_def redis_up_def
  redis_push_def live_str_def

lemma command_Inr: "command f s = (Inr x, t) \<Longrightarrow>
    x = fst (f s) \<and> (t = snd (f s) \<or> (\<exists>fs. t = (snd (f s))\<lparr>faults := fs\<rparr>))"
  by (auto simp: command_def split: list.splits fault.splits prod.splits)

lemma command_Inl: "command f s = (Inl e, t) \<Longrightarrow>
    is_Exception e \<and> (\<exists>fs. t = s\<lparr>faults := fs\<rparr> \<or> t = (snd (f s))\<lparr>faults := fs\<rparr>)"
  by (auto simp: command_def split: list.splits fault.splits prod.splits)

lemma command_up: "redis_up s \<Longrightarrow> command f s = (Inr (fst (f s)), snd (f s))"
  by (simp add: command_def redis_up_def split: prod.splits)

text \<open>The reference Redis meets the laws of every protocol.\<close>

lemma redis_view_faults [simp]: "redis_view (s\<lparr>faults := fs\<rparr>) = redis_view s"
  "live_str (s\<lparr>faults := fs\<rparr>) = live_str s"
  by (simp_all add: redis_defs fun_eq_iff)

lemma redis_view_set [simp]: "redis_view (redis_set k v None s) = (redis_view s)(k \<mapsto> v)"
  by (simp add: redis_defs fun_eq_iff expiry_def)

lemma live_str_set [simp]: "(\<forall>secs. ex = Some secs \<longrightarrow> 0 < secs) \<Longrightarrow>
    live_str (redis_set k v ex s) = (live_str s)(k \<mapsto> (v, expiry (clock s) ex))"
  by (cases ex) (auto simp: redis_defs fun_eq_iff expiry_def)

lemma redis_set_fields [simp]: "clock (redis_set k v ex s) = clock s" "faults (redis_set k v ex s) = faults s"
  by (simp_all add: redis_set_def)

lemma redis_view_live: "redis_view s k = map_option fst (live_str s k)"
  by (simp add: redis_view_def redis_get_def)

interpretation redis_kv: kv_store redis_kv redis_view redis_up
proof unfold_locales
  fix k v and s t :: "'m redis_scheme" and u :: unit and e :: exn and r
  show "kv_get redis_kv k s = (Inr r, t) \<Longrightarrow> r = redis_view s k \<and> redis_view t = redis_view s"
    by (auto simp: redis_kv_def redis_view_def dest!: command_Inr)
  show "kv_get redis_kv k s = (Inl e, t) \<Longrightarrow> is_Exception e \<and> redis_view t = redis_view s"
    by (auto simp: redis_kv_def dest!: command_Inl)
  show "redis_up s \<Longrightarrow> \<exists>r t. kv_get redis_kv k s = (Inr r, t) \<and> redis_up t"
    by (simp add: redis_kv_def command_up)
  show "kv_set redis_kv k v s = (Inr u, t) \<Longrightarrow> redis_view t = (redis_view s)(k \<mapsto> v)"
    by (auto simp: redis_kv_def dest!: command_Inr)
  show "kv_set redis_kv k v s = (Inl e, t) \<Longrightarrow>
      is_Exception e \<and> (redis_view t = redis_view s \<or> redis_view t = (redis_view s)(k \<mapsto> v))"
    by (auto simp: redis_kv_def dest!: command_Inl)
  show "redis_up s \<Longrightarrow> \<exists>u t. kv_set redis_kv k v s = (Inr u, t) \<and> redis_up t"
    by (simp add: redis_kv_def command_up redis_up_def)
qed

lemma live_str_wait: "0 \<le> d \<Longrightarrow> live_str (redis_wait d s) k = live_at (clock s + d) (live_str s k)"
  by (simp add: live_str_def redis_wait_def)

interpretation redis_ttl: ttl_store redis_ttl live_str clock redis_wait redis_up
proof unfold_locales
  fix k v and s t :: "'m redis_scheme" and u :: unit and e :: exn and r and ex :: "int option"
  show "ttl_get redis_ttl k s = (Inr r, t) \<Longrightarrow>
      r = map_option fst (live_str s k) \<and> live_str t = live_str s \<and> clock t = clock s"
    by (auto simp: redis_ttl_def redis_get_def dest!: command_Inr)
  show "ttl_get redis_ttl k s = (Inl e, t) \<Longrightarrow>
      is_Exception e \<and> live_str t = live_str s \<and> clock t = clock s"
    by (auto simp: redis_ttl_def dest!: command_Inl)
  show "redis_up s \<Longrightarrow> \<exists>r t. ttl_get redis_ttl k s = (Inr r, t) \<and> redis_up t"
    by (simp add: redis_ttl_def command_up)
  assume ex: "\<forall>secs. ex = Some secs \<longrightarrow> 0 < secs"
  show "ttl_set redis_ttl k v ex s = (Inr u, t) \<Longrightarrow>
      live_str t = (live_str s)(k \<mapsto> (v, expiry (clock s) ex)) \<and> clock t = clock s"
    using ex by (auto simp: redis_ttl_def dest!: command_Inr)
  show "ttl_set redis_ttl k v ex s = (Inl e, t) \<Longrightarrow> is_Exception e \<and> clock t = clock s \<and>
      (live_str t = live_str s \<or> live_str t = (live_str s)(k \<mapsto> (v, expiry (clock s) ex)))"
    using ex by (auto simp: redis_ttl_def dest!: command_Inl)
  show "redis_up s \<Longrightarrow> \<exists>u t. ttl_set redis_ttl k v ex s = (Inr u, t) \<and> redis_up t"
    by (simp add: redis_ttl_def command_up redis_up_def)
next
  fix k d and s :: "'m redis_scheme"
  assume d: "0 \<le> (d :: int)"
  show "live_str (redis_wait d s) k = live_at (clock s + d) (live_str s k)"
    using d by (rule live_str_wait)
  show "clock (redis_wait d s) = clock s + d" by (simp add: redis_wait_def)
next
  show "redis_up s \<Longrightarrow> redis_up (redis_wait d s)" for d and s :: "'m redis_scheme"
    by (simp add: redis_up_def redis_wait_def)
qed

lemma live_str_del [simp]: "live_str (snd (redis_del k s)) = (live_str s)(k := None)"
  by (simp add: redis_del_def live_str_def fun_eq_iff)

lemma redis_del_fields [simp]: "clock (snd (redis_del k s)) = clock s" "faults (snd (redis_del k s)) = faults s"
  by (simp_all add: redis_del_def)

lemma redis_expire_fields [simp]: "clock (snd (redis_expire k ttl s)) = clock s"
  "faults (snd (redis_expire k ttl s)) = faults s"
  by (simp_all add: redis_expire_def split: option.split)

lemma live_str_expire: "0 < ttl \<Longrightarrow> live_str (snd (redis_expire k ttl s)) =
    (live_str s)(k := map_option (\<lambda>(v, _). (v, Some (clock s + 1000 * ttl))) (live_str s k))"
  by (auto simp: redis_expire_def expiry_def split: option.split)

lemma redis_nx_view: "0 < ttl \<Longrightarrow> live_str (snd (redis_set_nx_ex k v ttl s)) =
    (if live_str s k = None then (live_str s)(k \<mapsto> (v, Some (clock s + 1000 * ttl))) else live_str s)"
  by (simp add: redis_set_nx_ex_def expiry_def)

lemma redis_nx_fields [simp]: "fst (redis_set_nx_ex k v ttl s) = (live_str s k = None)"
  "clock (snd (redis_set_nx_ex k v ttl s)) = clock s" "faults (snd (redis_set_nx_ex k v ttl s)) = faults s"
  by (simp_all add: redis_set_nx_ex_def)

interpretation redis_lease: lease_store redis_lease live_str clock redis_wait redis_up
proof unfold_locales
  fix k v and s t :: "'m redis_scheme" and e :: exn and b and ttl :: int
  assume ttl: "0 < ttl"
  show "set_nx_ex redis_lease k v ttl s = (Inr b, t) \<Longrightarrow>
      b = (live_str s k = None) \<and> clock t = clock s \<and>
      live_str t = (if b then (live_str s)(k \<mapsto> (v, Some (clock s + 1000 * ttl))) else live_str s)"
    using ttl by (auto simp: redis_lease_def redis_nx_view dest!: command_Inr)
  show "set_nx_ex redis_lease k v ttl s = (Inl e, t) \<Longrightarrow>
      is_Exception e \<and> clock t = clock s \<and> (live_str t = live_str s \<or>
      live_str s k = None \<and> live_str t = (live_str s)(k \<mapsto> (v, Some (clock s + 1000 * ttl))))"
    using ttl by (auto simp: redis_lease_def redis_nx_view dest!: command_Inl)
  show "redis_up s \<Longrightarrow> \<exists>b t. set_nx_ex redis_lease k v ttl s = (Inr b, t) \<and> redis_up t"
    by (simp add: redis_lease_def command_up redis_up_def)
  show "fst (call_expire redis_lease k ttl s) = (if live_str s k = None then 0 else 1)"
    by (simp add: redis_lease_def redis_expire_def split: option.split)
  show "live_str (snd (call_expire redis_lease k ttl s)) =
      (live_str s)(k := map_option (\<lambda>(v, _). (v, Some (clock s + 1000 * ttl))) (live_str s k))"
    using ttl by (simp add: redis_lease_def live_str_expire)
next
  fix f :: "'m redis_scheme \<Rightarrow> int \<times> 'm redis_scheme" and s t :: "'m redis_scheme" and n and e :: exn
  show "eval_script redis_lease f s = (Inr n, t) \<Longrightarrow>
      n = fst (f s) \<and> live_str t = live_str (snd (f s)) \<and> clock t = clock (snd (f s))"
    by (auto simp: redis_lease_def dest!: command_Inr)
  show "eval_script redis_lease f s = (Inl e, t) \<Longrightarrow> is_Exception e \<and>
      (live_str t = live_str s \<and> clock t = clock s \<or>
       live_str t = live_str (snd (f s)) \<and> clock t = clock (snd (f s)))"
    by (auto simp: redis_lease_def dest!: command_Inl)
  show "redis_up s \<Longrightarrow> redis_up (snd (f s)) \<Longrightarrow>
      \<exists>n t. eval_script redis_lease f s = (Inr n, t) \<and> redis_up t"
    by (simp add: redis_lease_def command_up)
next
  fix k and s :: "'m redis_scheme" and ttl :: int
  show "call_get redis_lease k s = map_option fst (live_str s k)"
    by (simp add: redis_lease_def redis_get_def)
  show "fst (call_del redis_lease k s) = (if live_str s k = None then 0 else 1)"
    by (simp add: redis_lease_def redis_del_def)
  show "live_str (snd (call_del redis_lease k s)) = (live_str s)(k := None)"
    "clock (snd (call_del redis_lease k s)) = clock s"
    "redis_up s \<Longrightarrow> redis_up (snd (call_del redis_lease k s))"
    "clock (snd (call_expire redis_lease k ttl s)) = clock s"
    "redis_up s \<Longrightarrow> redis_up (snd (call_expire redis_lease k ttl s))"
    by (simp_all add: redis_lease_def redis_up_def)
next
  fix k d and s :: "'m redis_scheme"
  assume d: "0 \<le> (d :: int)"
  show "live_str (redis_wait d s) k = live_at (clock s + d) (live_str s k)"
    using d by (rule live_str_wait)
  show "clock (redis_wait d s) = clock s + d" by (simp add: redis_wait_def)
next
  show "redis_up s \<Longrightarrow> redis_up (redis_wait d s)" for d and s :: "'m redis_scheme"
    by (simp add: redis_up_def redis_wait_def)
qed

end
