(* ===== verification/PyText.thy ===== *)
theory PyText
  imports PyPrelude
begin

section \<open>Python text: characters, \<open>str\<close> methods, decimal text\<close>

text \<open>
  \<open>ord\<close>, the character classes behind \<open>re\<close>, \<open>str.lower\<close>, \<open>str.strip\<close>, \<open>str.isdigit\<close>,
  \<open>in\<close>, \<open>startswith\<close>, \<open>split\<close>, \<open>join\<close>, \<open>str(int)\<close> and \<open>int(str)\<close> as the components use them,
  on code points 0 to 255. \<open>nat_text\<close>/\<open>digits_val\<close> and \<open>pad\<close> carry the round trips of every
  component that writes numbers into text.
\<close>

subsection \<open>Characters\<close>

definition ord :: "char \<Rightarrow> nat" where
  "ord c = of_char c"

definition is_ascii_digit :: "char \<Rightarrow> bool" where
  "is_ascii_digit c \<longleftrightarrow> 48 \<le> ord c \<and> ord c \<le> 57"

definition is_lower_az :: "char \<Rightarrow> bool" where
  "is_lower_az c \<longleftrightarrow> 97 \<le> ord c \<and> ord c \<le> 122"

definition is_upper_AZ :: "char \<Rightarrow> bool" where
  "is_upper_AZ c \<longleftrightarrow> 65 \<le> ord c \<and> ord c \<le> 90"

text \<open>\<open>str.lower\<close>: ASCII and Latin-1 capitals (192 to 222, not the multiplication sign 215).\<close>

definition lower_char :: "char \<Rightarrow> char" where
  "lower_char c =
     (if is_upper_AZ c \<or> (192 \<le> ord c \<and> ord c \<le> 222 \<and> ord c \<noteq> 215)
      then char_of (ord c + 32) else c)"

definition lower :: "string \<Rightarrow> string" where
  "lower s = map lower_char s"

text \<open>\<open>str.isspace\<close> on one character.\<close>

definition is_space :: "char \<Rightarrow> bool" where
  "is_space c \<longleftrightarrow> (9 \<le> ord c \<and> ord c \<le> 13) \<or> (28 \<le> ord c \<and> ord c \<le> 32)
     \<or> ord c = 133 \<or> ord c = 160"

definition strip :: "string \<Rightarrow> string" where
  "strip s = rev (dropWhile is_space (rev (dropWhile is_space s)))"

text \<open>\<open>str.isdigit\<close> also accepts the superscripts two, three and one (178, 179, 185).\<close>

definition is_digit_char :: "char \<Rightarrow> bool" where
  "is_digit_char c \<longleftrightarrow> is_ascii_digit c \<or> ord c = 178 \<or> ord c = 179 \<or> ord c = 185"

definition isdigit :: "string \<Rightarrow> bool" where
  "isdigit s \<longleftrightarrow> s \<noteq> [] \<and> list_all is_digit_char s"

lemma ord_less [simp]: "ord c < 256"
  using of_char_mod_256 [of c, where 'a = nat] by (simp add: ord_def)

lemma ord_inj [simp]: "ord c = ord d \<longleftrightarrow> c = d"
  by (simp add: ord_def)

lemma char_of_ord [simp]: "char_of (ord c) = c"
  by (simp add: ord_def)

lemma ord_char_of [simp]: "ord (char_of n) = n mod 256"
  by (simp add: ord_def)

lemma ord_le: "ord c \<le> 255"
  using ord_less [of c] by linarith

lemma lower_char_idem [simp]: "lower_char (lower_char c) = lower_char c"
proof (cases "is_upper_AZ c \<or> (192 \<le> ord c \<and> ord c \<le> 222 \<and> ord c \<noteq> 215)")
  case True
  then have "ord c + 32 < 256" by (auto simp: is_upper_AZ_def)
  then have o: "ord (char_of (ord c + 32)) = ord c + 32" by simp
  have l: "lower_char c = char_of (ord c + 32)" using True by (auto simp: lower_char_def)
  show ?thesis unfolding l lower_char_def is_upper_AZ_def o
    using True by (auto simp: is_upper_AZ_def)
next
  case False
  then show ?thesis unfolding lower_char_def by (simp only: if_False)
qed

lemma lower_idem [simp]: "lower (lower s) = lower s"
  by (simp add: lower_def comp_def)

lemma lower_append [simp]: "lower (s @ t) = lower s @ lower t"
  by (simp add: lower_def)

lemma lower_Nil [simp]: "lower [] = []" and lower_Cons: "lower (c # s) = lower_char c # lower s"
  by (simp_all add: lower_def)

lemma strip_Nil [simp]: "strip [] = []"
  by (simp add: strip_def)

lemma dropWhile_none: "\<forall>x \<in> set s. \<not> P x \<Longrightarrow> dropWhile P s = s"
  by (cases s) auto

lemma strip_idem_nonspace: "list_all (\<lambda>c. \<not> is_space c) s \<Longrightarrow> strip s = s"
  by (simp add: strip_def list_all_iff dropWhile_none)

subsection \<open>Searching, splitting, joining\<close>

fun starts_with :: "'a list \<Rightarrow> 'a list \<Rightarrow> bool" where
  "starts_with [] s = True"
| "starts_with (p # ps) [] = False"
| "starts_with (p # ps) (c # s) = (p = c \<and> starts_with ps s)"

text \<open>\<open>needle in haystack\<close>\<close>

fun contains :: "'a list \<Rightarrow> 'a list \<Rightarrow> bool" where
  "contains p [] = (p = [])"
| "contains p (c # s) = (starts_with p (c # s) \<or> contains p s)"

fun join :: "string \<Rightarrow> string list \<Rightarrow> string" where
  "join sep [] = []"
| "join sep [s] = s"
| "join sep (s # t # ss) = s @ sep @ join sep (t # ss)"

text \<open>\<open>s.split(c, 1)\<close> at the first occurrence of a character: the part before it and, when it
  occurs, the part after it.\<close>

fun split1 :: "char \<Rightarrow> string \<Rightarrow> string \<times> string option" where
  "split1 c [] = ([], None)"
| "split1 c (d # s) = (if d = c then ([], Some s) else (case split1 c s of (a, b) \<Rightarrow> (d # a, b)))"

lemma starts_with_iff: "starts_with p s \<longleftrightarrow> (\<exists>t. s = p @ t)"
  by (induction p s rule: starts_with.induct) auto

lemma contains_iff: "contains p s \<longleftrightarrow> (\<exists>a b. s = a @ p @ b)"
proof (induction p s rule: contains.induct)
  case (1 p)
  then show ?case by auto
next
  case (2 p c s)
  have "(\<exists>a b. c # s = a @ p @ b) \<longleftrightarrow> (\<exists>b. c # s = p @ b) \<or> (\<exists>a b. s = a @ p @ b)"
    by (metis append_Nil append_eq_Cons_conv)
  with 2 show ?case by (simp add: starts_with_iff)
qed

lemma split1_append: "c \<notin> set a \<Longrightarrow> split1 c (a @ c # b) = (a, Some b)"
  by (induction a) auto

lemma split1_absent: "c \<notin> set a \<Longrightarrow> split1 c a = (a, None)"
  by (induction a) auto

lemma join_Cons: "join sep (s # ss) = s @ (if ss = [] then [] else sep @ join sep ss)"
  by (cases ss) auto

lemma set_join: "set (join sep ss) \<subseteq> set sep \<union> (\<Union>s \<in> set ss. set s)"
  by (induction sep ss rule: join.induct) auto

subsection \<open>Decimal text\<close>

definition digit_char :: "nat \<Rightarrow> char" where
  "digit_char d = char_of (48 + d)"

definition digit_val :: "char \<Rightarrow> nat" where
  "digit_val c = ord c - 48"

fun nat_text :: "nat \<Rightarrow> string" where
  "nat_text n = (if n < 10 then [digit_char n] else nat_text (n div 10) @ [digit_char (n mod 10)])"

declare nat_text.simps [simp del]

definition int_text :: "int \<Rightarrow> string" where
  "int_text i = (if i < 0 then CHR ''-'' # nat_text (nat (- i)) else nat_text (nat i))"

definition digits_val :: "string \<Rightarrow> nat" where
  "digits_val s = foldl (\<lambda>n c. 10 * n + digit_val c) 0 s"

text \<open>Zero-padded decimal text of fixed width (\<open>f"{n:04d}"\<close> for numbers that fit).\<close>

fun pad :: "nat \<Rightarrow> nat \<Rightarrow> string" where
  "pad 0 n = []"
| "pad (Suc w) n = pad w (n div 10) @ [digit_char (n mod 10)]"

lemma digit_val_char [simp]: "d < 10 \<Longrightarrow> digit_val (digit_char d) = d"
  by (simp add: digit_val_def digit_char_def)

lemma is_ascii_digit_char [simp]: "d < 10 \<Longrightarrow> is_ascii_digit (digit_char d)"
  by (simp add: is_ascii_digit_def digit_char_def)

lemma digits_val_append: "digits_val (s @ [c]) = 10 * digits_val s + digit_val c"
  by (simp add: digits_val_def)

lemma digits_val_single [simp]: "digits_val [c] = digit_val c"
  by (simp add: digits_val_def)

lemma digits_val_Nil [simp]: "digits_val [] = 0"
  by (simp add: digits_val_def)

lemma digits_val_nat_text [simp]: "digits_val (nat_text n) = n"
proof (induction n rule: nat_text.induct)
  case (1 n)
  then show ?case
    by (subst nat_text.simps) (auto simp: digits_val_append)
qed

lemma nat_text_digits: "list_all is_ascii_digit (nat_text n)"
proof (induction n rule: nat_text.induct)
  case (1 n)
  then show ?case by (subst nat_text.simps) auto
qed

lemma nat_text_nonempty [simp]: "nat_text n \<noteq> []"
  by (subst nat_text.simps) simp

lemma nat_text_inject [simp]: "nat_text m = nat_text n \<longleftrightarrow> m = n"
  by (metis digits_val_nat_text)

lemma digit_char_0 [simp]: "digit_char 0 = CHR ''0''"
  by code_simp

lemma nat_text_zero: "nat_text 0 = ''0''"
  by (subst nat_text.simps) simp

lemma hd_nat_text: "n \<noteq> 0 \<Longrightarrow> hd (nat_text n) \<noteq> CHR ''0''"
proof (induction n rule: nat_text.induct)
  case (1 n)
  show ?case
  proof (cases "n < 10")
    case True
    have "digit_val (digit_char n) \<noteq> digit_val (CHR ''0'')"
      using True 1 by (simp add: digit_val_def ord_def digit_char_def)
    then have "digit_char n \<noteq> CHR ''0''" by metis
    with True show ?thesis by (subst nat_text.simps) simp
  next
    case False
    then have "n div 10 \<noteq> 0" by simp
    with 1 False show ?thesis by (subst nat_text.simps) simp
  qed
qed

lemma length_pad [simp]: "length (pad w n) = w"
  by (induction w n rule: pad.induct) auto

lemma pad_digits: "list_all is_ascii_digit (pad w n)"
  by (induction w n rule: pad.induct) auto

lemma digits_val_pad: "n < 10 ^ w \<Longrightarrow> digits_val (pad w n) = n"
proof (induction w n rule: pad.induct)
  case (2 w n)
  then have "n div 10 < 10 ^ w" by (simp add: less_mult_imp_div_less mult.commute)
  with 2 show ?case by (simp add: digits_val_append)
qed simp

subsection \<open>\<open>int(str)\<close>\<close>

text \<open>
  \<open>int(s)\<close> for a string: surrounding white space, an optional sign, then ASCII digits in which
  single underscores may separate digits; anything else raises \<open>ValueError\<close>, here \<open>None\<close>.
  (CPython's limit of 4300 digits is not modelled.)
\<close>

fun digits_us :: "bool \<Rightarrow> nat \<Rightarrow> string \<Rightarrow> nat option" where
  "digits_us after_digit acc [] = (if after_digit then Some acc else None)"
| "digits_us after_digit acc (c # s) =
     (if is_ascii_digit c then digits_us True (10 * acc + digit_val c) s
      else if c = CHR ''_'' \<and> after_digit then digits_us False acc s
      else None)"

definition parse_int :: "string \<Rightarrow> int option" where
  "parse_int s = (case strip s of
       [] \<Rightarrow> None
     | c # t \<Rightarrow>
         if c = CHR ''-'' then map_option (\<lambda>n. - int n) (digits_us False 0 t)
         else if c = CHR ''+'' then map_option int (digits_us False 0 t)
         else map_option int (digits_us False 0 (c # t)))"

lemma digits_us_digits:
  "list_all is_ascii_digit s \<Longrightarrow> s \<noteq> [] \<or> b \<Longrightarrow>
     digits_us b acc s = Some (foldl (\<lambda>n c. 10 * n + digit_val c) acc s)"
  by (induction s arbitrary: acc b) auto

lemma ascii_digit_not_space: "is_ascii_digit c \<Longrightarrow> \<not> is_space c"
  by (auto simp: is_ascii_digit_def is_space_def)

lemma ascii_digit_not_sign: "is_ascii_digit c \<Longrightarrow> c \<noteq> CHR ''-'' \<and> c \<noteq> CHR ''+''"
  by (auto simp: is_ascii_digit_def ord_def)

lemma parse_int_digits:
  assumes "list_all is_ascii_digit s" and "s \<noteq> []"
  shows "parse_int s = Some (int (digits_val s))"
proof -
  have "strip s = s"
    using assms(1) by (intro strip_idem_nonspace) (auto simp: list_all_iff ascii_digit_not_space)
  with assms digits_us_digits [of s False 0] show ?thesis
    by (cases s) (auto simp: parse_int_def digits_val_def dest: ascii_digit_not_sign)
qed

lemma parse_int_nat_text: "parse_int (nat_text n) = Some (int n)"
  by (simp add: parse_int_digits nat_text_digits)

text \<open>\<open>isdigit\<close> does not imply that \<open>int\<close> accepts the text: the superscripts.\<close>

lemma isdigit_superscript: "isdigit [char_of (178 :: nat)] \<and> parse_int [char_of (178 :: nat)] = None"
  by (simp add: isdigit_def is_digit_char_def parse_int_def strip_def is_space_def
      is_ascii_digit_def ord_def)

end
