(* ===== verification/Locking.thy ===== *)
theory Locking
  imports Redis PyText
begin

section \<open>Renewable Redis leases (\<open>locking.py\<close>)\<close>

text \<open>
  \<open>RedisLease\<close> (acquire, renew, release with the owner token), the two Lua scripts and the heartbeat
  loop, each as one definition over the operations of \<open>RedisLeaseStore\<close>. Then the protocol that many
  runs of one source follow, as a step relation over the store and the phase of every run: acquire,
  heartbeat, release, crash, and time passing, with every store error included. The lemmas: what
  each operation does on every outcome, only the owner changes a lease, the runs whose lease is
  valid are at most one, a crashed owner blocks the source for at most the lease's length, and a
  heartbeat that comes in time never loses the lease.
\<close>

subsection \<open>Keys and leases\<close>

definition source_lock_key :: "string \<Rightarrow> string" where
  "source_lock_key source_id = ''crawler:lock:source:'' @ source_id"

definition page_lock_key :: "string \<Rightarrow> string \<Rightarrow> string" where
  "page_lock_key source_id page_id = source_lock_key source_id @ '':page:'' @ page_id"

record lease =
  lease_key :: string
  ttl_seconds :: int
  token :: string

text \<open>The constructor; \<open>fresh\<close> is the value of \<open>uuid4().hex\<close>, used when no token is given.\<close>

definition RedisLease :: "string \<Rightarrow> int \<Rightarrow> string option \<Rightarrow> string \<Rightarrow> lease result" where
  "RedisLease key ttl tok fresh =
     (if ttl \<le> 0 then Inl (ValueError ''ttl_seconds must be positive'')
      else Inr \<lparr>lease_key = key, ttl_seconds = ttl,
        token = (case tok of Some t \<Rightarrow> if t = [] then fresh else t | None \<Rightarrow> fresh)\<rparr>)"

definition RELEASE_SCRIPT :: "'s lease_ops \<Rightarrow> string \<Rightarrow> string \<Rightarrow> 's \<Rightarrow> int \<times> 's" where
  "RELEASE_SCRIPT ops key tok s =
     (if call_get ops key s = Some tok then call_del ops key s else (0, s))"

definition RENEW_SCRIPT :: "'s lease_ops \<Rightarrow> string \<Rightarrow> string \<Rightarrow> int \<Rightarrow> 's \<Rightarrow> int \<times> 's" where
  "RENEW_SCRIPT ops key tok ttl s =
     (if call_get ops key s = Some tok then call_expire ops key ttl s else (0, s))"

definition lease_acquire :: "'s lease_ops \<Rightarrow> lease \<Rightarrow> ('s, bool) py" where
  "lease_acquire ops l = set_nx_ex ops (lease_key l) (token l) (ttl_seconds l)"

definition lease_renew :: "'s lease_ops \<Rightarrow> lease \<Rightarrow> ('s, bool) py" where
  "lease_renew ops l = bindP (eval_script ops (RENEW_SCRIPT ops (lease_key l) (token l) (ttl_seconds l)))
     (\<lambda>n. ret (n \<noteq> 0))"

definition lease_release :: "'s lease_ops \<Rightarrow> lease \<Rightarrow> ('s, bool) py" where
  "lease_release ops l = bindP (eval_script ops (RELEASE_SCRIPT ops (lease_key l) (token l)))
     (\<lambda>n. ret (n \<noteq> 0))"

subsection \<open>The heartbeat thread\<close>

record heartbeat =
  hb_lease :: lease
  interval_seconds :: rat

definition LeaseHeartbeat :: "lease \<Rightarrow> rat \<Rightarrow> heartbeat result" where
  "LeaseHeartbeat l interval =
     (if interval \<le> 0 then Inl (ValueError ''interval_seconds must be positive'')
      else Inr \<lparr>hb_lease = l, interval_seconds = interval\<rparr>)"

text \<open>The loop of \<open>_run\<close>: each element of the list is what one \<open>_stop_event.wait(interval)\<close>
  returns. The thread is waiting again at the end of the list, or it has returned because it was
  stopped or because the renewal failed, or it died of an exception of the store.\<close>

datatype hb_status = Waiting | Stopped | LostLease | Died exn

fun hb_run :: "'s lease_ops \<Rightarrow> heartbeat \<Rightarrow> bool list \<Rightarrow> 's \<Rightarrow> hb_status \<times> 's" where
  "hb_run ops hb [] s = (Waiting, s)"
| "hb_run ops hb (True # ws) s = (Stopped, s)"
| "hb_run ops hb (False # ws) s = (case lease_renew ops (hb_lease hb) s of
       (Inl e, t) \<Rightarrow> (Died e, t)
     | (Inr False, t) \<Rightarrow> (LostLease, t)
     | (Inr True, t) \<Rightarrow> hb_run ops hb ws t)"

subsection \<open>What each operation does\<close>

context lease_store
begin

lemma release_script_fst:
  "fst (RELEASE_SCRIPT ops k tok s) = (if map_option fst (lview s k) = Some tok then 1 else 0)"
  by (auto simp: RELEASE_SCRIPT_def get_law del_law)

lemma release_script_view:
  "lview (snd (RELEASE_SCRIPT ops k tok s)) =
     (if map_option fst (lview s k) = Some tok then (lview s)(k := None) else lview s)"
  by (simp add: RELEASE_SCRIPT_def get_law del_view)

lemma script_now [simp]: "now_ms (snd (RELEASE_SCRIPT ops k tok s)) = now_ms s"
  "now_ms (snd (RENEW_SCRIPT ops k tok ttl s)) = now_ms s"
  by (simp_all add: RELEASE_SCRIPT_def RENEW_SCRIPT_def del_now expire_now)

lemma script_up: "up s \<Longrightarrow> up (snd (RELEASE_SCRIPT ops k tok s))"
  "up s \<Longrightarrow> up (snd (RENEW_SCRIPT ops k tok ttl s))"
  by (simp_all add: RELEASE_SCRIPT_def RENEW_SCRIPT_def del_up expire_up)

lemma renew_script_fst: "0 < ttl \<Longrightarrow>
    fst (RENEW_SCRIPT ops k tok ttl s) = (if map_option fst (lview s k) = Some tok then 1 else 0)"
  by (auto simp: RENEW_SCRIPT_def get_law expire_law)

lemma renew_script_view: "0 < ttl \<Longrightarrow>
    lview (snd (RENEW_SCRIPT ops k tok ttl s)) = (if map_option fst (lview s k) = Some tok
      then (lview s)(k \<mapsto> (tok, Some (now_ms s + 1000 * ttl))) else lview s)"
  by (auto simp: RENEW_SCRIPT_def get_law expire_view)

text \<open>\<open>owned s l\<close>: the lock key holds this lease's token.\<close>

definition owned :: "'s \<Rightarrow> lease \<Rightarrow> bool" where
  "owned s l \<longleftrightarrow> map_option fst (lview s (lease_key l)) = Some (token l)"

definition extended :: "'s \<Rightarrow> lease \<Rightarrow> string \<Rightarrow> string expiring" where
  "extended s l = (lview s)(lease_key l \<mapsto> (token l, Some (now_ms s + 1000 * ttl_seconds l)))"

lemma acquire_Inr: "0 < ttl_seconds l \<Longrightarrow> lease_acquire ops l s = (Inr b, t) \<Longrightarrow>
    b = (lview s (lease_key l) = None) \<and> now_ms t = now_ms s \<and>
    lview t = (if b then extended s l else lview s)"
  unfolding lease_acquire_def extended_def by (rule nx_Inr)

lemma acquire_Inl: "0 < ttl_seconds l \<Longrightarrow> lease_acquire ops l s = (Inl e, t) \<Longrightarrow>
    is_Exception e \<and> now_ms t = now_ms s \<and>
    (lview t = lview s \<or> lview s (lease_key l) = None \<and> lview t = extended s l)"
  unfolding lease_acquire_def extended_def by (rule nx_Inl)

lemma renew_Inr: "0 < ttl_seconds l \<Longrightarrow> lease_renew ops l s = (Inr b, t) \<Longrightarrow>
    b = owned s l \<and> now_ms t = now_ms s \<and> lview t = (if b then extended s l else lview s)"
  by (auto simp: lease_renew_def bindP_eq_Inr owned_def extended_def renew_script_fst renew_script_view
      dest!: eval_Inr split: if_splits)

lemma renew_Inl: "0 < ttl_seconds l \<Longrightarrow> lease_renew ops l s = (Inl e, t) \<Longrightarrow>
    is_Exception e \<and> now_ms t = now_ms s \<and> (lview t = lview s \<or> owned s l \<and> lview t = extended s l)"
  by (auto simp: lease_renew_def bindP_eq_Inl owned_def extended_def renew_script_view
      dest!: eval_Inl split: if_splits)

lemma release_Inr: "lease_release ops l s = (Inr b, t) \<Longrightarrow>
    b = owned s l \<and> now_ms t = now_ms s \<and>
    lview t = (if b then (lview s)(lease_key l := None) else lview s)"
  by (auto simp: lease_release_def bindP_eq_Inr owned_def release_script_fst release_script_view
      dest!: eval_Inr split: if_splits)

lemma release_Inl: "lease_release ops l s = (Inl e, t) \<Longrightarrow>
    is_Exception e \<and> now_ms t = now_ms s \<and>
    (lview t = lview s \<or> owned s l \<and> lview t = (lview s)(lease_key l := None))"
  by (auto simp: lease_release_def bindP_eq_Inl owned_def release_script_view
      dest!: eval_Inl split: if_splits)

lemma acquire_up: "0 < ttl_seconds l \<Longrightarrow> up s \<Longrightarrow>
    \<exists>t. lease_acquire ops l s = (Inr (lview s (lease_key l) = None), t) \<and> up t"
proof -
  assume a: "0 < ttl_seconds l" "up s"
  obtain b t where r: "lease_acquire ops l s = (Inr b, t)" and t: "up t"
    using nx_up [OF a] unfolding lease_acquire_def by blast
  with acquire_Inr [OF a(1) r] t show ?thesis by auto
qed

lemma renew_up: "0 < ttl_seconds l \<Longrightarrow> up s \<Longrightarrow>
    \<exists>t. lease_renew ops l s = (Inr (owned s l), t) \<and> up t"
proof -
  assume a: "0 < ttl_seconds l" "up s"
  obtain n t where e: "eval_script ops (RENEW_SCRIPT ops (lease_key l) (token l) (ttl_seconds l)) s = (Inr n, t)"
    and t: "up t"
    using eval_up [of s "RENEW_SCRIPT ops (lease_key l) (token l) (ttl_seconds l)"] a script_up(2) by blast
  then have r: "lease_renew ops l s = (Inr (n \<noteq> 0), t)" by (simp add: lease_renew_def)
  with renew_Inr [OF a(1) r] t show ?thesis by auto
qed

lemma release_up: "up s \<Longrightarrow> \<exists>t. lease_release ops l s = (Inr (owned s l), t) \<and> up t"
proof -
  assume a: "up s"
  obtain n t where e: "eval_script ops (RELEASE_SCRIPT ops (lease_key l) (token l)) s = (Inr n, t)" and t: "up t"
    using eval_up [of s "RELEASE_SCRIPT ops (lease_key l) (token l)"] a script_up(1) by blast
  then have r: "lease_release ops l s = (Inr (n \<noteq> 0), t)" by (simp add: lease_release_def)
  with release_Inr [OF r] t show ?thesis by auto
qed

text \<open>A lease of another token is never touched.\<close>

lemma other_owner_kept:
  assumes "0 < ttl_seconds l" and "lview s (lease_key l) = Some (w, x)" and "w \<noteq> token l"
  shows "lease_acquire ops l s = (r, t) \<Longrightarrow> lview t = lview s"
    and "lease_renew ops l s = (r, t) \<Longrightarrow> lview t = lview s"
    and "lease_release ops l s = (r, t) \<Longrightarrow> lview t = lview s"
proof -
  have n: "\<not> owned s l" using assms by (simp add: owned_def)
  show "lease_acquire ops l s = (r, t) \<Longrightarrow> lview t = lview s"
    using acquire_Inr [OF assms(1)] acquire_Inl [OF assms(1)] assms(2) by (cases r) fastforce+
  show "lease_renew ops l s = (r, t) \<Longrightarrow> lview t = lview s"
    using renew_Inr [OF assms(1)] renew_Inl [OF assms(1)] n by (cases r) fastforce+
  show "lease_release ops l s = (r, t) \<Longrightarrow> lview t = lview s"
    using release_Inr release_Inl n by (cases r) fastforce+
qed

end

subsection \<open>Many runs of a source\<close>

text \<open>
  The phase of one run. \<open>Running d alive\<close>: the lease was acquired and not yet given back; \<open>d\<close> is the
  time until which the last acquisition or renewal that the run saw succeed is good, and \<open>alive\<close> says
  that its heartbeat thread is still waiting. The operation goes on whether or not it is: the source
  does not stop an operation whose renewal failed.
\<close>

datatype phase = NotStarted | Skipped | AcquireFailed | Running int bool | Finished | Crashed

record ('s, 'r) lock_sys =
  lstore :: 's
  phases :: "'r \<Rightarrow> phase"

definition set_phase :: "'r \<Rightarrow> phase \<Rightarrow> 's \<Rightarrow> ('s, 'r) lock_sys \<Rightarrow> ('s, 'r) lock_sys" where
  "set_phase r p s c = \<lparr>lstore = s, phases = (phases c)(r := p)\<rparr>"

definition deadline :: "('s \<Rightarrow> int) \<Rightarrow> lease \<Rightarrow> 's \<Rightarrow> int" where
  "deadline clk l s = clk s + 1000 * ttl_seconds l"

text \<open>One atomic step of the runs or of the environment, for the heartbeat (and its lease) of every
  run, the store's operations and the way its clock advances.\<close>

inductive lock_step :: "'s lease_ops \<Rightarrow> ('s \<Rightarrow> int) \<Rightarrow> (int \<Rightarrow> 's \<Rightarrow> 's) \<Rightarrow> ('r \<Rightarrow> heartbeat) \<Rightarrow>
    ('s, 'r) lock_sys \<Rightarrow> ('s, 'r) lock_sys \<Rightarrow> bool"
  for ops clk elapse hbs where
  acquired: "phases c r = NotStarted \<Longrightarrow>
    lease_acquire ops (hb_lease (hbs r)) (lstore c) = (Inr True, t) \<Longrightarrow>
    lock_step ops clk elapse hbs c
      (set_phase r (Running (deadline clk (hb_lease (hbs r)) t) True) t c)"
| skipped: "phases c r = NotStarted \<Longrightarrow>
    lease_acquire ops (hb_lease (hbs r)) (lstore c) = (Inr False, t) \<Longrightarrow>
    lock_step ops clk elapse hbs c (set_phase r Skipped t c)"
| acquire_failed: "phases c r = NotStarted \<Longrightarrow>
    lease_acquire ops (hb_lease (hbs r)) (lstore c) = (Inl e, t) \<Longrightarrow>
    lock_step ops clk elapse hbs c (set_phase r AcquireFailed t c)"
| beat: "phases c r = Running d True \<Longrightarrow> hb_run ops (hbs r) [False] (lstore c) = (st, t) \<Longrightarrow>
    lock_step ops clk elapse hbs c (set_phase r (if st = Waiting
      then Running (deadline clk (hb_lease (hbs r)) t) True else Running d False) t c)"
| released: "phases c r = Running d alive \<Longrightarrow>
    lease_release ops (hb_lease (hbs r)) (lstore c) = (x, t) \<Longrightarrow>
    lock_step ops clk elapse hbs c (set_phase r Finished t c)"
| crashed: "phases c r = Running d alive \<Longrightarrow>
    lock_step ops clk elapse hbs c (set_phase r Crashed (lstore c) c)"
| time_passes: "0 \<le> d \<Longrightarrow> lock_step ops clk elapse hbs c (c\<lparr>lstore := elapse d (lstore c)\<rparr>)"

inductive lock_reachable :: "'s lease_ops \<Rightarrow> ('s \<Rightarrow> int) \<Rightarrow> (int \<Rightarrow> 's \<Rightarrow> 's) \<Rightarrow> ('r \<Rightarrow> heartbeat) \<Rightarrow>
    's \<Rightarrow> ('s, 'r) lock_sys \<Rightarrow> bool"
  for ops clk elapse hbs s0 where
  reach_init: "lock_reachable ops clk elapse hbs s0 \<lparr>lstore = s0, phases = \<lambda>_. NotStarted\<rparr>"
| reach_step: "lock_reachable ops clk elapse hbs s0 c \<Longrightarrow> lock_step ops clk elapse hbs c c' \<Longrightarrow>
    lock_reachable ops clk elapse hbs s0 c'"

text \<open>A run holds a valid lease when the end it last saw confirmed has not passed.\<close>

definition holds_valid :: "('s \<Rightarrow> int) \<Rightarrow> ('s, 'r) lock_sys \<Rightarrow> 'r \<Rightarrow> bool" where
  "holds_valid clk c r \<longleftrightarrow> (\<exists>d alive. phases c r = Running d alive \<and> clk (lstore c) < d)"

text \<open>Every run has a positive lease length (the constructor's guard) and a token of its own (\<open>uuid4\<close>).\<close>

definition fresh_tokens :: "('r \<Rightarrow> heartbeat) \<Rightarrow> bool" where
  "fresh_tokens hbs \<longleftrightarrow> inj (\<lambda>r. token (hb_lease (hbs r))) \<and> (\<forall>r. 0 < ttl_seconds (hb_lease (hbs r)))"

lemma set_phase_simps [simp]: "lstore (set_phase r p s c) = s"
  "phases (set_phase r p s c) = (phases c)(r := p)"
  by (simp_all add: set_phase_def)

text \<open>What the invariant says of one run.\<close>

definition run_ok :: "(string \<Rightarrow> string expiring) \<Rightarrow> int \<Rightarrow> lease \<Rightarrow> phase \<Rightarrow> bool" where
  "run_ok v n l p \<longleftrightarrow> (\<forall>d alive. p = Running d alive \<longrightarrow> d \<le> n + 1000 * ttl_seconds l \<and>
     (n < d \<longrightarrow> (\<exists>e. v (lease_key l) = Some (token l, Some e) \<and> d \<le> e)))"

lemma run_ok_idle [simp]: "\<not> (\<exists>d alive. p = Running d alive) \<Longrightarrow> run_ok v n l p"
  by (simp add: run_ok_def)

lemma run_ok_fresh: "0 < ttl_seconds l \<Longrightarrow>
    v (lease_key l) = Some (token l, Some (n + 1000 * ttl_seconds l)) \<Longrightarrow>
    run_ok v n l (Running (n + 1000 * ttl_seconds l) alive)"
  by (simp add: run_ok_def)

lemma run_ok_alive: "run_ok v n l (Running d a) \<Longrightarrow> run_ok v n l (Running d b)"
  by (simp add: run_ok_def)

lemma run_ok_wait: "0 \<le> k \<Longrightarrow> run_ok v n l p \<Longrightarrow> (\<And>j. v' j = live_at (n + k) (v j)) \<Longrightarrow>
    run_ok v' (n + k) l p"
  by (fastforce simp: run_ok_def)

context lease_store
begin

definition lock_inv :: "('r \<Rightarrow> heartbeat) \<Rightarrow> ('s, 'r) lock_sys \<Rightarrow> bool" where
  "lock_inv hbs c \<longleftrightarrow>
     (\<forall>r. run_ok (lview (lstore c)) (now_ms (lstore c)) (hb_lease (hbs r)) (phases c r))"

text \<open>Writing this lease's key keeps the other runs' leases: their token would be the live value.\<close>

lemma run_ok_extended:
  assumes ok: "run_ok (lview s) (now_ms s) l p"
    and own: "owned s l' \<or> lview s (lease_key l') = None"
    and same: "token l = token l' \<Longrightarrow> l = l'" and pos: "0 < ttl_seconds l"
  shows "run_ok (extended s l') (now_ms s) l p"
  unfolding run_ok_def
proof (intro allI impI conjI)
  fix d alive assume p: "p = Running d alive"
  then show d: "d \<le> now_ms s + 1000 * ttl_seconds l" using ok by (simp add: run_ok_def)
  assume n: "now_ms s < d"
  from ok p n obtain e where e: "lview s (lease_key l) = Some (token l, Some e)" "d \<le> e"
    by (auto simp: run_ok_def)
  show "\<exists>e. extended s l' (lease_key l) = Some (token l, Some e) \<and> d \<le> e"
  proof (cases "lease_key l = lease_key l'")
    case True
    with own e have "token l = token l'" by (auto simp: owned_def)
    then have "l = l'" by (rule same)
    then show ?thesis using d by (simp add: extended_def)
  next
    case False
    then show ?thesis using e by (simp add: extended_def)
  qed
qed

lemma run_ok_deleted:
  assumes "run_ok (lview s) n l p" and "owned s l'" and "token l \<noteq> token l'"
  shows "run_ok ((lview s)(lease_key l' := None)) n l p"
  using assms by (fastforce simp: run_ok_def owned_def)

lemma lock_inv_set_phase:
  assumes "\<And>q. q \<noteq> r \<Longrightarrow> run_ok (lview t) (now_ms t) (hb_lease (hbs q)) (phases c q)"
    and "run_ok (lview t) (now_ms t) (hb_lease (hbs r)) p"
  shows "lock_inv hbs (set_phase r p t c)"
  using assms by (simp add: lock_inv_def)

text \<open>The three ways a step of run \<open>q\<close> can leave the view keep every other run's part.\<close>

lemma others_ok:
  assumes fresh: "fresh_tokens hbs" and inv: "lock_inv hbs c"
    and n: "now_ms t = now_ms (lstore c)"
    and v: "lview t = lview (lstore c) \<or>
      (owned (lstore c) (hb_lease (hbs q)) \<or> lview (lstore c) (lease_key (hb_lease (hbs q))) = None) \<and>
        lview t = extended (lstore c) (hb_lease (hbs q)) \<or>
      owned (lstore c) (hb_lease (hbs q)) \<and>
        lview t = (lview (lstore c))(lease_key (hb_lease (hbs q)) := None) \<and> r \<noteq> q"
  shows "run_ok (lview t) (now_ms t) (hb_lease (hbs r)) (phases c r)"
proof -
  have pos: "0 < ttl_seconds (hb_lease (hbs r))" using fresh by (simp add: fresh_tokens_def)
  have inj: "token (hb_lease (hbs r)) = token (hb_lease (hbs q)) \<Longrightarrow> r = q"
    using fresh by (auto simp: fresh_tokens_def dest: injD)
  have ok: "run_ok (lview (lstore c)) (now_ms (lstore c)) (hb_lease (hbs r)) (phases c r)"
    using inv by (simp add: lock_inv_def)
  show ?thesis
    using v
  proof (elim disjE conjE)
    assume "lview t = lview (lstore c)"
    then show ?thesis using ok n by simp
  next
    assume d: "owned (lstore c) (hb_lease (hbs q))" and r: "r \<noteq> q"
      and t: "lview t = (lview (lstore c))(lease_key (hb_lease (hbs q)) := None)"
    from run_ok_deleted [OF ok d] inj r show ?thesis by (auto simp: t n)
  next
    assume t: "lview t = extended (lstore c) (hb_lease (hbs q))"
      and d: "owned (lstore c) (hb_lease (hbs q))"
    have "run_ok (extended (lstore c) (hb_lease (hbs q))) (now_ms (lstore c)) (hb_lease (hbs r)) (phases c r)"
      using d inj by (intro run_ok_extended ok pos) auto
    then show ?thesis by (simp add: t n)
  next
    assume t: "lview t = extended (lstore c) (hb_lease (hbs q))"
      and d: "lview (lstore c) (lease_key (hb_lease (hbs q))) = None"
    have "run_ok (extended (lstore c) (hb_lease (hbs q))) (now_ms (lstore c)) (hb_lease (hbs r)) (phases c r)"
      using d inj by (intro run_ok_extended ok pos) auto
    then show ?thesis by (simp add: t n)
  qed
qed

lemma beat_result:
  assumes "0 < ttl_seconds (hb_lease hb)" and "hb_run ops hb [False] s = (st, t)"
  shows "now_ms t = now_ms s" and "st = Waiting \<Longrightarrow> owned s (hb_lease hb) \<and> lview t = extended s (hb_lease hb)"
    and "lview t = lview s \<or> owned s (hb_lease hb) \<and> lview t = extended s (hb_lease hb)"
proof -
  obtain x u where r: "lease_renew ops (hb_lease hb) s = (x, u)"
    by (cases "lease_renew ops (hb_lease hb) s")
  show "now_ms t = now_ms s" "st = Waiting \<Longrightarrow> owned s (hb_lease hb) \<and> lview t = extended s (hb_lease hb)"
    "lview t = lview s \<or> owned s (hb_lease hb) \<and> lview t = extended s (hb_lease hb)"
    using assms(2) r renew_Inr [OF assms(1), of s _ u] renew_Inl [OF assms(1), of s _ u]
    by (auto split: sum.splits bool.splits)
qed

lemma lock_inv_step:
  assumes fresh: "fresh_tokens hbs" and step: "lock_step ops now_ms wait_ms hbs c c'"
    and inv: "lock_inv hbs c"
  shows "lock_inv hbs c'"
proof -
  have pos: "0 < ttl_seconds (hb_lease (hbs r))" for r using fresh by (simp add: fresh_tokens_def)
  note others = others_ok [OF fresh inv]
  show ?thesis
    using step
  proof cases
    case (acquired r t)
    note a = acquire_Inr [OF pos acquired(3), simplified]
    then show ?thesis unfolding acquired(1) deadline_def
      by (intro lock_inv_set_phase others run_ok_fresh pos) (auto simp: extended_def)
  next
    case (skipped r t)
    note a = acquire_Inr [OF pos skipped(3), simplified]
    then show ?thesis unfolding skipped(1) by (intro lock_inv_set_phase others [of _ r]) auto
  next
    case (acquire_failed r e t)
    note a = acquire_Inl [OF pos acquire_failed(3)]
    then show ?thesis unfolding acquire_failed(1) by (intro lock_inv_set_phase others [of _ r]) auto
  next
    case (beat r d st t)
    note b = beat_result [OF pos beat(3)]
    have o: "run_ok (lview t) (now_ms t) (hb_lease (hbs q)) (phases c q)" for q
      using b by (intro others [of _ r]) auto
    have "st \<noteq> Waiting \<Longrightarrow> run_ok (lview t) (now_ms t) (hb_lease (hbs r)) (Running d False)"
      using o [of r] beat(2) run_ok_alive by metis
    moreover have "st = Waiting \<Longrightarrow> run_ok (lview t) (now_ms t) (hb_lease (hbs r))
        (Running (deadline now_ms (hb_lease (hbs r)) t) True)"
      using b(1,2) unfolding deadline_def by (intro run_ok_fresh pos) (auto simp: extended_def)
    ultimately show ?thesis unfolding beat(1) using o by (intro lock_inv_set_phase) auto
  next
    case (released r d alive x t)
    have "now_ms t = now_ms (lstore c)" "lview t = lview (lstore c) \<or> owned (lstore c) (hb_lease (hbs r)) \<and>
        lview t = (lview (lstore c))(lease_key (hb_lease (hbs r)) := None)"
      using released(3) release_Inr [of "hb_lease (hbs r)" "lstore c" _ t]
        release_Inl [of "hb_lease (hbs r)" "lstore c" _ t] by (cases x; auto)+
    then show ?thesis unfolding released(1) by (intro lock_inv_set_phase others [of _ r]) auto
  next
    case (crashed r d alive)
    then show ?thesis using inv by (auto simp: lock_inv_def)
  next
    case (time_passes d)
    then show ?thesis
      using inv run_ok_wait [OF time_passes(2), of "lview (lstore c)" "now_ms (lstore c)"]
      by (auto simp: lock_inv_def lwait_now wait_lview)
  qed
qed

lemma lock_inv_reachable:
  assumes "fresh_tokens hbs" and "lock_reachable ops now_ms wait_ms hbs s0 c"
  shows "lock_inv hbs c"
  using assms(2)
proof induction
  case reach_init
  then show ?case by (simp add: lock_inv_def)
next
  case (reach_step c c')
  then show ?case using lock_inv_step [OF assms(1)] by blast
qed

lemma lock_inv_unique:
  assumes "fresh_tokens hbs" and "lock_inv hbs c"
    and "holds_valid now_ms c r" and "holds_valid now_ms c q"
    and "lease_key (hb_lease (hbs r)) = lease_key (hb_lease (hbs q))"
  shows "r = q"
proof -
  have ok: "run_ok (lview (lstore c)) (now_ms (lstore c)) (hb_lease (hbs i)) (phases c i)" for i
    using assms(2) by (simp add: lock_inv_def)
  have "token (hb_lease (hbs r)) = token (hb_lease (hbs q))"
    using ok [of r] ok [of q] assms(3-5) by (auto simp: run_ok_def holds_valid_def)
  then show ?thesis using assms(1) by (auto simp: fresh_tokens_def dest: injD)
qed

lemma valid_unique:
  assumes "fresh_tokens hbs" and "lock_reachable ops now_ms wait_ms hbs s0 c"
    and "holds_valid now_ms c r" and "holds_valid now_ms c q"
    and "lease_key (hb_lease (hbs r)) = lease_key (hb_lease (hbs q))"
  shows "r = q"
  by (rule lock_inv_unique [OF assms(1) lock_inv_reachable [OF assms(1,2)] assms(3-5)])

text \<open>Every lease in the store ends, at most the longest lease length from now.\<close>

definition leases_end :: "int \<Rightarrow> 's \<Rightarrow> bool" where
  "leases_end ttl s \<longleftrightarrow>
     (\<forall>k v x. lview s k = Some (v, x) \<longrightarrow> (\<exists>e. x = Some e \<and> e \<le> now_ms s + 1000 * ttl))"

lemma leases_end_frame: "leases_end ttl s \<Longrightarrow> now_ms t = now_ms s \<Longrightarrow>
    lview t = lview s \<or> ttl_seconds l \<le> ttl \<and> lview t = extended s l \<or> lview t = (lview s)(k := None) \<Longrightarrow>
    leases_end ttl t"
  by (auto simp: leases_end_def extended_def split: if_splits)

lemma leases_end_wait: "0 \<le> d \<Longrightarrow> leases_end ttl s \<Longrightarrow> leases_end ttl (wait_ms d s)"
  unfolding leases_end_def by (fastforce simp: lwait_now wait_lview live_at_def split: option.splits if_splits)

lemma leases_end_step:
  assumes pos: "\<And>r. 0 < ttl_seconds (hb_lease (hbs r))" and le: "\<And>r. ttl_seconds (hb_lease (hbs r)) \<le> ttl"
    and step: "lock_step ops now_ms wait_ms hbs c c'" and inv: "leases_end ttl (lstore c)"
  shows "leases_end ttl (lstore c')"
  using step
proof cases
  case (acquired r t)
  show ?thesis unfolding acquired(1)
    using leases_end_frame [OF inv] acquire_Inr [OF pos acquired(3)] le [of r] by auto
next
  case (skipped r t)
  show ?thesis unfolding skipped(1)
    using leases_end_frame [OF inv] acquire_Inr [OF pos skipped(3)] by auto
next
  case (acquire_failed r e t)
  show ?thesis unfolding acquire_failed(1)
    using leases_end_frame [OF inv] acquire_Inl [OF pos acquire_failed(3)] le [of r] by auto
next
  case (beat r d st t)
  show ?thesis unfolding beat(1)
    using leases_end_frame [OF inv] beat_result [OF pos beat(3)] le [of r] by auto
next
  case (released r d alive x t)
  have "now_ms t = now_ms (lstore c) \<and>
      (lview t = lview (lstore c) \<or> lview t = (lview (lstore c))(lease_key (hb_lease (hbs r)) := None))"
    using released(3) release_Inr [of "hb_lease (hbs r)" "lstore c" _ t]
      release_Inl [of "hb_lease (hbs r)" "lstore c" _ t] by (cases x) auto
  then show ?thesis unfolding released(1) using leases_end_frame [OF inv] by auto
next
  case (crashed r d alive)
  then show ?thesis using inv by simp
next
  case (time_passes d)
  then show ?thesis using inv leases_end_wait by simp
qed

lemma leases_end_reachable:
  assumes "\<And>r. 0 < ttl_seconds (hb_lease (hbs r))" and "\<And>r. ttl_seconds (hb_lease (hbs r)) \<le> ttl"
    and "leases_end ttl s0" and "lock_reachable ops now_ms wait_ms hbs s0 c"
  shows "leases_end ttl (lstore c)"
  using assms(4)
proof induction
  case reach_init
  then show ?case using assms(3) by simp
next
  case (reach_step c c')
  then show ?case using leases_end_step [of hbs ttl c c'] assms(1,2) by blast
qed

lemma free_after_ttl:
  assumes "0 \<le> ttl" and "leases_end ttl s"
  shows "lview (wait_ms (1000 * ttl) s) k = None"
  using assms by (fastforce simp: leases_end_def wait_lview live_at_def split: option.splits prod.splits)

end

text \<open>One beat after each of the given pauses (in milliseconds), as long as the thread lives.\<close>

fun hb_schedule :: "'s lease_ops \<Rightarrow> (int \<Rightarrow> 's \<Rightarrow> 's) \<Rightarrow> heartbeat \<Rightarrow> int list \<Rightarrow> 's \<Rightarrow> hb_status \<times> 's" where
  "hb_schedule ops elapse hb [] s = (Waiting, s)"
| "hb_schedule ops elapse hb (d # ds) s = (case hb_run ops hb [False] (elapse d s) of
       (Waiting, t) \<Rightarrow> hb_schedule ops elapse hb ds t
     | x \<Rightarrow> x)"

context lease_store
begin

lemma schedule_keeps:
  assumes pos: "0 < ttl_seconds (hb_lease hb)"
  shows "up s \<Longrightarrow> \<forall>d \<in> set ds. 0 \<le> d \<and> d < 1000 * ttl_seconds (hb_lease hb) \<Longrightarrow>
    lview s (lease_key (hb_lease hb)) =
      Some (token (hb_lease hb), Some (now_ms s + 1000 * ttl_seconds (hb_lease hb))) \<Longrightarrow>
    \<exists>t. hb_schedule ops wait_ms hb ds s = (Waiting, t) \<and> now_ms t = now_ms s + sum_list ds \<and>
      lview t (lease_key (hb_lease hb)) =
        Some (token (hb_lease hb), Some (now_ms t + 1000 * ttl_seconds (hb_lease hb)))"
proof (induction ds arbitrary: s)
  case Nil
  then show ?case by simp
next
  case (Cons d ds)
  let ?l = "hb_lease hb" and ?w = "wait_ms d s"
  have o: "owned ?w ?l" using Cons.prems by (simp add: owned_def wait_lview)
  obtain t where r: "lease_renew ops ?l ?w = (Inr True, t)" and t: "up t"
    using renew_up [OF pos, of ?w] lwait_up [OF Cons.prems(1)] o by auto
  note e = renew_Inr [OF pos r]
  have n: "now_ms t = now_ms s + d" using e Cons.prems by (simp add: lwait_now)
  have "lview t (lease_key ?l) = Some (token ?l, Some (now_ms t + 1000 * ttl_seconds ?l))"
    using e by (simp add: extended_def)
  from Cons.IH [OF t _ this] Cons.prems(2) obtain t' where
    "hb_schedule ops wait_ms hb ds t = (Waiting, t')" "now_ms t' = now_ms t + sum_list ds"
    "lview t' (lease_key ?l) = Some (token ?l, Some (now_ms t' + 1000 * ttl_seconds ?l))"
    by auto
  then show ?case using r n by simp
qed

end

subsection \<open>The properties\<close>

text \<open>Runs for the witnesses: run \<open>n\<close> has the token made of \<open>n\<close> letters.\<close>

definition demo_runs :: "nat \<Rightarrow> heartbeat" where
  "demo_runs n = \<lparr>hb_lease = \<lparr>lease_key = source_lock_key ''a'', ttl_seconds = 90,
     token = CHR ''t'' # replicate n (CHR ''x'')\<rparr>, interval_seconds = 30\<rparr>"

lemma demo_runs_fresh: "fresh_tokens demo_runs"
  by (auto simp: fresh_tokens_def demo_runs_def inj_def)

definition demo_start :: "fault list \<Rightarrow> (redis, nat) lock_sys" where
  "demo_start fs = \<lparr>lstore = redis0\<lparr>faults := fs\<rparr>, phases = \<lambda>_. NotStarted\<rparr>"

lemmas demo_defs = demo_runs_def demo_start_def redis0_def redis_defs command_def lease_acquire_def
  lease_renew_def lease_release_def deadline_def expiry_def set_phase_def RENEW_SCRIPT_def RELEASE_SCRIPT_def

abbreviation demo_reach :: "fault list \<Rightarrow> (redis, nat) lock_sys \<Rightarrow> bool" where
  "demo_reach fs \<equiv> lock_reachable redis_lease clock redis_wait demo_runs (redis0\<lparr>faults := fs\<rparr>)"

text \<open>Run 0 holds the lease; its first renewal is refused; 90 seconds later run 1 gets the lease.\<close>

definition demo_store1 :: redis where
  "demo_store1 = snd (lease_acquire redis_lease (hb_lease (demo_runs 0)) (redis0\<lparr>faults := [Served, Refused]\<rparr>))"

definition demo_store2 :: redis where
  "demo_store2 = redis_wait 90000 (snd (hb_run redis_lease (demo_runs 0) [False] demo_store1))"

definition demo_store3 :: redis where
  "demo_store3 = snd (lease_acquire redis_lease (hb_lease (demo_runs 1)) demo_store2)"

lemma demo_run0: "lease_acquire redis_lease (hb_lease (demo_runs 0)) (redis0\<lparr>faults := [Served, Refused]\<rparr>) =
    (Inr True, demo_store1)" "clock demo_store1 = 0"
  by (simp_all add: demo_store1_def demo_defs)

lemma demo_beat: "hb_run redis_lease (demo_runs 0) [False] demo_store1 =
    (Died redis_error, snd (hb_run redis_lease (demo_runs 0) [False] demo_store1))"
  by (simp add: demo_store1_def demo_defs bindP_def)

lemma demo_run1: "lease_acquire redis_lease (hb_lease (demo_runs 1)) demo_store2 = (Inr True, demo_store3)"
  "clock demo_store3 = 90000"
  by (simp_all add: demo_store3_def demo_store2_def demo_store1_def demo_defs bindP_def)

text \<open>
  C1: at most one run of a source holds a valid lease at any moment, in every state that any number of
  runs can reach by acquiring, renewing, releasing, crashing and waiting in any order, whatever store
  calls fail (with or without having been applied).
\<close>

theorem lock_mutual_exclusion:
  assumes "lease_store ops view now_ms wait_ms up" and "fresh_tokens hbs"
    and "lock_reachable ops now_ms wait_ms hbs s0 c"
    and "holds_valid now_ms c r" and "holds_valid now_ms c q"
    and "lease_key (hb_lease (hbs r)) = lease_key (hb_lease (hbs q))"
  shows "r = q"
  using lease_store.valid_unique [OF assms] .

lemma demo_reach1: "demo_reach [Served, Refused]
    (set_phase 0 (Running 90000 True) demo_store1 (demo_start [Served, Refused]))"
proof -
  have "lock_step redis_lease clock redis_wait demo_runs (demo_start [Served, Refused])
      (set_phase 0 (Running (deadline clock (hb_lease (demo_runs 0)) demo_store1) True) demo_store1
        (demo_start [Served, Refused]))"
    by (rule lock_step.acquired) (simp_all add: demo_start_def demo_run0)
  moreover have "deadline clock (hb_lease (demo_runs 0)) demo_store1 = 90000"
    by (simp add: deadline_def demo_run0 demo_runs_def)
  ultimately show ?thesis
    using lock_reachable.reach_step [OF lock_reachable.reach_init] by (simp add: demo_start_def)
qed

theorem lock_mutual_exclusion_witness:
  "holds_valid clock (set_phase 0 (Running 90000 True) demo_store1 (demo_start [Served, Refused])) (0 :: nat) \<and>
   \<not> holds_valid clock (set_phase 0 (Running 90000 True) demo_store1 (demo_start [Served, Refused])) 1"
proof -
  let ?c = "set_phase 0 (Running 90000 True) demo_store1 (demo_start [Served, Refused])"
  have v: "holds_valid clock ?c 0" by (auto simp: holds_valid_def demo_run0)
  have "holds_valid clock ?c 1 \<Longrightarrow> (0 :: nat) = 1"
    by (rule lock_mutual_exclusion [OF redis_lease.lease_store_axioms demo_runs_fresh demo_reach1 v])
      (simp_all add: demo_runs_def)
  with v show ?thesis by auto
qed

text \<open>
  C10: a lease is renewed and deleted by its owner only. While the lock key holds another token, acquire,
  renew and release leave every key of the store as it is, on every outcome of the store.
\<close>

theorem lease_owner_only:
  assumes "lease_store ops view now_ms wait_ms up" and "0 < ttl_seconds l"
    and "view s (lease_key l) = Some (w, x)" and "w \<noteq> token l"
    and "lease_acquire ops l s = (r, t) \<or> lease_renew ops l s = (r, t) \<or> lease_release ops l s = (r, t)"
  shows "view t = view s"
  using lease_store.other_owner_kept [OF assms(1-4)] assms(5) by blast

theorem lease_owner_only_witness:
  "live_str (snd (lease_release redis_lease (hb_lease (demo_runs 1)) demo_store1)) = live_str demo_store1 \<and>
   live_str demo_store1 (source_lock_key ''a'') = Some (''t'', Some 90000)"
proof -
  have h: "live_str demo_store1 (source_lock_key ''a'') = Some (''t'', Some 90000)"
    by (simp add: demo_store1_def demo_defs)
  obtain r t where e: "lease_release redis_lease (hb_lease (demo_runs 1)) demo_store1 = (r, t)"
    by (cases "lease_release redis_lease (hb_lease (demo_runs 1)) demo_store1")
  have "live_str t = live_str demo_store1"
    by (rule lease_owner_only [OF redis_lease.lease_store_axioms _ _ _ disjI2 [OF disjI2 [OF e]],
          where w = "''t''" and x = "Some 90000"])
      (simp_all add: h demo_runs_def)
  with h e show ?thesis by simp
qed

text \<open>
  a crashed run blocks its source for at most one lease length. Start from a store without locks
  and let runs do anything (crash while holding the lease, lose replies, hang): once no lease has
  been touched for the length \<open>ttl\<close> of the leases, the next acquisition of any lease succeeds.
\<close>

theorem lock_freed_after_ttl:
  assumes "lease_store ops view now_ms wait_ms up"
    and "\<And>r. 0 < ttl_seconds (hb_lease (hbs r))" and "\<And>r. ttl_seconds (hb_lease (hbs r)) \<le> ttl"
    and "view s0 = (\<lambda>_. None)" and "lock_reachable ops now_ms wait_ms hbs s0 c"
    and "up (lstore c)" and "0 < ttl_seconds l" and "0 \<le> ttl"
  shows "\<exists>t. lease_acquire ops l (wait_ms (1000 * ttl) (lstore c)) = (Inr True, t)"
proof -
  have "lease_store.leases_end view now_ms ttl s0"
    by (simp add: lease_store.leases_end_def [OF assms(1)] assms(4))
  then have "lease_store.leases_end view now_ms ttl (lstore c)"
    using lease_store.leases_end_reachable [OF assms(1-3) _ assms(5)] by blast
  then have "view (wait_ms (1000 * ttl) (lstore c)) (lease_key l) = None"
    using lease_store.free_after_ttl [OF assms(1,8)] by blast
  then show ?thesis
    using lease_store.acquire_up [OF assms(1,7) lease_store.lwait_up [OF assms(1,6)]] by metis
qed

lemma demo_reach_crash: "demo_reach [] (set_phase 0 Crashed (snd (lease_acquire redis_lease (hb_lease (demo_runs 0)) redis0))
    (set_phase 0 (Running 90000 True) (snd (lease_acquire redis_lease (hb_lease (demo_runs 0)) redis0)) (demo_start [])))"
proof -
  let ?s = "snd (lease_acquire redis_lease (hb_lease (demo_runs 0)) redis0)"
  have r: "redis0\<lparr>faults := []\<rparr> = redis0" by (simp add: redis0_def)
  have a: "lease_acquire redis_lease (hb_lease (demo_runs 0)) redis0 = (Inr True, ?s)"
    "deadline clock (hb_lease (demo_runs 0)) ?s = 90000"
    by (simp_all add: demo_defs)
  have "lock_step redis_lease clock redis_wait demo_runs (demo_start [])
      (set_phase 0 (Running (deadline clock (hb_lease (demo_runs 0)) ?s) True) ?s (demo_start []))"
    by (rule lock_step.acquired) (simp_all add: demo_start_def r a(1) [symmetric])
  then have "demo_reach [] (set_phase 0 (Running 90000 True) ?s (demo_start []))"
    using lock_reachable.reach_step [OF lock_reachable.reach_init] a(2) by (simp add: demo_start_def)
  moreover have "lock_step redis_lease clock redis_wait demo_runs
      (set_phase 0 (Running 90000 True) ?s (demo_start []))
      (set_phase 0 Crashed (lstore (set_phase 0 (Running 90000 True) ?s (demo_start [])))
        (set_phase 0 (Running 90000 True) ?s (demo_start [])))"
    by (rule lock_step.crashed) simp
  ultimately show ?thesis using lock_reachable.reach_step by fastforce
qed

theorem lock_freed_after_ttl_witness:
  "\<exists>t. lease_acquire redis_lease (hb_lease (demo_runs 1))
      (redis_wait 90000 (snd (lease_acquire redis_lease (hb_lease (demo_runs 0)) redis0))) = (Inr True, t)"
proof -
  let ?s = "snd (lease_acquire redis_lease (hb_lease (demo_runs 0)) redis0)"
  have u: "redis_up ?s" by (simp add: demo_defs)
  have v: "live_str (redis0\<lparr>faults := []\<rparr>) = (\<lambda>_. None)" by (simp add: redis0_def live_str_def fun_eq_iff)
  show ?thesis
    using lock_freed_after_ttl [OF redis_lease.lease_store_axioms _ _ v demo_reach_crash, of 90 "hb_lease (demo_runs 1)"] u
    by (simp add: demo_runs_def)
qed

text \<open>
  C11: a heartbeat that comes in time keeps the lease for as long as the operation runs: if the store
  answers and every pause between renewals is shorter than the lease, the thread is still waiting
  after any number of beats and the lock key still holds the token, for a full lease length.
\<close>

theorem heartbeat_keeps_lease:
  assumes "lease_store ops view now_ms wait_ms up" and "0 < ttl_seconds (hb_lease hb)" and "up s"
    and "lease_acquire ops (hb_lease hb) s = (Inr True, s1)" and "up s1"
    and "\<forall>d \<in> set ds. 0 \<le> d \<and> d < 1000 * ttl_seconds (hb_lease hb)"
  shows "\<exists>t. hb_schedule ops wait_ms hb ds s1 = (Waiting, t) \<and> now_ms t = now_ms s1 + sum_list ds \<and>
    view t (lease_key (hb_lease hb)) =
      Some (token (hb_lease hb), Some (now_ms t + 1000 * ttl_seconds (hb_lease hb)))"
proof -
  have "view s1 (lease_key (hb_lease hb)) =
      Some (token (hb_lease hb), Some (now_ms s1 + 1000 * ttl_seconds (hb_lease hb)))"
    using lease_store.acquire_Inr [OF assms(1,2,4)]
    by (auto simp: lease_store.extended_def [OF assms(1)])
  then show ?thesis by (rule lease_store.schedule_keeps [OF assms(1,2,5,6)])
qed

theorem heartbeat_keeps_lease_witness:
  "\<exists>t. hb_schedule redis_lease redis_wait (demo_runs 0) [30000, 45000, 89999]
      (snd (lease_acquire redis_lease (hb_lease (demo_runs 0)) redis0)) = (Waiting, t) \<and> clock t = 164999"
proof -
  let ?s = "snd (lease_acquire redis_lease (hb_lease (demo_runs 0)) redis0)"
  have a: "lease_acquire redis_lease (hb_lease (demo_runs 0)) redis0 = (Inr True, ?s)" "redis_up ?s"
    "redis_up redis0" "clock ?s = 0"
    by (simp_all add: demo_defs)
  show ?thesis
    using heartbeat_keeps_lease [OF redis_lease.lease_store_axioms _ a(3,1,2), of "[30000, 45000, 89999]"] a(4)
    by (auto simp: demo_runs_def)
qed

text \<open>
  losing the lease does not stop the operation. There is a run of the protocol in which run 0 is
  still in its operation after its renewal failed (its heartbeat thread is dead) and its lease has
  expired, and run 1 has acquired the same lock and is in its operation too.
\<close>

theorem operation_outlives_lease:
  "\<exists>c. demo_reach [Served, Refused] c \<and> phases c 0 = Running 90000 False \<and> phases c 1 = Running 180000 True \<and>
     lease_key (hb_lease (demo_runs 0)) = lease_key (hb_lease (demo_runs 1)) \<and> \<not> holds_valid clock c 0"
proof -
  let ?c1 = "set_phase 0 (Running 90000 True) demo_store1 (demo_start [Served, Refused])"
  let ?t = "snd (hb_run redis_lease (demo_runs 0) [False] demo_store1)"
  let ?c2 = "set_phase 0 (Running 90000 False) ?t ?c1"
  let ?c3 = "?c2\<lparr>lstore := redis_wait 90000 (lstore ?c2)\<rparr>"
  let ?c4 = "set_phase 1 (Running (deadline clock (hb_lease (demo_runs 1)) demo_store3) True) demo_store3 ?c3"
  have "lock_step redis_lease clock redis_wait demo_runs ?c1 ?c2"
    using lock_step.beat [of ?c1 0 90000 redis_lease demo_runs "Died redis_error" ?t] demo_beat by simp
  then have 2: "demo_reach [Served, Refused] ?c2" using lock_reachable.reach_step [OF demo_reach1] by blast
  have "lock_step redis_lease clock redis_wait demo_runs ?c2 ?c3" by (rule lock_step.time_passes) simp
  then have 3: "demo_reach [Served, Refused] ?c3" using lock_reachable.reach_step [OF 2] by blast
  have "lock_step redis_lease clock redis_wait demo_runs ?c3 ?c4"
    by (rule lock_step.acquired) (simp_all add: demo_start_def demo_run1(1) demo_store2_def [symmetric] del: hb_run.simps One_nat_def)
  then have 4: "demo_reach [Served, Refused] ?c4" using lock_reachable.reach_step [OF 3] by blast
  have "deadline clock (hb_lease (demo_runs 1)) demo_store3 = 180000"
    by (simp add: deadline_def demo_run1 demo_runs_def)
  with 4 show ?thesis
    by (intro exI [of _ ?c4]) (simp add: holds_valid_def demo_runs_def demo_run1(2))
qed

text \<open>
  lock keys do not clash as long as identifiers have no colon: a source lock is never a page lock,
  and two page locks (or two source locks) are equal only for equal identifiers.
\<close>

theorem lock_keys_distinct:
  assumes "CHR '':'' \<notin> set a" and "CHR '':'' \<notin> set b"
  shows "(source_lock_key a = source_lock_key b \<longleftrightarrow> a = b) \<and>
    (page_lock_key a p = page_lock_key b q \<longleftrightarrow> a = b \<and> p = q) \<and> source_lock_key a \<noteq> page_lock_key b p"
proof -
  have sp: "a @ CHR '':'' # x = b @ CHR '':'' # y \<longleftrightarrow> a = b \<and> x = y" for x y
    using split1_append [OF assms(1)] split1_append [OF assms(2)] by (metis option.inject prod.inject)
  have n: "a \<noteq> b @ CHR '':'' # x" for x using assms(1) by auto
  then show ?thesis by (simp add: source_lock_key_def page_lock_key_def sp)
qed

theorem lock_keys_distinct_witness: "source_lock_key ''a'' \<noteq> page_lock_key ''b'' ''1''"
  using lock_keys_distinct [of "''a''" "''b''" "''1''"] by simp

end
