(* ===== verification/JsonRound.thy ===== *)
theory JsonRound
  imports Json
begin

section \<open>\<open>loads\<close> inverts \<open>dumps\<close>\<close>

text \<open>
  \<open>canon b v\<close> is what comes back: tuples as lists and, when \<open>b\<close> (\<open>sort_keys\<close>), dictionaries
  sorted by key. \<open>json_wf\<close> names the values that come back: distinct keys and floats with at most
  17 decimals. The parser lemmas carry the text that follows (\<open>follow\<close>: not a character that
  would continue a number) and the fuel (at least the length of the text).
\<close>

fun canon :: "bool \<Rightarrow> pyval \<Rightarrow> pyval" where
  "canon b (PList xs) = PList (map (canon b) xs)"
| "canon b (PTuple xs) = PList (map (canon b) xs)"
| "canon b (PDict kvs) =
     PDict ((if b then sort_key fst else id) (map (\<lambda>(k, v). (k, canon b v)) kvs))"
| "canon b v = v"

definition is_decimal :: "rat \<Rightarrow> bool" where
  "is_decimal r \<longleftrightarrow> of_int \<lfloor>10 ^ 17 * r\<rfloor> = 10 ^ 17 * r"

fun json_wf :: "pyval \<Rightarrow> bool" where
  "json_wf (PFloat (Fin r)) = is_decimal r"
| "json_wf (PList xs) = list_all json_wf xs"
| "json_wf (PTuple xs) = list_all json_wf xs"
| "json_wf (PDict kvs) = (distinct (map fst kvs) \<and> list_all (\<lambda>(k, v). json_wf v) kvs)"
| "json_wf v = True"

definition style_ok :: "jstyle \<Rightarrow> bool" where
  "style_ok st \<longleftrightarrow> (\<exists>w. item_sep st = CHR '','' # w \<and> list_all is_json_ws w) \<and>
     (\<exists>w. key_sep st = CHR '':'' # w \<and> list_all is_json_ws w)"

lemma style_ok_styles [simp]:
  "style_ok default_style" "style_ok compact_style" "style_ok sorted_style"
  "style_ok canonical_style"
  by (auto simp: style_ok_def default_style_def compact_style_def sorted_style_def
      canonical_style_def is_json_ws_def)

subsection \<open>White space and following text\<close>

definition follow :: "string \<Rightarrow> bool" where
  "follow s = (case s of [] \<Rightarrow> True
     | c # _ \<Rightarrow> \<not> is_ascii_digit c \<and> c \<noteq> CHR ''.'' \<and> c \<noteq> CHR ''e'' \<and> c \<noteq> CHR ''E'')"

lemma follow_Nil [simp]: "follow []"
  by (simp add: follow_def)

lemma follow_Cons [simp]: "follow (c # s) \<longleftrightarrow>
    \<not> is_ascii_digit c \<and> c \<noteq> CHR ''.'' \<and> c \<noteq> CHR ''e'' \<and> c \<noteq> CHR ''E''"
  by (simp add: follow_def)

lemma punct_not_digit [simp]:
  "\<not> is_ascii_digit (CHR '','')" "\<not> is_ascii_digit (CHR '']'')" "\<not> is_ascii_digit (CHR ''}'')"
  "\<not> is_ascii_digit (CHR 0x22)" "\<not> is_ascii_digit (CHR ''['')" "\<not> is_ascii_digit (CHR ''{'')"
  "\<not> is_ascii_digit (CHR ''-'')" "\<not> is_ascii_digit (CHR '':'')" "\<not> is_ascii_digit (CHR ''.'')"
  "\<not> is_ascii_digit (CHR ''n'')" "\<not> is_ascii_digit (CHR ''t'')" "\<not> is_ascii_digit (CHR ''f'')"
  "\<not> is_ascii_digit (CHR ''N'')" "\<not> is_ascii_digit (CHR ''I'')" "\<not> is_ascii_digit (CHR ''T'')"
  "\<not> is_ascii_digit (CHR ''+'')" "\<not> is_ascii_digit (CHR ''e'')" "\<not> is_ascii_digit (CHR ''E'')"
  by code_simp+

lemma skip_ws_append: "list_all is_json_ws w \<Longrightarrow> skip_ws (w @ s) = skip_ws s"
  by (induction w) auto

lemma skip_ws_nonws: "s \<noteq> [] \<Longrightarrow> \<not> is_json_ws (hd s) \<Longrightarrow> skip_ws s = s"
  by (cases s) auto

lemma ws_simps [simp]:
  "\<not> is_json_ws (CHR '','')" "\<not> is_json_ws (CHR '']'')" "\<not> is_json_ws (CHR ''}'')"
  "\<not> is_json_ws (CHR 0x22)" "\<not> is_json_ws (CHR ''['')" "\<not> is_json_ws (CHR ''{'')"
  "\<not> is_json_ws (CHR ''-'')" "\<not> is_json_ws (CHR '':'')"
  "\<not> is_json_ws (CHR ''n'')" "\<not> is_json_ws (CHR ''t'')" "\<not> is_json_ws (CHR ''f'')"
  "\<not> is_json_ws (CHR ''N'')" "\<not> is_json_ws (CHR ''I'')"
  by (auto simp: is_json_ws_def)

lemma digit_not_ws: "is_ascii_digit c \<Longrightarrow> \<not> is_json_ws c"
  by (auto simp: is_json_ws_def is_ascii_digit_def ord_def)

subsection \<open>Strings\<close>

lemma hex_val_digit: "d < 16 \<Longrightarrow> hex_val (hex_digit d) = Some d"
proof -
  assume d: "d < 16"
  show ?thesis
  proof (cases "d < 10")
    case True
    then show ?thesis by (simp add: hex_val_def hex_digit_def) (simp add: digit_char_def)
  next
    case False
    with d have "ord (char_of (87 + d)) = 87 + d" by simp
    with False d show ?thesis by (simp add: hex_val_def hex_digit_def is_ascii_digit_def)
  qed
qed

lemma p_str_u_escape:
  "p_str (u_escape c @ s) = map_option (\<lambda>(x, r). (c # x, r)) (p_str s)"
proof -
  have b: "ord c div 16 < 16" "ord c mod 16 < 16"
    using ord_less [of c] by (simp_all only: div_less_iff_less_mult)
  have z: "hex_val (CHR ''0'') = Some 0" by code_simp
  have "16 * (ord c div 16) + ord c mod 16 = ord c" by simp
  then show ?thesis by (simp add: u_escape_def z hex_val_digit b)
qed

lemma p_str_esc_char:
  "p_str (esc_char a c @ s) = map_option (\<lambda>(x, r). (c # x, r)) (p_str s)"
proof (cases "c \<in> {CHR 0x22, CHR 0x5C, CHR 0x0A, CHR 0x0D, CHR 0x09, CHR 0x0C, CHR 0x08}")
  case True
  then show ?thesis by (auto simp: esc_char_def simple_escape_def)
next
  case False
  then show ?thesis
    by (auto simp: esc_char_def p_str_u_escape simp del: p_str.simps) auto
qed

lemma p_str_escaped:
  "p_str (concat (map (esc_char a) s) @ CHR 0x22 # rest) = Some (s, rest)"
  by (induction s) (simp_all add: p_str_esc_char del: p_str.simps(2), simp)

subsection \<open>Numbers\<close>

lemma takeWhile_digits: "list_all P ds \<Longrightarrow> rest = [] \<or> \<not> P (hd rest) \<Longrightarrow>
    takeWhile P (ds @ rest) = ds \<and> dropWhile P (ds @ rest) = rest"
  by (induction ds) (auto, (cases rest, auto)+)

lemma p_int_part_nat_text:
  assumes "rest = [] \<or> \<not> is_ascii_digit (hd rest)"
  shows "p_int_part (nat_text n @ rest) = Some (nat_text n, rest)"
proof (cases "n = 0")
  case True
  then show ?thesis by (simp add: nat_text_zero p_int_part_def)
next
  case False
  obtain c t where ct: "nat_text n = c # t" by (cases "nat_text n") auto
  have "c \<noteq> CHR ''0''" using hd_nat_text [OF False] ct by simp
  moreover have dg: "list_all is_ascii_digit (c # t)" using nat_text_digits [of n] ct by simp
  moreover note takeWhile_digits [OF dg assms]
  ultimately show ?thesis by (simp add: p_int_part_def ct)
qed

lemma follow_hd: "follow rest \<Longrightarrow> rest = [] \<or> \<not> is_ascii_digit (hd rest)"
  by (cases rest) auto

lemma p_frac_follow: "follow rest \<Longrightarrow> p_frac rest = (None, rest)"
  by (cases rest) (auto simp: p_frac_def)

lemma p_exp_follow: "follow rest \<Longrightarrow> p_exp rest = (None, rest)"
  by (cases rest) (auto simp: p_exp_def)

lemma hd_nat_text_digit0 [simp]: "is_ascii_digit (hd (nat_text n))"
  using nat_text_digits [of n] by (cases "nat_text n") auto

lemma hd_nat_text_digit: "is_ascii_digit (hd (nat_text n @ s))"
  by simp

lemma nat_text_not_minus: "hd (nat_text n @ s) \<noteq> CHR ''-''"
  using hd_nat_text_digit [of n s] punct_not_digit(7) by metis

lemma p_number_int: "follow rest \<Longrightarrow> p_number (int_text i @ rest) = Some (PInt i, rest)"
  using nat_text_not_minus
  by (auto simp: p_number_def int_text_def p_int_part_nat_text follow_hd p_frac_follow p_exp_follow
      Let_def)

lemma frac_digits_digits: "0 \<le> r \<Longrightarrow> r < 1 \<Longrightarrow> list_all is_ascii_digit (frac_digits n r)"
proof (induction n r rule: frac_digits.induct)
  case (2 n r)
  have d: "nat \<lfloor>10 * r\<rfloor> < 10" using 2(2,3) by (simp add: floor_less_iff nat_less_iff)
  have "of_nat (nat \<lfloor>10 * r\<rfloor>) \<le> 10 * r" and "10 * r < of_nat (nat \<lfloor>10 * r\<rfloor>) + 1"
    using 2(2) by (simp_all, linarith)
  then show ?case using 2(1) d by (auto simp: Let_def)
qed simp

lemma frac_val_digits:
  "0 \<le> r \<Longrightarrow> r < 1 \<Longrightarrow> of_int \<lfloor>10 ^ n * r\<rfloor> = 10 ^ n * r \<Longrightarrow> frac_val (frac_digits n r) = r"
proof (induction n r rule: frac_digits.induct)
  case (1 r)
  then have "\<lfloor>r\<rfloor> = 0" by (simp add: floor_eq_iff)
  with 1(3) show ?case by (simp only: frac_digits.simps frac_val.simps power_0 mult_1)
next
  case (2 n r)
  define d where "d = nat \<lfloor>10 * r\<rfloor>"
  define r' where "r' = 10 * r - of_nat d"
  have d: "d < 10" using 2(2,3) by (simp add: d_def floor_less_iff nat_less_iff)
  have dr: "of_nat d = (of_int \<lfloor>10 * r\<rfloor> :: rat)" using 2(2) by (simp add: d_def)
  have r': "0 \<le> r'" "r' < 1" unfolding r'_def dr by linarith+
  have "10 ^ n * r' = 10 ^ Suc n * r - 10 ^ n * of_nat d"
    by (simp add: r'_def algebra_simps)
  also have "\<dots> = of_int (\<lfloor>10 ^ Suc n * r\<rfloor> - 10 ^ n * int d)"
    unfolding of_int_diff 2(4) by simp
  finally have i: "of_int \<lfloor>10 ^ n * r'\<rfloor> = 10 ^ n * r'"
    by (metis floor_of_int)
  have e: "frac_digits (Suc n) r = digit_char d # (if r' = 0 then [] else frac_digits n r')"
    by (simp add: Let_def d_def r'_def)
  have "frac_val (frac_digits (Suc n) r) = (of_nat d + r') / 10"
    using 2(1) [OF d_def r'_def _ r' i] d unfolding e by auto
  also have "\<dots> = r" by (simp add: r'_def)
  finally show ?case .
qed

lemma frac_digits_nonempty: "n \<noteq> 0 \<Longrightarrow> frac_digits n r \<noteq> []"
  by (cases n) (auto simp: Let_def)

lemma is_decimal_frac:
  assumes "is_decimal r"
  shows "of_int \<lfloor>10 ^ 17 * (\<bar>r\<bar> - of_int \<lfloor>\<bar>r\<bar>\<rfloor>)\<rfloor> = 10 ^ 17 * (\<bar>r\<bar> - of_int \<lfloor>\<bar>r\<bar>\<rfloor>)"
proof -
  have "10 ^ 17 * \<bar>r\<bar> = \<bar>10 ^ 17 * r\<bar>" by (simp add: abs_mult)
  also have "\<dots> = of_int \<bar>\<lfloor>10 ^ 17 * r\<rfloor>\<bar>"
    using assms unfolding is_decimal_def of_int_abs by presburger
  finally have "10 ^ 17 * (\<bar>r\<bar> - of_int \<lfloor>\<bar>r\<bar>\<rfloor>) =
      of_int (\<bar>\<lfloor>10 ^ 17 * r\<rfloor>\<bar> - 10 ^ 17 * \<lfloor>\<bar>r\<bar>\<rfloor>)"
    by (simp add: right_diff_distrib)
  then show ?thesis by (metis floor_of_int)
qed

lemma p_number_float:
  assumes "follow rest" and "is_decimal r"
  shows "p_number (float_text r @ rest) = Some (PFloat (Fin r), rest)"
proof -
  define f where "f = \<bar>r\<bar> - of_int \<lfloor>\<bar>r\<bar>\<rfloor>"
  have f: "0 \<le> f" "f < 1" unfolding f_def by linarith+
  define ds where "ds = frac_digits 17 f"
  have dg: "list_all is_ascii_digit ds" using frac_digits_digits f by (simp add: ds_def)
  have ne: "ds \<noteq> []" using frac_digits_nonempty by (simp add: ds_def)
  have fv: "frac_val ds = f"
    unfolding ds_def using frac_val_digits [OF f] is_decimal_frac [OF assms(2)] by (simp add: f_def)
  have tw: "digits_of (ds @ rest) = ds \<and> after_digits (ds @ rest) = rest"
    by (rule takeWhile_digits [OF dg follow_hd [OF assms(1)]])
  have pf: "p_frac (CHR ''.'' # ds @ rest) = (Some ds, rest)"
    using tw ne by (simp add: p_frac_def)
  have ip: "p_int_part (nat_text k @ CHR ''.'' # ds @ rest) = Some (nat_text k, CHR ''.'' # ds @ rest)" for k
    by (rule p_int_part_nat_text) simp
  have "of_nat (nat \<lfloor>\<bar>r\<bar>\<rfloor>) + f = \<bar>r\<bar>" by (simp add: f_def)
  then show ?thesis
    using nat_text_not_minus
    by (auto simp: p_number_def float_text_def f_def [symmetric] ds_def [symmetric] ip pf fv
        p_exp_follow [OF assms(1)] Let_def)
qed

subsection \<open>The round trip\<close>

text \<open>Every text that \<open>dumps\<close> writes is non-empty and does not start with white space.\<close>

definition starts_value :: "string \<Rightarrow> bool" where
  "starts_value t \<longleftrightarrow> t \<noteq> [] \<and> \<not> is_json_ws (hd t) \<and> hd t \<noteq> CHR '']''"

lemma digit_starts_value: "s \<noteq> [] \<Longrightarrow> is_ascii_digit (hd s) \<Longrightarrow> starts_value s"
  by (auto simp: starts_value_def digit_not_ws)

lemma starts_value_minus [simp]: "starts_value (CHR ''-'' # s)"
  by (simp add: starts_value_def)

lemma starts_value_nat_text [simp]: "starts_value (nat_text n @ s)"
  by (rule digit_starts_value) (simp_all add: hd_nat_text_digit)

lemma starts_value_int_text: "starts_value (int_text i)"
  using starts_value_nat_text [of _ "[]"] by (simp add: int_text_def)

lemma starts_value_float_text: "starts_value (float_text r)"
  by (simp add: float_text_def)

lemma dumps_starts_value: "dumps st v = Inr t \<Longrightarrow> starts_value t"
  using starts_value_int_text starts_value_float_text
  by (cases v)
    (auto split: pyfloat.splits if_splits sum.splits simp: json_string_def starts_value_def)

lemma dumps_hd: "dumps st v = Inr t \<Longrightarrow> t \<noteq> [] \<and> \<not> is_json_ws (hd t) \<and> hd t \<noteq> CHR '']''"
  using dumps_starts_value by (simp add: starts_value_def)

lemma skip_ws_dumps: "dumps st v = Inr t \<Longrightarrow> skip_ws (t @ s) = t @ s"
  using dumps_hd by (auto intro!: skip_ws_nonws)

text \<open>What a value parser must do on the texts of one value; \<open>n\<close> is the fuel.\<close>

definition reads :: "jstyle \<Rightarrow> pyval \<Rightarrow> bool" where
  "reads st v \<longleftrightarrow> (\<forall>t n rest. dumps st v = Inr t \<longrightarrow> length t \<le> n \<longrightarrow> follow rest \<longrightarrow>
     p_value n (t @ rest) = Some (canon (sort_keys st) v, rest))"

lemma readsD: "reads st v \<Longrightarrow> dumps st v = Inr t \<Longrightarrow> length t \<le> n \<Longrightarrow> follow rest \<Longrightarrow>
    p_value n (t @ rest) = Some (canon (sort_keys st) v, rest)"
  by (simp add: reads_def)

lemma p_elems_join:
  assumes "style_ok st"
  shows "list_all2 (\<lambda>v t. dumps st v = Inr t) vs ts \<Longrightarrow> vs \<noteq> [] \<Longrightarrow> \<forall>v \<in> set vs. reads st v \<Longrightarrow>
    length (join (item_sep st) ts) < n \<Longrightarrow>
    p_elems n (join (item_sep st) ts @ CHR '']'' # rest) = Some (map (canon (sort_keys st)) vs, rest)"
proof (induction vs ts arbitrary: n rule: list_all2_induct)
  case Nil
  then show ?case by simp
next
  case (Cons v vs t ts)
  obtain w where w: "item_sep st = CHR '','' # w" "list_all is_json_ws w"
    using assms by (auto simp: style_ok_def)
  obtain m where m: "n = Suc m" using Cons.prems by (cases n) auto
  have r: "reads st v" using Cons.prems by simp
  show ?case
  proof (cases "vs = []")
    case True
    with Cons.hyps have "ts = []" by simp
    with True m Cons.prems readsD [OF r Cons.hyps(1)] show ?thesis by simp
  next
    case False
    then obtain t' ts' where ts: "ts = t' # ts'" using Cons.hyps by (cases ts) auto
    obtain v' where "dumps st v' = Inr t'" using Cons.hyps ts by (auto simp: list_all2_Cons2)
    then have sk: "skip_ws (w @ join (item_sep st) ts @ s) = join (item_sep st) ts @ s" for s
      using ts by (simp add: skip_ws_append w(2) join_Cons skip_ws_dumps)
    have lt: "length t \<le> m" "length (join (item_sep st) ts) < m"
      using Cons.prems m by (simp_all add: ts w(1))
    from Cons.IH [OF False _ lt(2)] Cons.prems have IH:
      "p_elems m (join (item_sep st) ts @ CHR '']'' # rest) = Some (map (canon (sort_keys st)) vs, rest)"
      by simp
    have jc: "join (item_sep st) (t # ts) = t @ CHR '','' # w @ join (item_sep st) ts"
      using ts w(1) by simp
    show ?thesis
      using readsD [OF r Cons.hyps(1) lt(1)] by (simp add: m jc sk IH)
  qed
qed

definition member_text :: "jstyle \<Rightarrow> string \<times> pyval \<Rightarrow> string result" where
  "member_text st = (\<lambda>(k, v). case dumps st v of Inl e \<Rightarrow> Inl e
     | Inr t \<Rightarrow> Inr (json_string (ensure_ascii st) k @ key_sep st @ t))"

lemma member_text_Inr: "member_text st (k, v) = Inr m \<longleftrightarrow>
    (\<exists>t. dumps st v = Inr t \<and> m = json_string (ensure_ascii st) k @ key_sep st @ t)"
  by (auto simp: member_text_def split: sum.splits)

lemma member_text_hd: "member_text st kv = Inr m \<Longrightarrow> \<exists>u. m = CHR 0x22 # u"
  by (cases kv) (auto simp: member_text_Inr json_string_def)

lemma p_members_join:
  assumes "style_ok st"
  shows "list_all2 (\<lambda>kv m. member_text st kv = Inr m) kvs ms \<Longrightarrow> kvs \<noteq> [] \<Longrightarrow>
    \<forall>kv \<in> set kvs. reads st (snd kv) \<Longrightarrow> length (join (item_sep st) ms) < n \<Longrightarrow>
    p_members n (join (item_sep st) ms @ CHR ''}'' # rest) =
      Some (map (\<lambda>(k, v). (k, canon (sort_keys st) v)) kvs, rest)"
proof (induction kvs ms arbitrary: n rule: list_all2_induct)
  case Nil
  then show ?case by simp
next
  case (Cons kv kvs m ms)
  obtain w where w: "item_sep st = CHR '','' # w" "list_all is_json_ws w"
    using assms by (auto simp: style_ok_def)
  obtain u where u: "key_sep st = CHR '':'' # u" "list_all is_json_ws u"
    using assms by (auto simp: style_ok_def)
  obtain k v where kv: "kv = (k, v)" by (cases kv)
  obtain t where t: "dumps st v = Inr t" and mt: "m = json_string (ensure_ascii st) k @ key_sep st @ t"
    using Cons.hyps(1) by (auto simp: kv member_text_Inr)
  obtain n' where n': "n = Suc n'" using Cons.prems by (cases n) auto
  have r: "reads st v" using Cons.prems kv by simp
  have sku: "skip_ws (u @ t @ s) = t @ s" for s
    by (simp add: skip_ws_append u(2) skip_ws_dumps [OF t])
  have lt: "length t \<le> n'" using Cons.prems n' by (simp add: join_Cons mt u(1))
  note val = readsD [OF r t lt]
  show ?case
  proof (cases "kvs = []")
    case True
    with Cons.hyps have "ms = []" by simp
    with True show ?thesis
      by (simp add: n' mt json_string_def p_str_escaped u(1) sku val kv)
  next
    case False
    then obtain m' ms' where ms: "ms = m' # ms'" using Cons.hyps by (cases ms) auto
    obtain kv' where "member_text st kv' = Inr m'" using Cons.hyps ms by (auto simp: list_all2_Cons2)
    then obtain q where "m' = CHR 0x22 # q" using member_text_hd by blast
    then have sk: "skip_ws (w @ join (item_sep st) ms @ s) = join (item_sep st) ms @ s" for s
      by (simp add: skip_ws_append w(2) join_Cons ms)
    have lt': "length (join (item_sep st) ms) < n'"
      using Cons.prems n' by (simp add: ms w(1))
    from Cons.IH [OF False _ lt'] Cons.prems have IH:
      "p_members n' (join (item_sep st) ms @ CHR ''}'' # rest) =
        Some (map (\<lambda>(k, v). (k, canon (sort_keys st) v)) kvs, rest)"
      by simp
    have jc: "join (item_sep st) (m # ms) = m @ CHR '','' # w @ join (item_sep st) ms"
      using ms w(1) by simp
    show ?thesis unfolding n' jc
      by (simp add: mt json_string_def p_str_escaped u(1) sku val sk IH kv)
  qed
qed

lemma AList_update_absent: "k \<notin> fst ` set al \<Longrightarrow> AList.update k v al = al @ [(k, v)]"
  by (induction al) auto

lemma dict_of_distinct: "distinct (map fst kvs) \<Longrightarrow> dict_of kvs = kvs"
proof (induction kvs rule: rev_induct)
  case Nil
  then show ?case by (simp add: dict_of_def)
next
  case (snoc kv kvs)
  obtain k v where "kv = (k, v)" by (cases kv)
  with snoc show ?case by (auto simp: dict_of_def AList_update_absent)
qed

lemma sort_key_map: "sort_key f (map g xs) = map g (sort_key (f \<circ> g) xs)"
proof -
  have ins: "insort_key f (g x) (map g ys) = map g (insort_key (\<lambda>y. f (g y)) x ys)" for x ys
    by (induction ys) auto
  show ?thesis by (induction xs) (auto simp: ins comp_def)
qed

lemma fst_map_snd: "fst \<circ> (\<lambda>(k, v). (k, f v)) = fst"
  by auto

lemma items_canon:
  "map (\<lambda>(k, v). (k, canon (sort_keys st) v)) (items st kvs) =
    (if sort_keys st then sort_key fst else id) (map (\<lambda>(k, v). (k, canon (sort_keys st) v)) kvs)"
  by (simp add: items_def sort_key_map fst_map_snd)

lemma distinct_items: "distinct (map fst kvs) \<Longrightarrow> distinct (map fst (items st kvs))"
  by (auto simp: items_def distinct_map)

lemma reads_list:
  assumes ok: "style_ok st" and rs: "\<forall>v \<in> set vs. reads st v"
    and ts: "sequenceR (map (dumps st) vs) = Inr ts"
    and le: "length (''['' @ join (item_sep st) ts @ '']'') \<le> n"
  shows "p_value n ((''['' @ join (item_sep st) ts @ '']'') @ rest) =
    Some (PList (map (canon (sort_keys st)) vs), rest)"
proof -
  obtain m where m: "n = Suc m" using le by (cases n) auto
  have l2: "list_all2 (\<lambda>v t. dumps st v = Inr t) vs ts" using ts by (simp add: sequenceR_Inr)
  show ?thesis
  proof (cases vs)
    case Nil
    with l2 show ?thesis by (simp add: m)
  next
    case (Cons v vs')
    then obtain t ts' where t: "ts = t # ts'" "dumps st v = Inr t"
      using l2 by (auto simp: list_all2_Cons1)
    have sk: "skip_ws (join (item_sep st) ts @ s) = join (item_sep st) ts @ s" for s
      using t skip_ws_dumps [OF t(2)] by (simp add: join_Cons)
    have nb: "\<not> starts_with '']'' (join (item_sep st) ts @ s)" for s
      using dumps_hd [OF t(2)] by (cases t) (auto simp: t(1) join_Cons)
    show ?thesis
      using p_elems_join [OF ok l2 _ rs, of m rest] Cons le by (simp add: m sk nb)
  qed
qed

lemma reads_dict:
  assumes ok: "style_ok st" and rs: "\<forall>kv \<in> set kvs. reads st (snd kv)"
    and di: "distinct (map fst kvs)"
    and ts: "sequenceR (map (member_text st) (items st kvs)) = Inr ts"
    and le: "length (''{'' @ join (item_sep st) ts @ ''}'') \<le> n"
  shows "p_value n ((''{'' @ join (item_sep st) ts @ ''}'') @ rest) =
    Some (canon (sort_keys st) (PDict kvs), rest)"
proof -
  obtain m where m: "n = Suc m" using le by (cases n) auto
  have l2: "list_all2 (\<lambda>v t. member_text st v = Inr t) (items st kvs) ts"
    using ts by (simp add: sequenceR_Inr)
  have rs': "\<forall>kv \<in> set (items st kvs). reads st (snd kv)" using rs by simp
  show ?thesis
  proof (cases "items st kvs")
    case Nil
    then have "set kvs = {}" by (metis empty_set set_items)
    with Nil l2 show ?thesis by (simp add: m)
  next
    case (Cons kv kvs')
    then obtain t ts' where t: "ts = t # ts'" "member_text st kv = Inr t"
      using l2 by (auto simp: list_all2_Cons1)
    obtain q where q: "t = CHR 0x22 # q" using member_text_hd [OF t(2)] by blast
    have sk: "skip_ws (join (item_sep st) ts @ s) = join (item_sep st) ts @ s" for s
      by (simp add: join_Cons t(1) q)
    have nb: "\<not> starts_with ''}'' (join (item_sep st) ts @ s)" for s
      by (simp add: t(1) join_Cons q)
    have ne: "items st kvs \<noteq> []" using Cons by simp
    have dd: "dict_of (map (\<lambda>(k, v). (k, canon (sort_keys st) v)) (items st kvs)) =
        map (\<lambda>(k, v). (k, canon (sort_keys st) v)) (items st kvs)"
      by (rule dict_of_distinct) (simp add: fst_map_snd distinct_items [OF di])
    have "p_members m (join (item_sep st) ts @ CHR ''}'' # rest) =
        Some (map (\<lambda>(k, v). (k, canon (sort_keys st) v)) (items st kvs), rest)"
      by (rule p_members_join [OF ok l2 ne rs']) (use le m in simp)
    then have "p_value n ((''{'' @ join (item_sep st) ts @ ''}'') @ rest) =
        Some (PDict (map (\<lambda>(k, v). (k, canon (sort_keys st) v)) (items st kvs)), rest)"
      by (simp add: m sk nb dd)
    then show ?thesis by (simp only: canon.simps items_canon)
  qed
qed

lemma starts_with_append: "starts_with p (p @ s)"
  by (simp add: starts_with_iff)

lemma reads_atom_number:
  assumes "c # t = s" and "is_ascii_digit c \<or> (c = CHR ''-'' \<and> t \<noteq> [] \<and> is_ascii_digit (hd t))"
  shows "p_value (Suc n) s = p_number s"
proof -
  have ne: "(c = CHR 0x22) = False" "(c = CHR ''['') = False" "(c = CHR ''{'') = False"
    "(CHR ''n'' = c) = False" "(CHR ''t'' = c) = False" "(CHR ''f'' = c) = False"
    "(CHR ''N'' = c) = False" "(CHR ''I'' = c) = False"
    using assms(2) by auto
  have mi: "(CHR ''-'' = c \<and> starts_with ''Infinity'' t) = False"
    using assms(2) by (cases t) auto
  show ?thesis
    unfolding assms(1) [symmetric]
    by (simp only: p_value.simps list.case ne mi if_False starts_with.simps simp_thms)
qed

lemma reads_int: "reads st (PInt i)"
proof -
  have "p_value n (int_text i @ rest) = Some (PInt i, rest)"
    if fo: "follow rest" and le: "length (int_text i) \<le> n" for n rest
  proof -
    obtain c t where ct: "int_text i @ rest = c # t"
      using starts_value_int_text [of i] by (cases "int_text i @ rest") (auto simp: starts_value_def)
    obtain m where m: "n = Suc m"
      using le starts_value_int_text [of i] by (cases n) (auto simp: starts_value_def)
    have "c = hd (int_text i @ rest)" "t = tl (int_text i @ rest)" using ct by simp_all
    then have "is_ascii_digit c \<or> (c = CHR ''-'' \<and> t \<noteq> [] \<and> is_ascii_digit (hd t))"
      by (simp add: int_text_def)
    from reads_atom_number [OF ct [symmetric] this] p_number_int [OF fo] m
    show ?thesis by simp
  qed
  then show ?thesis by (simp add: reads_def)
qed

lemma reads_float:
  assumes "is_decimal r"
  shows "reads st (PFloat (Fin r))"
proof -
  have "p_value n (float_text r @ rest) = Some (PFloat (Fin r), rest)"
    if fo: "follow rest" and le: "length (float_text r) \<le> n" for n rest
  proof -
    obtain c t where ct: "float_text r @ rest = c # t"
      using starts_value_float_text [of r] by (cases "float_text r @ rest") (auto simp: starts_value_def)
    obtain m where m: "n = Suc m"
      using le starts_value_float_text [of r] by (cases n) (auto simp: starts_value_def)
    have "c = hd (float_text r @ rest)" "t = tl (float_text r @ rest)" using ct by simp_all
    then have "is_ascii_digit c \<or> (c = CHR ''-'' \<and> t \<noteq> [] \<and> is_ascii_digit (hd t))"
      by (simp add: float_text_def)
    from reads_atom_number [OF ct [symmetric] this] p_number_float [OF fo assms] m
    show ?thesis by simp
  qed
  then show ?thesis by (simp add: reads_def)
qed

lemma reads_other:
  "reads st PNone" "reads st (PBool b)" "reads st (PStr s)" "reads st (PFloat PosInf)"
  "reads st (PFloat NegInf)" "reads st (PFloat NaN)" "reads st (PObject t)"
proof -
  have suc: "P n" if "0 < n" "\<And>m. P (Suc m)" for P and n :: nat
    using that by (cases n) auto
  show "reads st PNone" "reads st (PBool b)" "reads st (PFloat PosInf)"
    "reads st (PFloat NegInf)" "reads st (PFloat NaN)" "reads st (PObject t)"
    by (auto simp: reads_def elim!: le_SucE dest!: Suc_le_D split: if_splits)
  show "reads st (PStr s)"
    by (auto simp: reads_def json_string_def p_str_escaped dest!: Suc_le_D)
qed

theorem reads_wf:
  assumes "style_ok st"
  shows "json_wf v \<Longrightarrow> reads st v"
proof (induction v)
  case (PFloat f)
  then show ?case by (cases f) (auto simp: reads_float reads_other)
next
  case (PList vs)
  then have "\<forall>v \<in> set vs. reads st v" by (auto simp: list_all_iff)
  from reads_list [OF assms this] show ?case
    by (auto simp: reads_def split: sum.splits)
next
  case (PTuple vs)
  then have "\<forall>v \<in> set vs. reads st v" by (auto simp: list_all_iff)
  from reads_list [OF assms this] show ?case
    by (auto simp: reads_def split: sum.splits)
next
  case (PDict kvs)
  then have "\<forall>kv \<in> set kvs. reads st (snd kv)"
    by (fastforce simp: list_all_iff)
  moreover have "distinct (map fst kvs)" using PDict by simp
  ultimately show ?case
    using reads_dict [OF assms] by (auto simp: reads_def member_text_def split: sum.splits)
qed (auto simp: reads_int reads_other)

text \<open>What \<open>loads\<close> returns on the text that \<open>dumps\<close> wrote.\<close>

lemma loads_dumps:
  assumes "style_ok st" and "json_wf v" and "dumps st v = Inr t"
  shows "loads t = Some (canon (sort_keys st) v)"
proof -
  have "skip_ws t = t" using skip_ws_dumps [OF assms(3), of "[]"] by simp
  moreover have "p_value (Suc (length t)) t = Some (canon (sort_keys st) v, [])"
    using readsD [OF reads_wf [OF assms(1,2)] assms(3), of "Suc (length t)" "[]"] by simp
  ultimately show ?thesis by (simp add: loads_def)
qed

subsection \<open>What \<open>dumps\<close> accepts\<close>

fun jsonable :: "pyval \<Rightarrow> bool" where
  "jsonable (PObject t) = False"
| "jsonable (PList xs) = list_all jsonable xs"
| "jsonable (PTuple xs) = list_all jsonable xs"
| "jsonable (PDict kvs) = list_all (\<lambda>(k, v). jsonable v) kvs"
| "jsonable _ = True"

lemma dumps_dict: "dumps st (PDict kvs) = (case sequenceR (map (member_text st) (items st kvs)) of
    Inl e \<Rightarrow> Inl e | Inr ts \<Rightarrow> Inr (''{'' @ join (item_sep st) ts @ ''}''))"
  by (simp add: member_text_def)

lemma dumps_total:
  assumes "allow_nan st"
  shows "jsonable v \<Longrightarrow> \<exists>t. dumps st v = Inr t"
proof (induction v)
  case (PFloat f)
  then show ?case using assms by (cases f) simp_all
next
  case (PList xs)
  then have "\<exists>ts. sequenceR (map (dumps st) xs) = Inr ts"
    by (intro sequenceR_total) (simp add: list_all_iff)
  then show ?case by auto
next
  case (PTuple xs)
  then have "\<exists>ts. sequenceR (map (dumps st) xs) = Inr ts"
    by (intro sequenceR_total) (simp add: list_all_iff)
  then show ?case by auto
next
  case (PDict kvs)
  have "\<exists>y. member_text st kv = Inr y" if kv: "kv \<in> set (items st kvs)" for kv
  proof -
    obtain k v where k: "kv = (k, v)" by (cases kv)
    then have "jsonable v" using PDict.prems kv by (auto simp: list_all_iff)
    then have "\<exists>t. dumps st v = Inr t" using PDict.IH [of kv v] kv k by auto
    then show ?thesis using k by (auto simp: member_text_Inr)
  qed
  then have "\<exists>ts. sequenceR (map (member_text st) (items st kvs)) = Inr ts" by (rule sequenceR_total)
  then show ?case unfolding dumps_dict by auto
qed simp_all

lemma dumps_styles_total:
  "jsonable v \<Longrightarrow> \<exists>t. dumps default_style v = Inr t"
  "jsonable v \<Longrightarrow> \<exists>t. dumps compact_style v = Inr t"
  "jsonable v \<Longrightarrow> \<exists>t. dumps sorted_style v = Inr t"
  by (rule dumps_total; simp add: default_style_def compact_style_def sorted_style_def)+

end
