(* ===== verification/Datetime.thy ===== *)
theory Datetime
  imports PyText
begin

section \<open>\<open>datetime\<close> values and their ISO-8601 text\<close>

text \<open>
  A \<open>datetime\<close> is its wall-clock microsecond, counted from 0001-01-01T00:00:00 in the proleptic
  Gregorian calendar, and its \<open>tzinfo\<close>: none (naive), a \<open>ZoneInfo\<close> of the tz database, or a
  fixed-offset \<open>timezone\<close>. The offsets of the tz database are data from outside the repository
  and the parameter \<open>zone\<close> of the operations that read them (zone key and wall clock to seconds;
  \<open>fold\<close> is not modelled).

  \<open>isoformat\<close> is CPython's. \<open>fromisoformat\<close> is CPython's on the extended formats
  (\<open>YYYY-MM-DD\<close>, an arbitrary separator, \<open>HH[:MM[:SS[.f+]]]\<close>, \<open>Z\<close> or a signed offset); the
  undelimited and ISO-week forms, which nothing in the repository writes, are refused.
  \<open>fromisoformat_isoformat\<close> is the round trip: the wall clock comes back, the zone comes back
  as a fixed offset.
\<close>

subsection \<open>Calendar\<close>

definition leap :: "int \<Rightarrow> bool" where
  "leap y \<longleftrightarrow> y mod 4 = 0 \<and> (y mod 100 \<noteq> 0 \<or> y mod 400 = 0)"

definition mdays :: "int \<Rightarrow> nat \<Rightarrow> int" where
  "mdays y m = (if m = 2 then (if leap y then 29 else 28)
     else if m = 4 \<or> m = 6 \<or> m = 9 \<or> m = 11 then 30 else 31)"

text \<open>Days before the first of January of a year, and of a month within its year.\<close>

definition dby :: "int \<Rightarrow> int" where
  "dby y = (y - 1) * 365 + (y - 1) div 4 - (y - 1) div 100 + (y - 1) div 400"

definition dbm :: "int \<Rightarrow> nat \<Rightarrow> int" where
  "dbm y m = sum_list (map (mdays y) [1..<m])"

lemma mdays_pos: "28 \<le> mdays y m" and mdays_le: "mdays y m \<le> 31"
  by (auto simp: mdays_def)

lemma dbm_Suc: "1 \<le> m \<Longrightarrow> dbm y (Suc m) = dbm y m + mdays y m"
  by (simp add: dbm_def)

lemma dbm_1 [simp]: "dbm y (Suc 0) = 0"
  by (simp add: dbm_def)

lemma dbm_13: "dbm y 13 = 365 + (if leap y then 1 else 0)"
proof -
  have "[1..<13] = [1, 2, 3, 4, 5, 6, 7, 8, 9, 10, 11, 12 :: nat]"
    by (simp add: upt_rec)
  then show ?thesis by (simp add: dbm_def mdays_def)
qed

lemma div_pred:
  fixes y k :: int
  assumes "0 < k"
  shows "y div k = (y - 1) div k + (if y mod k = 0 then 1 else 0)"
proof (cases "y mod k = 0")
  case True
  then have "y = k * (y div k)" using mult_div_mod_eq [of k y] by simp
  then have "y - 1 = k * (y div k - 1) + (k - 1)" unfolding right_diff_distrib by linarith
  then have "(y - 1) div k = y div k - 1"
    using assms by (intro int_div_pos_eq [of _ _ _ "k - 1"]) simp_all
  with True show ?thesis by simp
next
  case False
  have "0 \<le> y mod k" "y mod k < k" using assms by simp_all
  moreover have "y - 1 = k * (y div k) + (y mod k - 1)" using mult_div_mod_eq [of k y] by linarith
  ultimately have "(y - 1) div k = y div k" using False by (intro int_div_pos_eq [of _ _ _ "y mod k - 1"]) simp_all
  with False show ?thesis by simp
qed

lemma leap_arith:
  fixes D :: int
  assumes "C \<longrightarrow> B" and "B \<longrightarrow> A"
  shows "D + 365 + (if A then 1 else 0) - (if B then 1 else 0) + (if C then 1 else 0) =
    D + (365 + (if A \<and> (\<not> B \<or> C) then 1 else 0))"
  using assms by (cases A; cases B; cases C) simp_all

lemma dby_Suc: "dby (y + 1) = dby y + dbm y 13"
proof -
  have d4: "y div 4 = (y - 1) div 4 + (if y mod 4 = 0 then 1 else 0)" by (rule div_pred) simp
  have d100: "y div 100 = (y - 1) div 100 + (if y mod 100 = 0 then 1 else 0)" by (rule div_pred) simp
  have d400: "y div 400 = (y - 1) div 400 + (if y mod 400 = 0 then 1 else 0)" by (rule div_pred) simp
  have e: "dby (y + 1) = dby y + 365 + (if y mod 4 = 0 then 1 else 0)
      - (if y mod 100 = 0 then 1 else 0) + (if y mod 400 = 0 then 1 else 0)"
    unfolding dby_def add_diff_cancel_right' d4 d100 d400 by (simp add: algebra_simps)
  have "y mod 400 = 0 \<longrightarrow> y mod 100 = 0" and "y mod 100 = 0 \<longrightarrow> y mod 4 = 0"
    using dvd_trans [of 100 400 y] dvd_trans [of 4 100 y] by (simp_all only: mod_eq_0_iff_dvd) simp_all
  from leap_arith [OF this] show ?thesis unfolding dbm_13 leap_def e by simp
qed

lemma dby_less_Suc: "dby y + 365 \<le> dby (y + 1)"
  by (simp add: dby_Suc dbm_13)

lemma dby_mono: "x \<le> y \<Longrightarrow> dby x \<le> dby y"
proof -
  have "dby x \<le> dby (x + int k)" for k
  proof (induction k)
    case (Suc k)
    have "x + int (Suc k) = (x + int k) + 1" by simp
    then show ?case using dby_less_Suc [of "x + int k"] Suc by (simp only:)
  qed simp
  from this [of "nat (y - x)"] show "x \<le> y \<Longrightarrow> dby x \<le> dby y" by simp
qed

lemma dby_upper: "0 \<le> q \<Longrightarrow> dby (q + 1) \<le> 366 * q"
  by (simp add: dby_def)

lemma dby_decrease: "\<not> n \<le> dby (y + 1) \<Longrightarrow> nat (n - dby (y + 1)) < nat (n - dby y)"
  using dby_less_Suc [of y] by simp

function year_from :: "int \<Rightarrow> int \<Rightarrow> int" where
  "year_from y n = (if n \<le> dby (y + 1) then y else year_from (y + 1) n)"
  by pat_completeness auto
termination
  by (relation "measure (\<lambda>(y, n). nat (n - dby y))") (auto simp del: zless_nat_conj intro!: dby_decrease)

declare year_from.simps [simp del]

definition year_of :: "int \<Rightarrow> int" where
  "year_of n = year_from ((n - 1) div 366 + 1) n"

function month_of :: "int \<Rightarrow> nat \<Rightarrow> int \<Rightarrow> nat \<times> int" where
  "month_of y m r = (if 12 \<le> m \<or> r \<le> mdays y m then (m, r) else month_of y (Suc m) (r - mdays y m))"
  by pat_completeness auto
termination
  by (relation "measure (\<lambda>(y, m, r). 12 - m)") auto

declare month_of.simps [simp del]

text \<open>Day number (1 is 0001-01-01) to year, month, day, and back.\<close>

definition ord2ymd :: "int \<Rightarrow> int \<times> nat \<times> int" where
  "ord2ymd n = (let y = year_of n; (m, d) = month_of y 1 (n - dby y) in (y, m, d))"

definition ymd2ord :: "int \<Rightarrow> nat \<Rightarrow> int \<Rightarrow> int" where
  "ymd2ord y m d = dby y + dbm y m + d"

lemma year_from_spec: "dby y < n \<Longrightarrow>
    y \<le> year_from y n \<and> dby (year_from y n) < n \<and> n \<le> dby (year_from y n + 1)"
proof (induction y n rule: year_from.induct)
  case (1 y n)
  show ?case
  proof (cases "n \<le> dby (y + 1)")
    case True
    then show ?thesis using 1 by (simp add: year_from.simps [of y n])
  next
    case False
    then show ?thesis using 1 by (simp add: year_from.simps [of y n])
  qed
qed

lemma year_of_spec:
  assumes "1 \<le> n"
  shows "1 \<le> year_of n \<and> dby (year_of n) < n \<and> n \<le> dby (year_of n + 1)"
proof -
  define q where "q = (n - 1) div 366"
  have q: "0 \<le> q" "366 * q \<le> n - 1" using assms by (auto simp: q_def pos_imp_zdiv_nonneg_iff)
  then have "dby (q + 1) < n" using dby_upper [of q] by simp
  from year_from_spec [OF this] q(1) show ?thesis by (simp add: year_of_def q_def)
qed

lemma month_of_spec: "1 \<le> m \<Longrightarrow> m \<le> 12 \<Longrightarrow> 1 \<le> r \<Longrightarrow> dbm y m + r \<le> dbm y 13 \<Longrightarrow>
    month_of y m r = (m', d) \<Longrightarrow>
    1 \<le> m' \<and> m' \<le> 12 \<and> 1 \<le> d \<and> d \<le> mdays y m' \<and> dbm y m' + d = dbm y m + r"
proof (induction y m r rule: month_of.induct)
  case (1 y m r)
  show ?case
  proof (cases "12 \<le> m \<or> r \<le> mdays y m")
    case True
    then have "m' = m" "d = r" using 1(6) by (simp_all add: month_of.simps [of y m r])
    moreover have "r \<le> mdays y m" if "12 \<le> m"
    proof -
      from that 1(3) have m: "m = 12" by simp
      have "dbm y 13 = dbm y 12 + mdays y 12" using dbm_Suc [of 12 y] by simp
      with 1(5) m show ?thesis by simp
    qed
    ultimately show ?thesis using 1 True by auto
  next
    case False
    then have e: "month_of y (Suc m) (r - mdays y m) = (m', d)"
      using 1(6) by (simp add: month_of.simps [of y m r])
    have s: "dbm y (Suc m) = dbm y m + mdays y m" using dbm_Suc 1(2) by simp
    show ?thesis using 1(1) [OF False _ _ _ _ e] False 1(2-5) s by auto
  qed
qed

theorem ord2ymd_spec:
  assumes "1 \<le> n" and "ord2ymd n = (y, m, d)"
  shows "1 \<le> y \<and> 1 \<le> m \<and> m \<le> 12 \<and> 1 \<le> d \<and> d \<le> mdays y m \<and> ymd2ord y m d = n"
proof -
  from assms(2) have y: "y = year_of n" and md: "month_of y 1 (n - dby y) = (m, d)"
    by (auto simp: ord2ymd_def Let_def split: prod.splits)
  note ys = year_of_spec [OF assms(1), folded y]
  have "dbm y 1 + (n - dby y) \<le> dbm y 13" using ys dby_Suc [of y] by simp
  from month_of_spec [OF _ _ _ this md] ys show ?thesis
    by (simp add: ymd2ord_def)
qed

lemma ord2ymd_year_bound:
  assumes "1 \<le> n" and "n \<le> 3652059" and "ord2ymd n = (y, m, d)"
  shows "y \<le> 9999"
proof (rule ccontr)
  assume "\<not> y \<le> 9999"
  then have "dby 10000 \<le> dby y" by (intro dby_mono) simp
  moreover have "dby (10000 :: int) = 3652059" by (simp add: dby_def)
  moreover have "dby y < n"
    using assms year_of_spec [OF assms(1)] by (auto simp: ord2ymd_def Let_def split: prod.splits)
  ultimately show False using assms(2) by simp
qed

subsection \<open>Values\<close>

datatype tzinfo = ZoneInfo string | FixedTz int

record datetime =
  wall :: int
  tz :: "tzinfo option"

type_synonym zone_db = "string \<Rightarrow> int \<Rightarrow> int"

abbreviation us_per_day :: int where
  "us_per_day \<equiv> 86400000000"

definition wall_ok :: "int \<Rightarrow> bool" where
  "wall_ok w \<longleftrightarrow> 0 \<le> w \<and> w < 3652059 * us_per_day"

definition naive :: "int \<Rightarrow> datetime" where
  "naive w = \<lparr>wall = w, tz = None\<rparr>"

text \<open>\<open>datetime.utcoffset()\<close> in seconds.\<close>

definition utcoffset :: "zone_db \<Rightarrow> datetime \<Rightarrow> int option" where
  "utcoffset zone d = (case tz d of
       None \<Rightarrow> None
     | Some (FixedTz o') \<Rightarrow> Some o'
     | Some (ZoneInfo k) \<Rightarrow> Some (zone k (wall d)))"

text \<open>\<open>d + timedelta(microseconds=us)\<close>\<close>

definition dt_add :: "datetime \<Rightarrow> int \<Rightarrow> datetime result" where
  "dt_add d us = (if wall_ok (wall d + us) then Inr (d\<lparr>wall := wall d + us\<rparr>)
     else Inl (OverflowError ''date value out of range''))"

text \<open>\<open>d.timestamp()\<close> in seconds; \<open>local\<close> is the offset of the host's time zone, used for naive values.\<close>

definition py_timestamp :: "zone_db \<Rightarrow> (int \<Rightarrow> int) \<Rightarrow> datetime \<Rightarrow> rat" where
  "py_timestamp zone local d = of_int (wall d - 719162 * us_per_day) / 1000000 -
     of_int (case utcoffset zone d of Some x \<Rightarrow> x | None \<Rightarrow> local (wall d))"

text \<open>\<open>timedelta(seconds=n)\<close> in microseconds; its days are limited to 999999999 either way.\<close>

definition timedelta_seconds :: "int \<Rightarrow> int result" where
  "timedelta_seconds n = (if \<bar>n div 86400\<bar> \<le> 999999999 then Inr (n * 1000000)
     else Inl (OverflowError ''days must have magnitude <= 999999999''))"

text \<open>\<open>a >= b\<close>: the wall clocks when the zones are equal or both absent, the instants otherwise; naive against
  aware raises.\<close>

definition dt_ge :: "zone_db \<Rightarrow> datetime \<Rightarrow> datetime \<Rightarrow> bool result" where
  "dt_ge zone a b =
     (if tz a = tz b then Inr (wall b \<le> wall a)
      else case (utcoffset zone a, utcoffset zone b) of
             (Some x, Some y) \<Rightarrow> Inr (wall b - y * 1000000 \<le> wall a - x * 1000000)
           | _ \<Rightarrow> Inl (TypeError ''can't compare offset-naive and offset-aware datetimes''))"

subsection \<open>\<open>isoformat\<close>\<close>

definition two :: "int \<Rightarrow> string" where
  "two n = pad 2 (nat n)"

definition date_text :: "int \<Rightarrow> string" where
  "date_text n = (case ord2ymd n of (y, m, d) \<Rightarrow>
     pad 4 (nat y) @ CHR ''-'' # two (int m) @ CHR ''-'' # two d)"

definition time_text :: "int \<Rightarrow> string" where
  "time_text us = (let s = us div 1000000; f = us mod 1000000 in
     two (s div 3600) @ CHR '':'' # two (s div 60 mod 60) @ CHR '':'' # two (s mod 60) @
     (if f = 0 then [] else CHR ''.'' # pad 6 (nat f)))"

fun offset_text :: "int option \<Rightarrow> string" where
  "offset_text None = []"
| "offset_text (Some o') = (let a = \<bar>o'\<bar> in
     (if o' < 0 then CHR ''-'' else CHR ''+'') # two (a div 3600) @ CHR '':'' # two (a div 60 mod 60) @
     (if a mod 60 = 0 then [] else CHR '':'' # two (a mod 60)))"

definition isoformat :: "zone_db \<Rightarrow> datetime \<Rightarrow> string" where
  "isoformat zone d = date_text (wall d div us_per_day + 1) @ CHR ''T'' #
     time_text (wall d mod us_per_day) @ offset_text (utcoffset zone d)"

subsection \<open>\<open>fromisoformat\<close>\<close>

definition p_digits :: "nat \<Rightarrow> string \<Rightarrow> (int \<times> string) option" where
  "p_digits w s = (if w \<le> length s \<and> list_all is_ascii_digit (take w s)
     then Some (int (digits_val (take w s)), drop w s) else None)"

definition p_char :: "char \<Rightarrow> string \<Rightarrow> string option" where
  "p_char c s = (case s of d # t \<Rightarrow> if d = c then Some t else None | [] \<Rightarrow> None)"

definition p_date :: "string \<Rightarrow> ((int \<times> int \<times> int) \<times> string) option" where
  "p_date s = Option.bind (p_digits 4 s) (\<lambda>(y, s1). Option.bind (p_char (CHR ''-'') s1) (\<lambda>s2.
     Option.bind (p_digits 2 s2) (\<lambda>(m, s3). Option.bind (p_char (CHR ''-'') s3) (\<lambda>s4.
     Option.bind (p_digits 2 s4) (\<lambda>(d, s5). Some ((y, m, d), s5))))))"

text \<open>The fraction digits: the first six, scaled, and the rest must be digits.\<close>

definition p_fraction :: "string \<Rightarrow> int option" where
  "p_fraction f = (if f \<noteq> [] \<and> list_all is_ascii_digit f
     then Some (int (digits_val (take 6 f)) * 10 ^ (6 - length (take 6 f))) else None)"

definition p_sec :: "string \<Rightarrow> (int \<times> int) option" where
  "p_sec s = Option.bind (p_digits 2 s) (\<lambda>(x, r). case r of
       [] \<Rightarrow> Some (x, 0)
     | c # f \<Rightarrow> if c = CHR ''.'' \<or> c = CHR '','' then map_option (Pair x) (p_fraction f) else None)"

definition p_hms :: "string \<Rightarrow> (int \<times> int \<times> int \<times> int) option" where
  "p_hms s = Option.bind (p_digits 2 s) (\<lambda>(h, r). case r of
       [] \<Rightarrow> Some (h, 0, 0, 0)
     | _ \<Rightarrow> Option.bind (p_char (CHR '':'') r) (\<lambda>r1. Option.bind (p_digits 2 r1) (\<lambda>(m, r2). case r2 of
             [] \<Rightarrow> Some (h, m, 0, 0)
           | _ \<Rightarrow> Option.bind (p_char (CHR '':'') r2) (\<lambda>r3.
                 Option.bind (p_sec r3) (\<lambda>(x, f). Some (h, m, x, f))))))"

text \<open>\<open>_parse_isoformat_time\<close>: where the zone part starts, and its sign.\<close>

definition split_zone :: "string \<Rightarrow> string \<times> (int \<times> string) option" where
  "split_zone t = (case split1 (CHR ''-'') t of
       (a, Some b) \<Rightarrow> (a, Some (-1, b))
     | (_, None) \<Rightarrow> (case split1 (CHR ''+'') t of
           (a, Some b) \<Rightarrow> (a, Some (1, b))
         | (_, None) \<Rightarrow> (case split1 (CHR ''Z'') t of
               (a, Some b) \<Rightarrow> (a, Some (if b = [] then 0 else 1, b))
             | (_, None) \<Rightarrow> (t, None))))"

definition p_zone :: "int \<times> string \<Rightarrow> tzinfo option" where
  "p_zone sz = (case sz of (sign, z) \<Rightarrow>
     if sign = 0 then Some (FixedTz 0)
     else Option.bind (p_hms z) (\<lambda>(h, m, x, f).
       if f \<noteq> 0 \<or> 86400 \<le> h * 3600 + m * 60 + x then None
       else Some (FixedTz (sign * (h * 3600 + m * 60 + x)))))"

definition p_time :: "string \<Rightarrow> ((int \<times> int \<times> int \<times> int) \<times> tzinfo option) option" where
  "p_time t = (case split_zone t of
       (u, None) \<Rightarrow> map_option (\<lambda>c. (c, None)) (p_hms u)
     | (u, Some sz) \<Rightarrow> Option.bind (p_hms u) (\<lambda>c. map_option (\<lambda>z. (c, Some z)) (p_zone sz)))"

text \<open>\<open>datetime(year, month, day, hour, minute, second, microsecond, tzinfo)\<close>\<close>

definition mk_datetime ::
  "int \<times> int \<times> int \<Rightarrow> int \<times> int \<times> int \<times> int \<Rightarrow> tzinfo option \<Rightarrow> datetime option" where
  "mk_datetime ymd hms z = (case ymd of (y, m, d) \<Rightarrow> case hms of (h, mi, x, f) \<Rightarrow>
     if 1 \<le> y \<and> y \<le> 9999 \<and> 1 \<le> m \<and> m \<le> 12 \<and> 1 \<le> d \<and> d \<le> mdays y (nat m)
        \<and> h < 24 \<and> mi < 60 \<and> x < 60
     then Some \<lparr>wall = ((ymd2ord y (nat m) d - 1) * 86400 + h * 3600 + mi * 60 + x) * 1000000 + f,
       tz = z\<rparr>
     else None)"

definition fromisoformat :: "string \<Rightarrow> datetime result" where
  "fromisoformat s =
     (case Option.bind (p_date s) (\<lambda>(ymd, r). case r of
          [] \<Rightarrow> mk_datetime ymd (0, 0, 0, 0) None
        | c # t \<Rightarrow> if t = [] then mk_datetime ymd (0, 0, 0, 0) None
            else Option.bind (p_time t) (\<lambda>(hms, z). mk_datetime ymd hms z)) of
        None \<Rightarrow> Inl (ValueError (''Invalid isoformat string: '' @ s))
      | Some d \<Rightarrow> Inr d)"

subsection \<open>The round trip\<close>

lemma p_digits_pad: "n < 10 ^ w \<Longrightarrow> p_digits w (pad w n @ r) = Some (int n, r)"
  by (simp add: p_digits_def pad_digits digits_val_pad)

lemma p_digits_two: "0 \<le> n \<Longrightarrow> n < 100 \<Longrightarrow> p_digits 2 (two n @ r) = Some (n, r)"
  using p_digits_pad [of "nat n" 2 r] by (simp add: two_def nat_less_iff)

lemma p_digits_two0: "0 \<le> n \<Longrightarrow> n < 100 \<Longrightarrow> p_digits 2 (two n) = Some (n, [])"
  using p_digits_two [of n "[]"] by simp

lemma p_char_Cons [simp]: "p_char c (c # r) = Some r"
  by (simp add: p_char_def)

lemma p_date_text:
  assumes "1 \<le> n" and "n \<le> 3652059" and "ord2ymd n = (y, m, d)"
  shows "p_date (date_text n @ r) = Some ((y, int m, d), r)"
proof -
  note sp = ord2ymd_spec [OF assms(1,3)] ord2ymd_year_bound [OF assms]
  have "d \<le> 31" using sp mdays_le [of y m] by linarith
  moreover have "p_digits 4 (pad 4 (nat y) @ q) = Some (y, q)" for q
    using p_digits_pad [of "nat y" 4 q] sp by (simp add: nat_less_iff)
  ultimately show ?thesis using sp by (simp add: p_date_def date_text_def assms(3) p_digits_two)
qed

lemma p_fraction_pad: "0 \<le> f \<Longrightarrow> f < 1000000 \<Longrightarrow> p_fraction (pad 6 (nat f)) = Some f"
proof -
  assume "0 \<le> f" "f < 1000000"
  then have v: "digits_val (pad 6 (nat f)) = nat f" by (intro digits_val_pad) (simp add: nat_less_iff)
  have "pad 6 (nat f) \<noteq> []" using length_pad [of 6 "nat f"] by (metis list.size(3) zero_neq_numeral)
  with v \<open>0 \<le> f\<close> show ?thesis by (simp add: p_fraction_def pad_digits)
qed

lemma mod60 [simp]: "0 \<le> a mod 60" "a mod 60 < (100 :: int)"
  using pos_mod_sign [of 60 a] pos_mod_bound [of 60 a] by linarith+

lemma p_hms_time_text:
  assumes "0 \<le> us" and "us < us_per_day"
  shows "p_hms (time_text us) = Some (us div 1000000 div 3600, us div 1000000 div 60 mod 60,
    us div 1000000 mod 60, us mod 1000000)"
proof -
  define s where "s = us div 1000000"
  have s: "0 \<le> s" "s < 86400" using assms by (auto simp: s_def pos_imp_zdiv_nonneg_iff)
  then have h: "0 \<le> s div 3600" "s div 3600 < 100" by (auto simp: pos_imp_zdiv_nonneg_iff)
  have f: "0 \<le> us mod 1000000" "us mod 1000000 < 1000000" by simp_all
  show ?thesis
    by (simp add: p_hms_def time_text_def Let_def s_def [symmetric] p_digits_two p_digits_two0 h p_sec_def
        p_fraction_pad [OF f])
qed

lemma pad_no_char: "\<not> is_ascii_digit c \<Longrightarrow> c \<notin> set (pad w n)"
  using pad_digits [of w n] by (auto simp: list_all_iff)

lemma zone_chars [simp]: "\<not> is_ascii_digit (CHR ''-'')" "\<not> is_ascii_digit (CHR ''+'')"
  "\<not> is_ascii_digit (CHR ''Z'')"
  by code_simp+

lemma time_text_no_zone:
  "CHR ''-'' \<notin> set (time_text us)" "CHR ''+'' \<notin> set (time_text us)" "CHR ''Z'' \<notin> set (time_text us)"
  by (auto simp: time_text_def Let_def two_def pad_no_char)

lemma split_zone_None: "split_zone (time_text us) = (time_text us, None)"
  by (simp add: split_zone_def split1_absent time_text_no_zone)

lemma split_zone_minus: "split_zone (time_text us @ CHR ''-'' # r) = (time_text us, Some (-1, r))"
  by (simp add: split_zone_def split1_append time_text_no_zone)

lemma split_zone_plus: "CHR ''-'' \<notin> set r \<Longrightarrow>
    split_zone (time_text us @ CHR ''+'' # r) = (time_text us, Some (1, r))"
  by (simp add: split_zone_def split1_append split1_absent time_text_no_zone)

definition offset_body :: "int \<Rightarrow> string" where
  "offset_body a = two (a div 3600) @ CHR '':'' # two (a div 60 mod 60) @
     (if a mod 60 = 0 then [] else CHR '':'' # two (a mod 60))"

lemma p_hms_offset_body:
  assumes "0 \<le> a" and "a < 86400"
  shows "p_hms (offset_body a) = Some (a div 3600, a div 60 mod 60, a mod 60, 0)"
proof -
  have h: "0 \<le> a div 3600" "a div 3600 < 100" using assms by (auto simp: pos_imp_zdiv_nonneg_iff)
  show ?thesis
    by (simp add: p_hms_def offset_body_def p_digits_two p_digits_two0 h p_sec_def)
qed

lemma hms_sum: "a div 3600 * 3600 + a div 60 mod 60 * 60 + a mod 60 = (a :: int)"
proof -
  have "a div 60 div 60 = a div 3600" by (simp add: zdiv_zmult2_eq [symmetric])
  then show ?thesis using div_mult_mod_eq [of "a div 60" 60] div_mult_mod_eq [of a 60] by linarith
qed

lemma p_zone_offset_body:
  assumes "0 \<le> a" and "a < 86400" and "sign \<noteq> 0"
  shows "p_zone (sign, offset_body a) = Some (FixedTz (sign * a))"
  using assms by (simp add: p_zone_def p_hms_offset_body hms_sum)

lemma offset_body_no_minus: "CHR ''-'' \<notin> set (offset_body a)"
  by (auto simp: offset_body_def two_def pad_no_char)

lemma p_time_text:
  assumes "0 \<le> us" and "us < us_per_day" and "\<forall>x. off = Some x \<longrightarrow> \<bar>x\<bar> < 86400"
  shows "p_time (time_text us @ offset_text off) = Some ((us div 1000000 div 3600,
    us div 1000000 div 60 mod 60, us div 1000000 mod 60, us mod 1000000), map_option FixedTz off)"
proof (cases off)
  case None
  then show ?thesis by (simp add: p_time_def split_zone_None p_hms_time_text assms)
next
  case (Some x)
  have ot: "offset_text off = (if x < 0 then CHR ''-'' else CHR ''+'') # offset_body \<bar>x\<bar>"
    by (simp add: Some Let_def offset_body_def)
  have a: "0 \<le> \<bar>x\<bar>" "\<bar>x\<bar> < 86400" using assms(3) Some by simp_all
  have pz: "x < 0 \<Longrightarrow> p_zone (-1, offset_body (- x)) = Some (FixedTz x)"
    "\<not> x < 0 \<Longrightarrow> p_zone (1, offset_body x) = Some (FixedTz x)"
    using p_zone_offset_body [OF a, of "-1"] p_zone_offset_body [OF a, of 1] by simp_all
  show ?thesis
    unfolding ot
    by (simp add: p_time_def split_zone_minus split_zone_plus offset_body_no_minus
        p_hms_time_text assms(1,2) pz Some)
qed

lemma time_text_nonempty [simp]: "time_text us \<noteq> []"
  by (simp add: time_text_def Let_def)

text \<open>The wall clock comes back; the zone comes back as its offset, never as a \<open>ZoneInfo\<close>.\<close>

theorem fromisoformat_isoformat:
  assumes "wall_ok (wall d)" and "\<forall>x. utcoffset zone d = Some x \<longrightarrow> \<bar>x\<bar> < 86400"
  shows "fromisoformat (isoformat zone d) =
    Inr \<lparr>wall = wall d, tz = map_option FixedTz (utcoffset zone d)\<rparr>"
proof -
  define n where "n = wall d div us_per_day + 1"
  define us where "us = wall d mod us_per_day"
  have n: "1 \<le> n" "n \<le> 3652059"
    using assms(1) by (auto simp: n_def wall_ok_def pos_imp_zdiv_nonneg_iff)
  have us: "0 \<le> us" "us < us_per_day" by (simp_all add: us_def)
  obtain y m d' where ymd: "ord2ymd n = (y, m, d')" by (cases "ord2ymd n")
  note sp = ord2ymd_spec [OF n(1) ymd] ord2ymd_year_bound [OF n ymd]
  define s where "s = us div 1000000"
  have s: "0 \<le> s" "s < 86400" using us by (auto simp: s_def pos_imp_zdiv_nonneg_iff)
  have r: "s div 3600 < 24" "s div 60 mod 60 < 60" "s mod 60 < 60" using s by auto
  have w: "((n - 1) * 86400 + s div 3600 * 3600 + s div 60 mod 60 * 60 + s mod 60) * 1000000 + us mod 1000000 = wall d"
    (is "?l = _")
  proof -
    have "?l = (n - 1) * us_per_day + (s * 1000000 + us mod 1000000)"
      using hms_sum [of s] by (simp add: algebra_simps)
    also have "\<dots> = (n - 1) * us_per_day + us" using div_mult_mod_eq [of us 1000000] by (simp add: s_def)
    also have "\<dots> = wall d" using div_mult_mod_eq [of "wall d" us_per_day] by (simp add: n_def us_def)
    finally show ?thesis .
  qed
  have iso: "isoformat zone d =
      date_text n @ CHR ''T'' # time_text us @ offset_text (utcoffset zone d)"
    by (simp add: isoformat_def n_def us_def)
  have mk: "mk_datetime (y, int m, d') (s div 3600, s div 60 mod 60, s mod 60, us mod 1000000) z =
      Some \<lparr>wall = wall d, tz = z\<rparr>" for z
    using sp r w by (simp add: mk_datetime_def)
  show ?thesis
    unfolding iso fromisoformat_def
    using p_time_text [OF us assms(2)] mk
    by (simp add: p_date_text [OF n ymd] s_def)
qed

corollary fromisoformat_isoformat_naive:
  "wall_ok w \<Longrightarrow> fromisoformat (isoformat zone (naive w)) = Inr (naive w)"
  using fromisoformat_isoformat [of "naive w" zone] by (simp add: naive_def utcoffset_def)

end
