(* ===== verification/Scheduler.thy ===== *)
theory Scheduler
  imports Redis JsonRound Datetime "HOL-Library.Multiset"
begin

section \<open>The scheduler (\<open>scheduler.py\<close>)\<close>

text \<open>
  \<open>SchedulerService\<close> keeps one JSON document per source in the store it is given and calls the
  dispatch function it is given. Each method is one definition over \<open>kv_ops\<close>, the dispatch call and
  the tz database; the document is a \<open>pyval\<close> that is read with \<open>loads\<close>, indexed and updated as the
  code does, and written with \<open>dumps\<close>, every exception included.

  The contract is the abstract schedule \<open>entry\<close> (interval, paused flag, next run, last dispatch) with
  \<open>entry_tick\<close>; the lemmas show that the methods implement it on the stored documents, that a source is
  dispatched at most once per interval whatever calls fail, and that sources do not affect each other.
\<close>

subsection \<open>Decisions\<close>

record SchedulerState =
  next_run_at' :: datetime
  paused' :: bool

definition next_run_at :: "datetime \<Rightarrow> int \<Rightarrow> datetime result" where
  "next_run_at current interval =
     (if interval < 60 then Inl (ValueError ''interval_seconds must be at least 60'')
      else bindR (timedelta_seconds interval) (dt_add current))"

definition should_dispatch :: "zone_db \<Rightarrow> SchedulerState \<Rightarrow> datetime \<Rightarrow> bool result" where
  "should_dispatch zone st current =
     (if paused' st then Inr False else dt_ge zone current (next_run_at' st))"

definition state_key :: "string \<Rightarrow> string" where
  "state_key source_id = ''scheduler:'' @ source_id"

subsection \<open>Python operations on a loaded document\<close>

text \<open>\<open>d[k]\<close> and \<open>d[k] = v\<close> for a string key: only a dictionary has them.\<close>

definition py_getitem :: "pyval \<Rightarrow> string \<Rightarrow> pyval result" where
  "py_getitem d k = (case d of
       PDict kvs \<Rightarrow> (case map_of kvs k of Some v \<Rightarrow> Inr v | None \<Rightarrow> Inl (KeyError k))
     | _ \<Rightarrow> Inl (TypeError ''value is not subscriptable by a string''))"

definition py_setitem :: "pyval \<Rightarrow> string \<Rightarrow> pyval \<Rightarrow> pyval result" where
  "py_setitem d k v = (case d of
       PDict kvs \<Rightarrow> Inr (PDict (AList.update k v kvs))
     | _ \<Rightarrow> Inl (TypeError ''value does not support item assignment''))"

text \<open>\<open>datetime.fromisoformat(str(v))\<close>: the text of any other value has no ISO form.\<close>

definition fromisoformat_str :: "pyval \<Rightarrow> datetime result" where
  "fromisoformat_str v = (case v of
       PStr s \<Rightarrow> fromisoformat s
     | PInt i \<Rightarrow> fromisoformat (int_text i)
     | _ \<Rightarrow> Inl (ValueError ''Invalid isoformat string''))"

subsection \<open>The service\<close>

definition scheduler_load :: "'s kv_ops \<Rightarrow> string \<Rightarrow> ('s, pyval) py" where
  "scheduler_load ops source_id = bindP (kv_get ops (state_key source_id)) (\<lambda>value.
     case value of
       None \<Rightarrow> raise (KeyError (''Unknown scheduled source: '' @ source_id))
     | Some t \<Rightarrow> liftR (json_loads t))"

definition scheduler_save :: "'s kv_ops \<Rightarrow> string \<Rightarrow> pyval \<Rightarrow> ('s, unit) py" where
  "scheduler_save ops source_id d =
     bindP (liftR (dumps default_style d)) (\<lambda>t. kv_set ops (state_key source_id) t)"

definition scheduler_register :: "'s kv_ops \<Rightarrow> zone_db \<Rightarrow> string \<Rightarrow> int \<Rightarrow> datetime \<Rightarrow> ('s, unit) py" where
  "scheduler_register ops zone source_id interval current =
     bindP (liftR (next_run_at current interval)) (\<lambda>_.
     bindP (liftR (dumps default_style (PDict
       [(''interval'', PInt interval), (''paused'', PBool False), (''next'', PStr (isoformat zone current))])))
     (\<lambda>t. kv_set ops (state_key source_id) t))"

definition register_if_missing :: "'s kv_ops \<Rightarrow> zone_db \<Rightarrow> string \<Rightarrow> int \<Rightarrow> datetime \<Rightarrow> ('s, bool) py" where
  "register_if_missing ops zone source_id interval current =
     bindP (kv_get ops (state_key source_id)) (\<lambda>value.
     if value \<noteq> None then ret False
     else bindP (scheduler_register ops zone source_id interval current) (\<lambda>_. ret True))"

definition scheduler_pause :: "'s kv_ops \<Rightarrow> string \<Rightarrow> bool \<Rightarrow> ('s, unit) py" where
  "scheduler_pause ops source_id paused =
     bindP (scheduler_load ops source_id) (\<lambda>d.
     bindP (liftR (py_setitem d ''paused'' (PBool paused))) (scheduler_save ops source_id))"

definition manual_trigger :: "(string \<Rightarrow> ('s, unit) py) \<Rightarrow> string \<Rightarrow> ('s, unit) py" where
  "manual_trigger dispatch source_id = dispatch source_id"

definition scheduler_next_run :: "'s kv_ops \<Rightarrow> string \<Rightarrow> ('s, datetime) py" where
  "scheduler_next_run ops source_id =
     bindP (scheduler_load ops source_id) (\<lambda>d.
     bindP (liftR (py_getitem d ''next'')) (\<lambda>v. liftR (fromisoformat_str v)))"

definition interval_of :: "pyval \<Rightarrow> int result" where
  "interval_of v = (case v of PInt i \<Rightarrow> Inr i
     | _ \<Rightarrow> Inl (ValueError ''Scheduler interval must be an integer''))"

definition scheduler_tick ::
  "'s kv_ops \<Rightarrow> zone_db \<Rightarrow> (string \<Rightarrow> ('s, unit) py) \<Rightarrow> string \<Rightarrow> datetime \<Rightarrow> ('s, bool) py" where
  "scheduler_tick ops zone dispatch source_id current =
     bindP (scheduler_load ops source_id) (\<lambda>d.
     bindP (liftR (bindR (py_getitem d ''next'') fromisoformat_str)) (\<lambda>nx.
     bindP (liftR (py_getitem d ''paused'')) (\<lambda>p.
     bindP (liftR (should_dispatch zone \<lparr>next_run_at' = nx, paused' = py_bool p\<rparr> current)) (\<lambda>due.
     if \<not> due then ret False
     else
       bindP (liftR (bindR (py_getitem d ''interval'') interval_of)) (\<lambda>i.
       bindP (liftR (next_run_at current i)) (\<lambda>nx'.
       bindP (liftR (py_setitem d ''next'' (PStr (isoformat zone nx')))) (\<lambda>d1.
       bindP (liftR (py_setitem d1 ''last_dispatch'' (PStr (isoformat zone current)))) (\<lambda>d2.
       bindP (scheduler_save ops source_id d2) (\<lambda>_.
       bindP (dispatch source_id) (\<lambda>_. ret True))))))))))"

subsection \<open>The abstract schedule\<close>

text \<open>One source's schedule, with naive wall clocks (\<open>beijing_now\<close> is naive), and its document.\<close>

record entry =
  ent_interval :: int
  ent_paused :: bool
  ent_next :: int
  ent_last :: "int option"

definition iso :: "int \<Rightarrow> string" where
  "iso w = isoformat (\<lambda>_ _. 0) (naive w)"

definition entry_doc :: "entry \<Rightarrow> pyval" where
  "entry_doc e = PDict ([(''interval'', PInt (ent_interval e)), (''paused'', PBool (ent_paused e)),
     (''next'', PStr (iso (ent_next e)))] @
     (case ent_last e of None \<Rightarrow> [] | Some w \<Rightarrow> [(''last_dispatch'', PStr (iso w))]))"

definition entry_text :: "entry \<Rightarrow> string" where
  "entry_text e = (case dumps default_style (entry_doc e) of Inr t \<Rightarrow> t | Inl _ \<Rightarrow> [])"

definition entry_ok :: "entry \<Rightarrow> bool" where
  "entry_ok e \<longleftrightarrow> 60 \<le> ent_interval e \<and> wall_ok (ent_next e)"

definition entry_due :: "entry \<Rightarrow> int \<Rightarrow> bool" where
  "entry_due e w \<longleftrightarrow> \<not> ent_paused e \<and> ent_next e \<le> w"

definition entry_tick :: "entry \<Rightarrow> int \<Rightarrow> entry" where
  "entry_tick e w = (if entry_due e w
     then e\<lparr>ent_next := w + ent_interval e * 1000000, ent_last := Some w\<rparr> else e)"

lemma iso_naive [simp]: "isoformat zone (naive w) = iso w"
  by (simp add: iso_def isoformat_def naive_def utcoffset_def)

lemma fromisoformat_iso [simp]: "wall_ok w \<Longrightarrow> fromisoformat (iso w) = Inr (naive w)"
  unfolding iso_def by (rule fromisoformat_isoformat_naive)

lemma dumps_entry: "dumps default_style (entry_doc e) = Inr (entry_text e)"
proof -
  have i: "items default_style kvs = kvs" for kvs :: "(string \<times> pyval) list"
    by (simp add: items_def default_style_def)
  have "\<exists>t. dumps default_style (entry_doc e) = Inr t"
    by (cases "ent_last e") (simp_all add: entry_doc_def i)
  then show ?thesis by (auto simp: entry_text_def)
qed

lemma loads_entry [simp]: "loads (entry_text e) = Some (entry_doc e)"
proof -
  have "json_wf (entry_doc e)" by (simp add: entry_doc_def split: option.split)
  from loads_dumps [OF style_ok_styles(1) this dumps_entry] show ?thesis
    by (simp add: entry_doc_def default_style_def split: option.split)
qed

lemma json_loads_entry [simp]: "json_loads (entry_text e) = Inr (entry_doc e)"
  by (simp add: json_loads_def)

lemma entry_fields [simp]:
  "py_getitem (entry_doc e) ''interval'' = Inr (PInt (ent_interval e))"
  "py_getitem (entry_doc e) ''paused'' = Inr (PBool (ent_paused e))"
  "py_getitem (entry_doc e) ''next'' = Inr (PStr (iso (ent_next e)))"
  by (simp_all add: py_getitem_def entry_doc_def)

lemma entry_setitem [simp]:
  "py_setitem (entry_doc e) ''paused'' (PBool b) = Inr (entry_doc (e\<lparr>ent_paused := b\<rparr>))"
  "py_setitem (entry_doc e) ''next'' (PStr (iso w)) = Inr (entry_doc (e\<lparr>ent_next := w\<rparr>))"
  "py_setitem (entry_doc e) ''last_dispatch'' (PStr (iso w)) = Inr (entry_doc (e\<lparr>ent_last := Some w\<rparr>))"
  by (simp_all add: py_setitem_def entry_doc_def split: option.split)

lemma should_dispatch_naive [simp]:
  "should_dispatch zone \<lparr>next_run_at' = naive n, paused' = p\<rparr> (naive w) = Inr (\<not> p \<and> n \<le> w)"
  by (simp add: should_dispatch_def dt_ge_def naive_def)

lemma fromisoformat_str_Str [simp]: "fromisoformat_str (PStr s) = fromisoformat s"
  by (simp add: fromisoformat_str_def)

lemma interval_of_Int [simp]: "interval_of (PInt i) = Inr i"
  by (simp add: interval_of_def)

lemma next_run_at_naive: "60 \<le> i \<Longrightarrow> wall_ok w \<Longrightarrow> wall_ok (w + i * 1000000) \<Longrightarrow>
    next_run_at (naive w) i = Inr (naive (w + i * 1000000))"
proof -
  assume a: "60 \<le> i" "wall_ok w" "wall_ok (w + i * 1000000)"
  have "i * 1000000 < 3652059 * us_per_day" using a by (simp add: wall_ok_def)
  then have "\<bar>i div 86400\<bar> \<le> 999999999" using a(1) by (auto simp: abs_le_iff)
  with a show ?thesis by (simp add: next_run_at_def timedelta_seconds_def dt_add_def naive_def)
qed

lemma state_key_inj [simp]: "state_key a = state_key b \<longleftrightarrow> a = b"
  by (simp add: state_key_def)

subsection \<open>The environment of the service\<close>

text \<open>The store and the dispatch call: \<open>sent\<close> is the multiset of the source ids handed over so
  far. A dispatch does not touch the scheduler's keys; one that raises may or may not have been
  delivered.\<close>

locale scheduler_env = kv_store ops view up
  for ops :: "'s kv_ops" and view and up +
  fixes dispatch :: "string \<Rightarrow> ('s, unit) py"
    and sent :: "'s \<Rightarrow> string multiset"
  assumes get_sent: "kv_get ops k s = (r, t) \<Longrightarrow> sent t = sent s"
    and set_sent: "kv_set ops k v s = (r', t) \<Longrightarrow> sent t = sent s"
    and dispatch_view: "dispatch sid s = (r', t) \<Longrightarrow> view t = view s"
    and dispatch_Inr: "dispatch sid s = (Inr u, t) \<Longrightarrow> sent t = add_mset sid (sent s)"
    and dispatch_Inl: "dispatch sid s = (Inl e, t) \<Longrightarrow>
      is_Exception e \<and> (sent t = sent s \<or> sent t = add_mset sid (sent s))"
    and dispatch_up: "up s \<Longrightarrow> \<exists>u t. dispatch sid s = (Inr u, t) \<and> up t"

context kv_store
begin

lemma load_cases:
  assumes "scheduler_load ops sid s = (r, t)"
  shows "view t = view s" and "r = Inr d \<Longrightarrow> \<exists>x. view s (state_key sid) = Some x \<and> json_loads x = Inr d"
proof -
  obtain g u where g: "kv_get ops (state_key sid) s = (g, u)" by (cases "kv_get ops (state_key sid) s")
  show "view t = view s"
    using assms g get_view [OF g] by (cases g) (auto simp: scheduler_load_def split: option.splits)
  show "r = Inr d \<Longrightarrow> \<exists>x. view s (state_key sid) = Some x \<and> json_loads x = Inr d"
    using assms g get_Inr [of "state_key sid" s _ u]
    by (cases g) (auto simp: scheduler_load_def split: option.splits)
qed

lemma load_entry:
  assumes "view s (state_key sid) = Some (entry_text e)" and "scheduler_load ops sid s = (r, t)"
  shows "r = Inr (entry_doc e) \<or> isl r"
  using load_cases(2) [OF assms(2)] assms(1) by (cases r) auto

lemma load_up:
  assumes "up s" and "view s (state_key sid) = Some (entry_text e)"
  obtains t where "scheduler_load ops sid s = (Inr (entry_doc e), t)" and "view t = view s" and "up t"
proof -
  obtain t where "kv_get ops (state_key sid) s = (Inr (view s (state_key sid)), t)" "view t = view s" "up t"
    using get_upE [OF assms(1)] .
  with assms(2) that show ?thesis by (simp add: scheduler_load_def)
qed

lemma save_entry: "scheduler_save ops sid (entry_doc e) = kv_set ops (state_key sid) (entry_text e)"
  by (simp add: scheduler_save_def dumps_entry)

lemma save_entry_cases:
  assumes "scheduler_save ops sid (entry_doc e) s = (r, t)"
  shows "view t = (view s)(state_key sid \<mapsto> entry_text e) \<or> isl r \<and> view t = view s"
  using assms set_Inr set_Inl unfolding save_entry by (cases r) fastforce+

end

context scheduler_env
begin

lemma load_sent: "scheduler_load ops sid s = (r, t) \<Longrightarrow> sent t = sent s"
  using get_sent by (cases "kv_get ops (state_key sid) s"; cases "fst (kv_get ops (state_key sid) s)")
    (fastforce simp: scheduler_load_def split: option.splits)+

lemma save_entry_sent: "scheduler_save ops sid (entry_doc e) s = (r, t) \<Longrightarrow> sent t = sent s"
  using set_sent unfolding save_entry by blast

lemma dispatch_sent: "dispatch sid s = (r, t) \<Longrightarrow> r = Inr u \<and> sent t = add_mset sid (sent s) \<or>
    isl r \<and> (sent t = sent s \<or> sent t = add_mset sid (sent s))"
  using dispatch_Inr dispatch_Inl by (cases r) fastforce+

text \<open>What one tick on a stored entry can do, whatever the store and the dispatch do.\<close>

definition tick_outcome :: "string \<Rightarrow> entry \<Rightarrow> int \<Rightarrow> 's \<Rightarrow> bool result \<Rightarrow> 's \<Rightarrow> bool" where
  "tick_outcome sid e w s r t \<longleftrightarrow>
     (view t = view s \<and> sent t = sent s \<and> (r = Inr False \<and> \<not> entry_due e w \<or> isl r)) \<or>
     (entry_due e w \<and> view t = (view s)(state_key sid \<mapsto> entry_text (entry_tick e w)) \<and>
       (isl r \<and> sent t = sent s \<or> (r = Inr True \<or> isl r) \<and> sent t = add_mset sid (sent s)))"

lemma tick_cases:
  assumes e: "view s (state_key sid) = Some (entry_text e)" and ok: "entry_ok e" and w: "wall_ok w"
    and t: "scheduler_tick ops zone dispatch sid (naive w) s = (r, t)"
  shows "tick_outcome sid e w s r t"
proof -
  obtain l s1 where l: "scheduler_load ops sid s = (l, s1)" by (cases "scheduler_load ops sid s")
  note l1 = load_cases(1) [OF l] load_sent [OF l]
  show ?thesis
  proof (cases l)
    case (Inl x)
    with t l l1 show ?thesis by (auto simp: scheduler_tick_def tick_outcome_def)
  next
    case (Inr d)
    then have d: "d = entry_doc e" using load_entry [OF e l] by auto
    have n: "wall_ok (ent_next e)" "60 \<le> ent_interval e" using ok by (simp_all add: entry_ok_def)
    show ?thesis
    proof (cases "entry_due e w")
      case False
      with t l l1 Inr d n show ?thesis
        by (auto simp: scheduler_tick_def tick_outcome_def entry_due_def)
    next
      case due: True
      show ?thesis
      proof (cases "next_run_at (naive w) (ent_interval e)")
        case (Inl x)
        with t l l1 Inr d n due show ?thesis
          by (auto simp: scheduler_tick_def tick_outcome_def entry_due_def)
      next
        case (Inr nx)
        then have nx: "nx = naive (w + ent_interval e * 1000000)"
          by (auto simp: next_run_at_def timedelta_seconds_def dt_add_def naive_def split: if_splits)
        obtain sv s2 where sv: "scheduler_save ops sid (entry_doc (entry_tick e w)) s1 = (sv, s2)"
          by (cases "scheduler_save ops sid (entry_doc (entry_tick e w)) s1")
        note s2 = save_entry_cases [OF sv] save_entry_sent [OF sv]
        have tick: "scheduler_tick ops zone dispatch sid (naive w) s =
            bindP (scheduler_save ops sid (entry_doc (entry_tick e w))) (\<lambda>_. bindP (dispatch sid) (\<lambda>_. ret True)) s1"
          using l \<open>l = Inr d\<close> d n due Inr nx by (simp add: scheduler_tick_def entry_due_def entry_tick_def)
        show ?thesis
        proof (cases sv)
          case (Inl x)
          with t tick sv s2 l1 due show ?thesis by (auto simp: tick_outcome_def)
        next
          case (Inr u)
          obtain dr s3 where dr: "dispatch sid s2 = (dr, s3)" by (cases "dispatch sid s2")
          have "r = (case dr of Inl x \<Rightarrow> Inl x | Inr _ \<Rightarrow> Inr True)" "t = s3"
            using t tick sv Inr dr by (cases dr; auto)+
          then show ?thesis
            using dispatch_sent [OF dr] dispatch_view [OF dr] s2 l1 due Inr
            by (auto simp: tick_outcome_def split: sum.splits)
        qed
      qed
    qed
  qed
qed

text \<open>When the store answers and the next run is a valid date, the tick is the abstract one.\<close>

lemma tick_up:
  assumes e: "view s (state_key sid) = Some (entry_text e)" and ok: "entry_ok e" and w: "wall_ok w"
    and up: "up s" and nx: "wall_ok (w + ent_interval e * 1000000)"
  shows "\<exists>t. scheduler_tick ops zone dispatch sid (naive w) s = (Inr (entry_due e w), t) \<and> up t \<and>
    view t = (view s)(state_key sid \<mapsto> entry_text (entry_tick e w)) \<and>
    sent t = (if entry_due e w then add_mset sid (sent s) else sent s)"
proof -
  have n: "wall_ok (ent_next e)" "60 \<le> ent_interval e" using ok by (simp_all add: entry_ok_def)
  obtain s1 where l: "scheduler_load ops sid s = (Inr (entry_doc e), s1)" "view s1 = view s" "up s1"
    using load_up [OF up e] .
  note l1 = load_sent [OF l(1)]
  show ?thesis
  proof (cases "entry_due e w")
    case False
    moreover have "(view s)(state_key sid \<mapsto> entry_text e) = view s" using e by auto
    ultimately show ?thesis
      using l l1 n by (auto simp: scheduler_tick_def entry_due_def entry_tick_def)
  next
    case True
    obtain s2 where s2: "kv_set ops (state_key sid) (entry_text (entry_tick e w)) s1 = (Inr (), s2)"
      "view s2 = (view s1)(state_key sid \<mapsto> entry_text (entry_tick e w))" "up s2"
      using set_upE [OF l(3)] .
    obtain u s3 where s3: "dispatch sid s2 = (Inr u, s3)" "up s3" using dispatch_up [OF s2(3)] by blast
    have "scheduler_tick ops zone dispatch sid (naive w) s = (Inr True, s3)"
      using l n True nx s2 s3 next_run_at_naive [OF n(2) w nx] save_entry [of sid "entry_tick e w"]
      by (simp add: scheduler_tick_def entry_due_def entry_tick_def)
    moreover have "sent s3 = add_mset sid (sent s)"
      using dispatch_Inr [OF s3(1)] set_sent [OF s2(1)] l1 by simp
    ultimately show ?thesis
      using True s3(2) dispatch_view [OF s3(1)] s2(2) l(2) by simp
  qed
qed

end

subsection \<open>Sequences of calls\<close>

text \<open>The public methods, called one after another by the scheduler process (exceptions are seen by the
  caller, which goes on).\<close>

datatype sched_call =
    Tick string datetime
  | Pause string bool
  | NextRun string
  | Register string int datetime
  | RegisterIfMissing string int datetime
  | ManualTrigger string

fun call_source :: "sched_call \<Rightarrow> string" where
  "call_source (Tick sid _) = sid"
| "call_source (Pause sid _) = sid"
| "call_source (NextRun sid) = sid"
| "call_source (Register sid _ _) = sid"
| "call_source (RegisterIfMissing sid _ _) = sid"
| "call_source (ManualTrigger sid) = sid"

fun do_call :: "'s kv_ops \<Rightarrow> zone_db \<Rightarrow> (string \<Rightarrow> ('s, unit) py) \<Rightarrow> sched_call \<Rightarrow> 's \<Rightarrow> 's" where
  "do_call ops zone dispatch (Tick sid current) s = snd (scheduler_tick ops zone dispatch sid current s)"
| "do_call ops zone dispatch (Pause sid p) s = snd (scheduler_pause ops sid p s)"
| "do_call ops zone dispatch (NextRun sid) s = snd (scheduler_next_run ops sid s)"
| "do_call ops zone dispatch (Register sid i current) s = snd (scheduler_register ops zone sid i current s)"
| "do_call ops zone dispatch (RegisterIfMissing sid i current) s =
     snd (register_if_missing ops zone sid i current s)"
| "do_call ops zone dispatch (ManualTrigger sid) s = snd (manual_trigger dispatch sid s)"

text \<open>The calls that neither overwrite the schedule of \<open>sid\<close> nor dispatch it by hand; its ticks come
  before \<open>bound\<close>, or, when the source is held, at any time, and it is not resumed.\<close>

fun quiet_call :: "string \<Rightarrow> bool \<Rightarrow> int \<Rightarrow> sched_call \<Rightarrow> bool" where
  "quiet_call sid held bound (Tick q current) \<longleftrightarrow>
     q \<noteq> sid \<or> (\<exists>w. current = naive w \<and> wall_ok w \<and> (held \<or> w < bound))"
| "quiet_call sid held bound (Pause q p) \<longleftrightarrow> q \<noteq> sid \<or> \<not> held \<or> p"
| "quiet_call sid held bound (Register q _ _) \<longleftrightarrow> q \<noteq> sid"
| "quiet_call sid held bound (ManualTrigger q) \<longleftrightarrow> q \<noteq> sid"
| "quiet_call sid held bound _ \<longleftrightarrow> True"

context scheduler_env
begin

text \<open>Source isolation: the part of the world that belongs to \<open>sid\<close>.\<close>

definition same_for :: "string \<Rightarrow> 's \<Rightarrow> 's \<Rightarrow> bool" where
  "same_for sid s t \<longleftrightarrow> view t (state_key sid) = view s (state_key sid) \<and>
     count (sent t) sid = count (sent s) sid"

lemma same_for_rt [simp]: "reflp (same_for sid)" "transp (same_for sid)"
  by (auto simp: same_for_def reflp_def transp_def)

lemma same_for_ops:
  "keeps (same_for sid) (kv_get ops k)"
  "q \<noteq> sid \<Longrightarrow> keeps (same_for sid) (kv_set ops (state_key q) x)"
  "q \<noteq> sid \<Longrightarrow> keeps (same_for sid) (dispatch q)"
proof -
  show "keeps (same_for sid) (kv_get ops k)"
    using get_view get_sent by (intro keepsI) (simp add: same_for_def)
  show "q \<noteq> sid \<Longrightarrow> keeps (same_for sid) (kv_set ops (state_key q) x)"
    using set_other set_sent by (intro keepsI) (simp add: same_for_def)
  show "q \<noteq> sid \<Longrightarrow> keeps (same_for sid) (dispatch q)"
    using dispatch_view dispatch_sent by (intro keepsI) (fastforce simp: same_for_def)
qed

lemma same_for_load: "keeps (same_for sid) (scheduler_load ops q)"
  unfolding scheduler_load_def by (intro keeps_bindP same_for_ops same_for_rt) (auto intro!: keeps_pure split: option.split)

lemma same_for_save: "q \<noteq> sid \<Longrightarrow> keeps (same_for sid) (scheduler_save ops q d)"
  unfolding scheduler_save_def by (intro keeps_bindP keeps_pure same_for_ops same_for_rt)

lemma same_for_register: "q \<noteq> sid \<Longrightarrow> keeps (same_for sid) (scheduler_register ops zone q i c)"
  unfolding scheduler_register_def by (intro keeps_bindP keeps_pure same_for_ops same_for_rt)

lemma same_for_tick: "q \<noteq> sid \<Longrightarrow> keeps (same_for sid) (scheduler_tick ops zone dispatch q c)"
  unfolding scheduler_tick_def
  by (intro keeps_bindP keeps_pure same_for_ops same_for_load same_for_save same_for_rt)
    (auto intro!: keeps_bindP keeps_pure same_for_ops same_for_save)

lemma do_call_other:
  assumes "call_source c \<noteq> sid"
  shows "same_for sid s (do_call ops zone dispatch c s)"
proof -
  have k: "keeps (same_for sid) m \<Longrightarrow> same_for sid s (snd (m s))" for m :: "('s, 'x) py"
    by (simp add: keeps_def)
  show ?thesis
  proof (cases c)
    case (Tick q d)
    then show ?thesis using assms k [OF same_for_tick] by simp
  next
    case (Pause q p)
    then have "keeps (same_for sid) (scheduler_pause ops q p)"
      unfolding scheduler_pause_def using assms
      by (intro keeps_bindP keeps_pure same_for_load same_for_save same_for_rt) simp_all
    then show ?thesis using Pause k by simp
  next
    case (NextRun q)
    have "keeps (same_for sid) (scheduler_next_run ops q)"
      unfolding scheduler_next_run_def by (intro keeps_bindP keeps_pure same_for_load same_for_rt)
    then show ?thesis using NextRun k by simp
  next
    case (Register q i d)
    then show ?thesis using assms k [OF same_for_register] by simp
  next
    case (RegisterIfMissing q i d)
    then have "keeps (same_for sid) (register_if_missing ops zone q i d)"
      unfolding register_if_missing_def using assms
      by (auto intro!: keeps_bindP keeps_pure same_for_ops same_for_register)
    then show ?thesis using RegisterIfMissing k by simp
  next
    case (ManualTrigger q)
    then show ?thesis using assms k [OF same_for_ops(3)] by (simp add: manual_trigger_def)
  qed
qed

text \<open>The calls of \<open>sid\<close> itself before \<open>bound\<close> keep its entry waiting.\<close>

definition blocks :: "bool \<Rightarrow> int \<Rightarrow> entry \<Rightarrow> bool" where
  "blocks held bound e \<longleftrightarrow> entry_ok e \<and> (if held then ent_paused e else bound \<le> ent_next e)"

definition waits :: "string \<Rightarrow> bool \<Rightarrow> int \<Rightarrow> 's \<Rightarrow> bool" where
  "waits sid held bound s \<longleftrightarrow>
     (\<exists>e. view s (state_key sid) = Some (entry_text e) \<and> blocks held bound e)"

lemma waits_pause:
  assumes "waits sid held bound s" and "held \<Longrightarrow> p" and "scheduler_pause ops sid p s = (r, t)"
  shows "waits sid held bound t \<and> sent t = sent s"
proof -
  from assms(1) obtain e where e: "view s (state_key sid) = Some (entry_text e)" "blocks held bound e"
    by (auto simp: waits_def)
  obtain l s1 where l: "scheduler_load ops sid s = (l, s1)" by (cases "scheduler_load ops sid s")
  note l1 = load_cases(1) [OF l] load_sent [OF l] load_entry [OF e(1) l]
  show ?thesis
  proof (cases l)
    case (Inl x)
    with assms l l1 show ?thesis by (auto simp: scheduler_pause_def waits_def)
  next
    case (Inr d)
    let ?e = "e\<lparr>ent_paused := p\<rparr>"
    have "scheduler_save ops sid (entry_doc ?e) s1 = (r, t)"
      using assms(3) l l1 Inr by (auto simp: scheduler_pause_def)
    with save_entry_cases [OF this] save_entry_sent [OF this] l1 e have
      "sent t = sent s" "view t (state_key sid) = Some (entry_text ?e) \<or> view t (state_key sid) = Some (entry_text e)"
      by auto
    moreover have "blocks held bound ?e" using e assms(2) by (simp add: entry_ok_def blocks_def)
    ultimately show ?thesis using e by (auto simp: waits_def)
  qed
qed

lemma waits_call:
  assumes "waits sid held bound s" and "quiet_call sid held bound c"
  shows "waits sid held bound (do_call ops zone dispatch c s) \<and>
    count (sent (do_call ops zone dispatch c s)) sid = count (sent s) sid"
proof (cases "call_source c = sid")
  case False
  then show ?thesis using do_call_other [OF False, of s zone] assms(1) by (auto simp: same_for_def waits_def)
next
  case True
  from assms(1) obtain e where e: "view s (state_key sid) = Some (entry_text e)" "blocks held bound e"
    by (auto simp: waits_def)
  show ?thesis
  proof (cases c)
    case (Tick q d)
    then obtain w where w: "d = naive w" "wall_ok w" "held \<or> w < bound" using assms(2) True by auto
    have ok: "entry_ok e" using e by (simp add: blocks_def)
    obtain r t where t: "scheduler_tick ops zone dispatch sid d s = (r, t)"
      by (cases "scheduler_tick ops zone dispatch sid d s")
    have "\<not> entry_due e w" using w e by (auto simp: entry_due_def blocks_def split: if_splits)
    with tick_cases [OF e(1) ok w(2) t [unfolded w(1)]] have "view t = view s" "sent t = sent s"
      by (auto simp: tick_outcome_def)
    then show ?thesis using Tick True t assms(1) by (simp add: waits_def)
  next
    case (Pause q p)
    obtain r t where "scheduler_pause ops sid p s = (r, t)" by (cases "scheduler_pause ops sid p s")
    with waits_pause [OF assms(1)] show ?thesis using Pause True assms(2) by fastforce
  next
    case (NextRun q)
    obtain l s1 where l: "scheduler_load ops sid s = (l, s1)" by (cases "scheduler_load ops sid s")
    have "do_call ops zone dispatch c s = s1" using NextRun True l
      by (cases l) (auto simp: scheduler_next_run_def bindP_def split: sum.splits)
    then show ?thesis using load_cases(1) [OF l] load_sent [OF l] assms(1) by (simp add: waits_def)
  next
    case (RegisterIfMissing q i d)
    obtain g s1 where g: "kv_get ops (state_key sid) s = (g, s1)" by (cases "kv_get ops (state_key sid) s")
    have "do_call ops zone dispatch c s = s1" using RegisterIfMissing True g e get_Inr [of "state_key sid" s _ s1]
      by (cases g) (auto simp: register_if_missing_def)
    then show ?thesis using get_view [OF g] get_sent [OF g] assms(1) by (simp add: waits_def)
  qed (use True assms(2) in simp_all)
qed

lemma waits_calls: "waits sid held bound s \<Longrightarrow> \<forall>c \<in> set cs. quiet_call sid held bound c \<Longrightarrow>
    count (sent (fold (do_call ops zone dispatch) cs s)) sid = count (sent s) sid"
proof (induction cs arbitrary: s)
  case Nil
  then show ?case by simp
next
  case (Cons c cs)
  then show ?case using waits_call [of sid held bound s c zone] by simp
qed

lemma dispatching_tick_waits:
  assumes "view s (state_key sid) = Some (entry_text e)" and "entry_ok e" and "wall_ok w"
    and "scheduler_tick ops zone dispatch sid (naive w) s = (r, t)" and "sent t \<noteq> sent s"
    and "wall_ok (w + ent_interval e * 1000000)"
  shows "waits sid False (w + ent_interval e * 1000000) t"
  using tick_cases [OF assms(1-4)] assms(2,5,6)
  by (auto simp: tick_outcome_def waits_def blocks_def entry_tick_def entry_ok_def)

lemma pause_waits:
  assumes "view s (state_key sid) = Some (entry_text e)" and "entry_ok e"
    and "scheduler_pause ops sid True s = (Inr u, t)"
  shows "waits sid True bound t"
proof -
  obtain l s1 where l: "scheduler_load ops sid s = (l, s1)" by (cases "scheduler_load ops sid s")
  note l1 = load_entry [OF assms(1) l]
  have "scheduler_save ops sid (entry_doc (e\<lparr>ent_paused := True\<rparr>)) s1 = (Inr u, t)"
    using assms(3) l l1 by (cases l) (auto simp: scheduler_pause_def)
  then have "view t (state_key sid) = Some (entry_text (e\<lparr>ent_paused := True\<rparr>))"
    using save_entry_cases by fastforce
  moreover have "blocks True bound (e\<lparr>ent_paused := True\<rparr>)" using assms(2) by (simp add: blocks_def entry_ok_def)
  ultimately show ?thesis unfolding waits_def by blast
qed

text \<open>A tick that hands the source over, on any stored document.\<close>

lemma tick_dispatch_justified:
  assumes t: "scheduler_tick ops zone dispatch sid current s = (r, t)" and ne: "sent t \<noteq> sent s"
  shows "\<exists>x kvs nx p i nx'. view s (state_key sid) = Some x \<and> json_loads x = Inr (PDict kvs) \<and>
    bindR (py_getitem (PDict kvs) ''next'') fromisoformat_str = Inr nx \<and>
    map_of kvs ''paused'' = Some p \<and> \<not> py_bool p \<and> dt_ge zone current nx = Inr True \<and>
    map_of kvs ''interval'' = Some (PInt i) \<and> next_run_at current i = Inr nx' \<and>
    (\<exists>y. dumps default_style (PDict (AList.update ''last_dispatch'' (PStr (isoformat zone current))
        (AList.update ''next'' (PStr (isoformat zone nx')) kvs))) = Inr y \<and>
      view t = (view s)(state_key sid \<mapsto> y))"
proof -
  have g: "kv_get ops k u = (r1, v) \<Longrightarrow> sent v = sent u \<and> view v = view u" for k u r1 v
    using get_sent get_view by blast
  obtain l s1 where l: "scheduler_load ops sid s = (l, s1)" by (cases "scheduler_load ops sid s")
  note l1 = load_cases [OF l] load_sent [OF l]
  obtain d where d: "l = Inr d" using t l l1 ne by (cases l) (auto simp: scheduler_tick_def)
  obtain nx where nx: "bindR (py_getitem d ''next'') fromisoformat_str = Inr nx"
    using t l l1 d ne by (cases "bindR (py_getitem d ''next'') fromisoformat_str") (auto simp: scheduler_tick_def)
  then obtain kvs where kvs: "d = PDict kvs" by (cases d) (auto simp: py_getitem_def)
  obtain p where p: "py_getitem d ''paused'' = Inr p"
    using t l l1 d nx ne by (cases "py_getitem d ''paused''") (auto simp: scheduler_tick_def)
  have due: "should_dispatch zone \<lparr>next_run_at' = nx, paused' = py_bool p\<rparr> current = Inr True"
    using t l l1 d nx p ne
    by (cases "should_dispatch zone \<lparr>next_run_at' = nx, paused' = py_bool p\<rparr> current")
      (auto simp: scheduler_tick_def split: if_splits)
  obtain i where i: "bindR (py_getitem d ''interval'') interval_of = Inr i"
    using t l l1 d nx p due ne
    by (cases "bindR (py_getitem d ''interval'') interval_of") (auto simp: scheduler_tick_def)
  obtain nx' where nx': "next_run_at current i = Inr nx'"
    using t l l1 d nx p due i ne by (cases "next_run_at current i") (auto simp: scheduler_tick_def)
  let ?d = "PDict (AList.update ''last_dispatch'' (PStr (isoformat zone current))
        (AList.update ''next'' (PStr (isoformat zone nx')) kvs))"
  have tick: "scheduler_tick ops zone dispatch sid current s =
      bindP (scheduler_save ops sid ?d) (\<lambda>_. bindP (dispatch sid) (\<lambda>_. ret True)) s1"
    using l d nx p due i nx' kvs by (simp add: scheduler_tick_def py_setitem_def)
  obtain y where y: "dumps default_style ?d = Inr y"
    using t tick l1 ne by (cases "dumps default_style ?d") (auto simp: scheduler_save_def)
  obtain k s2 where k: "kv_set ops (state_key sid) y s1 = (k, s2)" by (cases "kv_set ops (state_key sid) y s1")
  have kr: "k = Inr ()" using t tick y k l1 set_sent [OF k] ne by (cases k) (auto simp: scheduler_save_def)
  obtain dr s3 where dr: "dispatch sid s2 = (dr, s3)" by (cases "dispatch sid s2")
  have "t = s3" using t tick y k kr dr by (cases dr) (auto simp: scheduler_save_def)
  then have "view t = (view s)(state_key sid \<mapsto> y)"
    using dispatch_view [OF dr] set_Inr [OF k [unfolded kr]] l1 by simp
  moreover have "\<exists>x. view s (state_key sid) = Some x \<and> json_loads x = Inr (PDict kvs)"
    using l1(2) d kvs by blast
  moreover have "map_of kvs ''paused'' = Some p" "map_of kvs ''interval'' = Some (PInt i)"
    using p i kvs by (auto simp: py_getitem_def interval_of_def split: option.splits pyval.splits)
  moreover have "\<not> py_bool p" "dt_ge zone current nx = Inr True"
    using due by (auto simp: should_dispatch_def split: if_splits)
  ultimately show ?thesis using nx nx' y kvs by blast
qed

lemma register_up:
  assumes "up s" and "next_run_at current i = Inr nx"
  shows "\<exists>t y. scheduler_register ops zone sid i current s = (Inr (), t) \<and> up t \<and>
    dumps default_style (PDict [(''interval'', PInt i), (''paused'', PBool False),
      (''next'', PStr (isoformat zone current))]) = Inr y \<and>
    view t = (view s)(state_key sid \<mapsto> y) \<and> sent t = sent s"
proof -
  have it: "items default_style kvs = kvs" for kvs :: "(string \<times> pyval) list"
    by (simp add: items_def default_style_def)
  obtain y where y: "dumps default_style (PDict [(''interval'', PInt i), (''paused'', PBool False),
      (''next'', PStr (isoformat zone current))]) = Inr y"
    by (simp add: it)
  obtain t where t: "kv_set ops (state_key sid) y s = (Inr (), t)"
    "view t = (view s)(state_key sid \<mapsto> y)" "up t"
    using set_upE [OF assms(1)] .
  with y assms(2) set_sent [OF t(1)] show ?thesis by (auto simp: scheduler_register_def)
qed

end

subsection \<open>The properties\<close>

text \<open>The reference Redis with two broker queues is an environment of the service.\<close>

definition redis_dispatch :: "(string \<Rightarrow> bool) \<Rightarrow> string \<Rightarrow> ('m redis_scheme, unit) py" where
  "redis_dispatch browser sid = command (redis_push (if browser sid then ''browser'' else ''http'') sid)"

definition redis_sent :: "'m redis_scheme \<Rightarrow> string multiset" where
  "redis_sent s = mset (queues s ''http'') + mset (queues s ''browser'')"

lemma redis_push_view [simp]: "redis_view (snd (redis_push q x s)) = redis_view s"
  by (simp add: redis_defs fun_eq_iff)

lemma redis_push_sent: "q \<in> {''http'', ''browser''} \<Longrightarrow>
    redis_sent (snd (redis_push q x s)) = add_mset x (redis_sent s)"
  by (auto simp: redis_sent_def redis_push_def)

lemma redis_sent_simps [simp]: "redis_sent (s\<lparr>faults := fs\<rparr>) = redis_sent s"
  "redis_sent (redis_set k v ex s) = redis_sent s"
  by (simp_all add: redis_sent_def redis_set_def)

interpretation redis_sched: scheduler_env redis_kv redis_view redis_up "redis_dispatch b" redis_sent
  for b :: "string \<Rightarrow> bool"
proof unfold_locales
  fix k v sid and s t :: "'m redis_scheme" and r and r' and u :: unit and e :: exn
  let ?q = "if b sid then ''browser'' else ''http''"
  have q: "redis_sent (snd (redis_push ?q sid s)) = add_mset sid (redis_sent s)"
    by (rule redis_push_sent) simp
  show "kv_get redis_kv k s = (r, t) \<Longrightarrow> redis_sent t = redis_sent s"
    by (cases r) (auto simp: redis_kv_def dest!: command_Inr command_Inl)
  show "kv_set redis_kv k v s = (r', t) \<Longrightarrow> redis_sent t = redis_sent s"
    by (cases r') (auto simp: redis_kv_def dest!: command_Inr command_Inl)
  show "redis_dispatch b sid s = (r', t) \<Longrightarrow> redis_view t = redis_view s"
    by (cases r') (auto simp: redis_dispatch_def dest!: command_Inr command_Inl)
  show "redis_dispatch b sid s = (Inr u, t) \<Longrightarrow> redis_sent t = add_mset sid (redis_sent s)"
    using q by (auto simp: redis_dispatch_def dest!: command_Inr)
  show "redis_dispatch b sid s = (Inl e, t) \<Longrightarrow>
      is_Exception e \<and> (redis_sent t = redis_sent s \<or> redis_sent t = add_mset sid (redis_sent s))"
    using q by (auto simp: redis_dispatch_def dest!: command_Inl)
  show "redis_up s \<Longrightarrow> \<exists>u t. redis_dispatch b sid s = (Inr u, t) \<and> redis_up t"
    by (simp add: redis_dispatch_def command_up redis_up_def redis_push_def)
qed

text \<open>A source registered at 2024-01-01 00:00 with an interval of one minute.\<close>

definition demo_zone :: zone_db where
  "demo_zone = (\<lambda>_ _. 28800)"

definition demo_wall :: int where
  "demo_wall = (ymd2ord 2024 1 1 - 1) * us_per_day"

definition demo_entry :: entry where
  "demo_entry = \<lparr>ent_interval = 60, ent_paused = False, ent_next = demo_wall, ent_last = None\<rparr>"

definition demo_sched :: redis where
  "demo_sched = redis0\<lparr>strings := [state_key ''a'' \<mapsto> (entry_text demo_entry, None)]\<rparr>"

lemma demo_sched_facts:
  "redis_view demo_sched (state_key ''a'') = Some (entry_text demo_entry)" "redis_up demo_sched"
  "entry_ok demo_entry" "wall_ok demo_wall" "wall_ok (demo_wall + 60000000)" "redis_sent demo_sched = {#}"
  "entry_due demo_entry demo_wall" "ent_interval demo_entry = 60"
proof -
  have w: "demo_wall = 63839664000000000" by (simp add: demo_wall_def ymd2ord_def dby_def dbm_def)
  show "redis_view demo_sched (state_key ''a'') = Some (entry_text demo_entry)" "redis_up demo_sched"
    "redis_sent demo_sched = {#}"
    by (simp_all add: demo_sched_def redis_defs redis0_def redis_sent_def)
  show "entry_ok demo_entry" "wall_ok demo_wall" "wall_ok (demo_wall + 60000000)"
    "entry_due demo_entry demo_wall" "ent_interval demo_entry = 60"
    by (simp_all add: demo_entry_def entry_ok_def entry_due_def wall_ok_def w)
qed

text \<open>
  C3: a tick refines the abstract schedule. On a stored entry, with a store and a broker that answer,
  \<open>tick\<close> returns whether the source is due (not paused, next run reached), the stored document becomes
  the document of the entry advanced by one interval from the tick (and is unchanged otherwise), and
  the source is handed over exactly when it was due.
\<close>

theorem tick_refines_schedule:
  assumes "scheduler_env ops view up dispatch sent"
    and "view s (state_key sid) = Some (entry_text e)" and "entry_ok e" and "wall_ok w" and "up s"
    and "wall_ok (w + ent_interval e * 1000000)"
  shows "\<exists>t. scheduler_tick ops zone dispatch sid (naive w) s = (Inr (entry_due e w), t) \<and>
    view t = (view s)(state_key sid \<mapsto> entry_text (entry_tick e w)) \<and>
    sent t = (if entry_due e w then add_mset sid (sent s) else sent s)"
  using scheduler_env.tick_up [OF assms] by blast

theorem tick_refines_schedule_witness:
  "\<exists>t. scheduler_tick redis_kv demo_zone (redis_dispatch (\<lambda>_. False)) ''a'' (naive demo_wall) demo_sched = (Inr True, t) \<and>
    redis_sent t = {#''a''#}"
  using tick_refines_schedule [OF redis_sched.scheduler_env_axioms demo_sched_facts(1,3,4,2), of demo_zone "\<lambda>_. False"]
    demo_sched_facts by auto

text \<open>
  C4: at most one dispatch per interval. Once a tick at \<open>w\<close> has handed the source over, whatever its
  outcome, no sequence of calls of the service hands it over again before \<open>w\<close> plus the interval:
  ticks of it before that time, pauses and resumes, repeated registrations that find a state, and
  anything on other sources, with any store or broker failure in between. Only an explicit
  \<open>register\<close> or \<open>manual_trigger\<close> of the same source is excepted.
\<close>

theorem at_most_one_dispatch_per_interval:
  assumes "scheduler_env ops view up dispatch sent"
    and "view s (state_key sid) = Some (entry_text e)" and "entry_ok e" and "wall_ok w"
    and "scheduler_tick ops zone dispatch sid (naive w) s = (r, t)" and "sent t \<noteq> sent s"
    and "wall_ok (w + ent_interval e * 1000000)"
    and "\<forall>c \<in> set cs. quiet_call sid False (w + ent_interval e * 1000000) c"
  shows "count (sent (fold (do_call ops zone dispatch) cs t)) sid = count (sent t) sid"
  using scheduler_env.waits_calls [OF assms(1) scheduler_env.dispatching_tick_waits [OF assms(1-7)] assms(8)] .

theorem at_most_one_dispatch_per_interval_witness:
  "\<exists>t. scheduler_tick redis_kv demo_zone (redis_dispatch (\<lambda>_. False)) ''a'' (naive demo_wall) demo_sched = (Inr True, t) \<and>
    count (redis_sent (fold (do_call redis_kv demo_zone (redis_dispatch (\<lambda>_. False)))
      [Tick ''a'' (naive (demo_wall + 59000000)), Pause ''a'' True, Pause ''a'' False,
       Tick ''a'' (naive (demo_wall + 59999999))] t)) ''a'' = 1"
proof -
  obtain t where t: "scheduler_tick redis_kv demo_zone (redis_dispatch (\<lambda>_. False)) ''a'' (naive demo_wall) demo_sched = (Inr True, t)"
    "redis_sent t = {#''a''#}"
    using redis_sched.tick_up [OF demo_sched_facts(1,3,4,2), of demo_zone "\<lambda>_. False"] demo_sched_facts by auto
  have w: "wall_ok (demo_wall + 59000000)" "wall_ok (demo_wall + 59999999)"
    using demo_sched_facts(4,5) by (simp_all add: wall_ok_def)
  have "count (redis_sent (fold (do_call redis_kv demo_zone (redis_dispatch (\<lambda>_. False)))
      [Tick ''a'' (naive (demo_wall + 59000000)), Pause ''a'' True, Pause ''a'' False,
       Tick ''a'' (naive (demo_wall + 59999999))] t)) ''a'' = count (redis_sent t) ''a''"
    by (rule at_most_one_dispatch_per_interval [OF redis_sched.scheduler_env_axioms demo_sched_facts(1,3,4) t(1)])
      (use t(2) w demo_sched_facts in \<open>auto simp: naive_def\<close>)
  with t show ?thesis by auto
qed

text \<open>
  a paused source is not dispatched. After \<open>pause(source, True)\<close> has returned, no sequence of
  calls hands the source over until it is resumed, registered again or triggered by hand, at whatever
  times it is ticked and whatever fails.
\<close>

theorem paused_source_not_dispatched:
  assumes "scheduler_env ops view up dispatch sent"
    and "view s (state_key sid) = Some (entry_text e)" and "entry_ok e"
    and "scheduler_pause ops sid True s = (Inr u, t)"
    and "\<forall>c \<in> set cs. quiet_call sid True 0 c"
  shows "count (sent (fold (do_call ops zone dispatch) cs t)) sid = count (sent t) sid"
  using scheduler_env.waits_calls [OF assms(1) scheduler_env.pause_waits [OF assms(1-4)] assms(5)] .

theorem paused_source_not_dispatched_witness:
  "\<exists>t. scheduler_pause redis_kv ''a'' True demo_sched = (Inr (), t) \<and>
    count (redis_sent (fold (do_call redis_kv demo_zone (redis_dispatch (\<lambda>_. False)))
      [Tick ''a'' (naive demo_wall), Tick ''a'' (naive (demo_wall + 60000000))] t)) ''a'' = count (redis_sent t) ''a''"
proof -
  obtain s1 where s1: "scheduler_load redis_kv ''a'' demo_sched = (Inr (entry_doc demo_entry), s1)"
    "redis_view s1 = redis_view demo_sched" "redis_up s1"
    using redis_kv.load_up [OF demo_sched_facts(2,1)] .
  obtain t where t: "kv_set redis_kv (state_key ''a'') (entry_text (demo_entry\<lparr>ent_paused := True\<rparr>)) s1 = (Inr (), t)"
    using redis_kv.set_upE [OF s1(3)] .
  have p: "scheduler_pause redis_kv ''a'' True demo_sched = (Inr (), t)"
    using s1 t by (simp add: scheduler_pause_def redis_kv.save_entry)
  have "count (redis_sent (fold (do_call redis_kv demo_zone (redis_dispatch (\<lambda>_. False)))
      [Tick ''a'' (naive demo_wall), Tick ''a'' (naive (demo_wall + 60000000))] t)) ''a'' = count (redis_sent t) ''a''"
    by (rule paused_source_not_dispatched [OF redis_sched.scheduler_env_axioms demo_sched_facts(1,3) p])
      (use demo_sched_facts(4,5) in \<open>auto simp: naive_def\<close>)
  with p show ?thesis by auto
qed

text \<open>
  a dispatch is always justified and recorded first. Whatever text is stored for the source and
  whatever fails, if a tick has handed the source over, the stored document was a JSON object with an
  integer interval of at least 60 seconds, a parseable next run that \<open>current\<close> has reached and a
  falsy paused field, and the document with the advanced next run and the last dispatch has been
  written, all other fields and keys being kept.
\<close>

theorem dispatch_justified_and_recorded:
  assumes "scheduler_env ops view up dispatch sent"
    and "scheduler_tick ops zone dispatch sid current s = (r, t)" and "sent t \<noteq> sent s"
  shows "\<exists>x kvs nx p i nx' y. view s (state_key sid) = Some x \<and> json_loads x = Inr (PDict kvs) \<and>
    bindR (py_getitem (PDict kvs) ''next'') fromisoformat_str = Inr nx \<and> dt_ge zone current nx = Inr True \<and>
    map_of kvs ''paused'' = Some p \<and> \<not> py_bool p \<and> map_of kvs ''interval'' = Some (PInt i) \<and> 60 \<le> i \<and>
    dt_add current (i * 1000000) = Inr nx' \<and>
    dumps default_style (PDict (AList.update ''last_dispatch'' (PStr (isoformat zone current))
      (AList.update ''next'' (PStr (isoformat zone nx')) kvs))) = Inr y \<and>
    view t = (view s)(state_key sid \<mapsto> y)"
proof -
  have n: "next_run_at current i = Inr nx' \<Longrightarrow> 60 \<le> i \<and> dt_add current (i * 1000000) = Inr nx'" for i nx'
    by (auto simp: next_run_at_def timedelta_seconds_def split: if_splits)
  obtain x kvs nx p i nx' y where "view s (state_key sid) = Some x" "json_loads x = Inr (PDict kvs)"
    "bindR (py_getitem (PDict kvs) ''next'') fromisoformat_str = Inr nx" "map_of kvs ''paused'' = Some p"
    "\<not> py_bool p" "dt_ge zone current nx = Inr True" "map_of kvs ''interval'' = Some (PInt i)"
    "next_run_at current i = Inr nx'"
    "dumps default_style (PDict (AList.update ''last_dispatch'' (PStr (isoformat zone current))
      (AList.update ''next'' (PStr (isoformat zone nx')) kvs))) = Inr y" "view t = (view s)(state_key sid \<mapsto> y)"
    using scheduler_env.tick_dispatch_justified [OF assms] by blast
  with n show ?thesis by blast
qed

theorem dispatch_justified_and_recorded_witness:
  "\<exists>t x. scheduler_tick redis_kv demo_zone (redis_dispatch (\<lambda>_. True)) ''a'' (naive demo_wall) demo_sched = (Inr True, t) \<and>
    redis_view demo_sched (state_key ''a'') = Some x \<and> (\<exists>kvs. json_loads x = Inr (PDict kvs))"
proof -
  obtain t where t: "scheduler_tick redis_kv demo_zone (redis_dispatch (\<lambda>_. True)) ''a'' (naive demo_wall) demo_sched = (Inr True, t)"
    "redis_sent t = {#''a''#}"
    using redis_sched.tick_up [OF demo_sched_facts(1,3,4,2), of demo_zone "\<lambda>_. True"] demo_sched_facts by auto
  have "redis_sent t \<noteq> redis_sent demo_sched" using t(2) demo_sched_facts(6) by simp
  from dispatch_justified_and_recorded [OF redis_sched.scheduler_env_axioms t(1) this] t(1) show ?thesis by auto
qed

text \<open>
  sources are isolated. A call of the service for another source leaves the stored schedule of
  \<open>sid\<close> and the number of its dispatches as they are, whatever the call, its arguments, the stored
  documents and the failures.
\<close>

theorem scheduler_sources_isolated:
  assumes "scheduler_env ops view up dispatch sent" and "call_source c \<noteq> sid"
  shows "view (do_call ops zone dispatch c s) (state_key sid) = view s (state_key sid) \<and>
    count (sent (do_call ops zone dispatch c s)) sid = count (sent s) sid"
  using scheduler_env.do_call_other [OF assms] by (simp add: scheduler_env.same_for_def [OF assms(1)])

theorem scheduler_sources_isolated_witness:
  "redis_view (do_call redis_kv demo_zone (redis_dispatch (\<lambda>_. False)) (Register ''b'' 60 (naive demo_wall)) demo_sched)
     (state_key ''a'') = Some (entry_text demo_entry)"
  using scheduler_sources_isolated [OF redis_sched.scheduler_env_axioms, where s = demo_sched and zone = demo_zone
      and c = "Register ''b'' 60 (naive demo_wall)" and sid = "''a''"] demo_sched_facts(1) by simp

text \<open>
  the registered time comes back. After \<open>register\<close> with a valid interval, \<open>next_run\<close> returns the
  wall clock of \<open>current\<close>; its zone comes back as the UTC offset that it had (none for a naive time).
\<close>

theorem register_next_run_roundtrip:
  assumes "scheduler_env ops view up dispatch sent" and "up s" and "wall_ok (wall current)"
    and "\<forall>x. utcoffset zone current = Some x \<longrightarrow> \<bar>x\<bar> < 86400" and "next_run_at current interval = Inr nx"
  shows "\<exists>t u. scheduler_register ops zone sid interval current s = (Inr (), t) \<and>
    scheduler_next_run ops sid t =
      (Inr \<lparr>wall = wall current, tz = map_option FixedTz (utcoffset zone current)\<rparr>, u)"
proof -
  note kv = scheduler_env.axioms(1) [OF assms(1)]
  let ?d = "PDict [(''interval'', PInt interval), (''paused'', PBool False), (''next'', PStr (isoformat zone current))]"
  obtain t y where t: "scheduler_register ops zone sid interval current s = (Inr (), t)" "up t"
    "dumps default_style ?d = Inr y" "view t = (view s)(state_key sid \<mapsto> y)"
    using scheduler_env.register_up [OF assms(1,2,5)] by blast
  have "loads y = Some ?d"
    using loads_dumps [OF style_ok_styles(1) _ t(3)] by (simp add: default_style_def)
  obtain u where u: "kv_get ops (state_key sid) t = (Inr (view t (state_key sid)), u)"
    using kv_store.get_upE [OF kv t(2)] .
  have "scheduler_load ops sid t = (Inr ?d, u)"
    using u t(4) \<open>loads y = Some ?d\<close> by (simp add: scheduler_load_def json_loads_def)
  then have "scheduler_next_run ops sid t =
      (Inr \<lparr>wall = wall current, tz = map_option FixedTz (utcoffset zone current)\<rparr>, u)"
    using fromisoformat_isoformat [OF assms(3,4)] by (simp add: scheduler_next_run_def py_getitem_def)
  with t(1) show ?thesis by blast
qed

theorem register_next_run_roundtrip_witness:
  "\<exists>t u. scheduler_register redis_kv (\<lambda>_ _. 28800) ''a'' 60 \<lparr>wall = demo_wall, tz = Some (ZoneInfo ''Asia/Shanghai'')\<rparr> redis0
      = (Inr (), t) \<and>
    scheduler_next_run redis_kv ''a'' t = (Inr \<lparr>wall = demo_wall, tz = Some (FixedTz 28800)\<rparr>, u)"
proof -
  have "next_run_at \<lparr>wall = demo_wall, tz = Some (ZoneInfo ''Asia/Shanghai'')\<rparr> 60 =
      Inr \<lparr>wall = demo_wall + 60000000, tz = Some (ZoneInfo ''Asia/Shanghai'')\<rparr>"
    using demo_sched_facts(5) by (simp add: next_run_at_def timedelta_seconds_def dt_add_def)
  from register_next_run_roundtrip [OF redis_sched.scheduler_env_axioms _ _ _ this, of redis0 "\<lambda>_ _. 28800" "''a''"]
    demo_sched_facts(4) show ?thesis
    by (simp add: utcoffset_def redis_up_def redis0_def)
qed

text \<open>
  registering is idempotent. \<open>register_if_missing\<close> writes the initial entry, due at once and not
  paused, when no state is stored (and then returns True); it returns False and changes nothing when
  one is, even for a different interval.
\<close>

theorem register_if_missing_spec:
  assumes "scheduler_env ops view up dispatch sent" and "up s" and "wall_ok w" and "60 \<le> interval"
    and "wall_ok (w + interval * 1000000)"
  shows "\<exists>t. register_if_missing ops zone sid interval (naive w) s = (Inr (view s (state_key sid) = None), t) \<and>
    sent t = sent s \<and> view t = (if view s (state_key sid) = None
      then (view s)(state_key sid \<mapsto> entry_text
        \<lparr>ent_interval = interval, ent_paused = False, ent_next = w, ent_last = None\<rparr>)
      else view s)"
proof -
  note kv = scheduler_env.axioms(1) [OF assms(1)]
  note get_sent = scheduler_env.get_sent [OF assms(1)]
  obtain s1 where s1: "kv_get ops (state_key sid) s = (Inr (view s (state_key sid)), s1)" "view s1 = view s" "up s1"
    using kv_store.get_upE [OF kv assms(2)] .
  have s1': "sent s1 = sent s" using get_sent [OF s1(1)] .
  show ?thesis
  proof (cases "view s (state_key sid)")
    case None
    let ?e = "\<lparr>ent_interval = interval, ent_paused = False, ent_next = w, ent_last = None\<rparr>"
    obtain t y where t: "scheduler_register ops zone sid interval (naive w) s1 = (Inr (), t)"
      "dumps default_style (PDict [(''interval'', PInt interval), (''paused'', PBool False),
        (''next'', PStr (isoformat zone (naive w)))]) = Inr y"
      "view t = (view s1)(state_key sid \<mapsto> y)" "sent t = sent s1"
      using scheduler_env.register_up [OF assms(1) s1(3) next_run_at_naive [OF assms(4,3,5)]] by blast
    have "y = entry_text ?e" using t(2) dumps_entry [of ?e] by (simp add: entry_doc_def del: dumps.simps)
    then show ?thesis using None s1 s1' t by (simp add: register_if_missing_def)
  next
    case (Some x)
    then show ?thesis using s1 s1' by (simp add: register_if_missing_def)
  qed
qed

theorem register_if_missing_spec_witness:
  "\<exists>t. register_if_missing redis_kv demo_zone ''a'' 3600 (naive demo_wall) demo_sched = (Inr False, t) \<and>
    redis_view t = redis_view demo_sched"
proof -
  have "wall_ok (demo_wall + 3600 * 1000000)" by (simp add: wall_ok_def demo_wall_def ymd2ord_def dby_def dbm_def)
  from register_if_missing_spec [OF redis_sched.scheduler_env_axioms demo_sched_facts(2,4) _ this, of demo_zone "''a''"]
  show ?thesis using demo_sched_facts(1) by auto
qed

end
