(* ===== verification/Urls.thy ===== *)
theory Urls
  imports PyText
begin

section \<open>\<open>urllib.parse\<close>\<close>

text \<open>
  \<open>urlsplit\<close>, the \<open>hostname\<close>, \<open>port\<close>, \<open>username\<close> and \<open>password\<close> attributes of its result, and
  \<open>urlunsplit\<close>, as the standard library defines them. The check of a bracketed (IPv6) host is
  \<open>ipaddress\<close>'s and the parameter \<open>bracket_ok\<close> of \<open>urlsplit\<close>.
\<close>

record url_parts =
  scheme :: string
  netloc :: string
  path :: string
  query :: string
  fragment :: string

definition is_url_delim :: "char \<Rightarrow> bool" where
  "is_url_delim c \<longleftrightarrow> c = CHR ''/'' \<or> c = CHR ''?'' \<or> c = CHR ''#''"

definition is_scheme_char :: "char \<Rightarrow> bool" where
  "is_scheme_char c \<longleftrightarrow> is_lower_az c \<or> is_upper_AZ c \<or> is_ascii_digit c \<or> c = CHR ''+'' \<or> c = CHR ''-'' \<or>
     c = CHR ''.''"

definition clean_url :: "string \<Rightarrow> string" where
  "clean_url u = filter (\<lambda>c. ord c \<noteq> 9 \<and> ord c \<noteq> 10 \<and> ord c \<noteq> 13) (dropWhile (\<lambda>c. ord c \<le> 32) u)"

definition split_scheme :: "string \<Rightarrow> string \<times> string" where
  "split_scheme u = (case split1 (CHR '':'') u of
       (a, Some b) \<Rightarrow> (if a \<noteq> [] \<and> (is_lower_az (hd a) \<or> is_upper_AZ (hd a)) \<and> list_all is_scheme_char a
         then (lower a, b) else ([], u))
     | (_, None) \<Rightarrow> ([], u))"

definition split_netloc :: "string \<Rightarrow> string \<times> string" where
  "split_netloc u = (if starts_with ''//'' u
     then (takeWhile (\<lambda>c. \<not> is_url_delim c) (drop 2 u), dropWhile (\<lambda>c. \<not> is_url_delim c) (drop 2 u))
     else ([], u))"

text \<open>\<open>s.partition(c)\<close> with an empty third part when \<open>c\<close> does not occur.\<close>

definition partition_at :: "char \<Rightarrow> string \<Rightarrow> string \<times> string" where
  "partition_at c s = (case split1 c s of (a, Some b) \<Rightarrow> (a, b) | (a, None) \<Rightarrow> (a, []))"

definition urlsplit :: "(string \<Rightarrow> bool) \<Rightarrow> string \<Rightarrow> url_parts result" where
  "urlsplit bracket_ok url = (case split_scheme (clean_url url) of (sch, rest) \<Rightarrow>
     case split_netloc rest of (net, rest2) \<Rightarrow>
       if (CHR ''['' \<in> set net) \<noteq> (CHR '']'' \<in> set net) \<or> CHR ''['' \<in> set net \<and> \<not> bracket_ok net
       then Inl (ValueError ''Invalid IPv6 URL'')
       else case partition_at (CHR ''#'') rest2 of (rest3, frag) \<Rightarrow>
         case partition_at (CHR ''?'') rest3 of (pth, qry) \<Rightarrow>
           Inr \<lparr>scheme = sch, netloc = net, path = pth, query = qry, fragment = frag\<rparr>)"

text \<open>\<open>netloc.rpartition('@')\<close>: user information, when there is an \<open>@\<close>, and the rest.\<close>

definition split_userinfo :: "string \<Rightarrow> string option \<times> string" where
  "split_userinfo net = (if CHR ''@'' \<in> set net
     then (Some (rev (tl (dropWhile (\<lambda>c. c \<noteq> CHR ''@'') (rev net)))), rev (takeWhile (\<lambda>c. c \<noteq> CHR ''@'') (rev net)))
     else (None, net))"

definition hostinfo :: "url_parts \<Rightarrow> string \<times> string" where
  "hostinfo u = (let h = snd (split_userinfo (netloc u)) in
     (case split1 (CHR ''['') h of
       (_, Some b) \<Rightarrow> (fst (partition_at (CHR '']'') b), snd (partition_at (CHR '':'') (snd (partition_at (CHR '']'') b))))
     | (_, None) \<Rightarrow> partition_at (CHR '':'') h))"

definition hostname :: "url_parts \<Rightarrow> string option" where
  "hostname u = (case fst (hostinfo u) of [] \<Rightarrow> None
     | h \<Rightarrow> (case split1 (CHR ''%'') h of (a, None) \<Rightarrow> Some (lower a)
         | (a, Some z) \<Rightarrow> Some (lower a @ CHR ''%'' # z)))"

definition url_port :: "url_parts \<Rightarrow> int option result" where
  "url_port u = (case snd (hostinfo u) of
       [] \<Rightarrow> Inr None
     | p \<Rightarrow> if list_all is_ascii_digit p
         then (if digits_val p \<le> 65535 then Inr (Some (int (digits_val p)))
               else Inl (ValueError ''Port out of range 0-65535''))
         else Inl (ValueError (''Port could not be cast to integer value as '' @ p)))"

definition username :: "url_parts \<Rightarrow> string option" where
  "username u = map_option (\<lambda>i. fst (partition_at (CHR '':'') i)) (fst (split_userinfo (netloc u)))"

definition password :: "url_parts \<Rightarrow> string option" where
  "password u = (case fst (split_userinfo (netloc u)) of None \<Rightarrow> None | Some i \<Rightarrow> snd (split1 (CHR '':'') i))"

text \<open>\<open>urlunsplit\<close> with a non-empty network location.\<close>

definition urlunsplit :: "url_parts \<Rightarrow> string" where
  "urlunsplit u = (if scheme u \<noteq> [] then scheme u @ '':'' else []) @ ''//'' @ netloc u @
     (if path u \<noteq> [] \<and> hd (path u) \<noteq> CHR ''/'' then ''/'' else []) @ path u @
     (if query u \<noteq> [] then CHR ''?'' # query u else []) @
     (if fragment u \<noteq> [] then CHR ''#'' # fragment u else [])"

subsection \<open>What the parts contain\<close>

lemma split1_set: "split1 c s = (a, b) \<Longrightarrow> c \<notin> set a \<and> set a \<subseteq> set s \<and>
    (\<forall>x. b = Some x \<longrightarrow> set x \<subseteq> set s \<and> s = a @ c # x)"
  by (induction s arbitrary: a b) (auto split: if_splits prod.splits)

lemma partition_at_set: "partition_at c s = (a, b) \<Longrightarrow> c \<notin> set a \<and> set a \<subseteq> set s \<and> set b \<subseteq> set s"
  using split1_set [of c s] by (auto simp: partition_at_def split: prod.splits option.splits)

lemma split_userinfo_host: "CHR ''@'' \<notin> set (snd (split_userinfo net)) \<and> set (snd (split_userinfo net)) \<subseteq> set net"
  by (auto simp: split_userinfo_def dest: set_takeWhileD)

lemma netloc_no_delim:
  assumes "urlsplit ok url = Inr u"
  shows "\<forall>c \<in> set (netloc u). \<not> is_url_delim c"
proof -
  have "\<forall>c \<in> set (fst (split_netloc r)). \<not> is_url_delim c" for r
    by (auto simp: split_netloc_def dest: set_takeWhileD)
  then show ?thesis
    using assms by (auto simp: urlsplit_def split: prod.splits if_splits) (metis fst_conv)+
qed

lemma path_no_delim:
  assumes "urlsplit ok url = Inr u"
  shows "CHR ''?'' \<notin> set (path u)" and "CHR ''#'' \<notin> set (path u)"
  using assms partition_at_set by (auto simp: urlsplit_def split: prod.splits if_splits) blast+

lemma set_partition_at: "set (fst (partition_at c s)) \<subseteq> set s" "set (snd (partition_at c s)) \<subseteq> set s"
  using partition_at_set [of c s "fst (partition_at c s)" "snd (partition_at c s)"] by simp_all

lemma set_hostinfo: "set (fst (hostinfo u)) \<union> set (snd (hostinfo u)) \<subseteq> set (snd (split_userinfo (netloc u)))"
proof -
  let ?h = "snd (split_userinfo (netloc u))"
  obtain a b where ab: "split1 (CHR ''['') ?h = (a, b)" by (cases "split1 (CHR ''['') ?h")
  show ?thesis
  proof (cases b)
    case None
    then show ?thesis using ab set_partition_at by (simp add: hostinfo_def Let_def)
  next
    case (Some x)
    then have "set x \<subseteq> set ?h" using split1_set [OF ab] by blast
    then show ?thesis using ab Some set_partition_at by (simp add: hostinfo_def Let_def) blast
  qed
qed

lemma lower_keeps_out: "\<not> is_lower_az c \<Longrightarrow> ord c < 192 \<Longrightarrow> c \<in> set (lower s) \<Longrightarrow> c \<in> set s"
proof -
  assume a: "\<not> is_lower_az c" "ord c < 192" "c \<in> set (lower s)"
  then obtain d where d: "d \<in> set s" "c = lower_char d" by (auto simp: lower_def)
  have "lower_char d = d"
  proof (rule ccontr)
    assume n: "lower_char d \<noteq> d"
    then have k: "is_upper_AZ d \<or> (192 \<le> ord d \<and> ord d \<le> 222)" "lower_char d = char_of (ord d + 32)"
      by (auto simp: lower_char_def split: if_splits)
    then have "ord c = ord d + 32" using d by (auto simp: is_upper_AZ_def)
    with k(1) a(1,2) show False by (auto simp: is_upper_AZ_def is_lower_az_def)
  qed
  with d show "c \<in> set s" by simp
qed

lemma hostname_chars:
  assumes "hostname u = Some h" and "c \<in> set h" and "\<not> is_lower_az c" and "ord c < 192"
  shows "c \<in> set (snd (split_userinfo (netloc u)))"
proof -
  obtain a b where ab: "split1 (CHR ''%'') (fst (hostinfo u)) = (a, b)"
    by (cases "split1 (CHR ''%'') (fst (hostinfo u))")
  note ab' = split1_set [OF ab]
  have "h = lower a @ (case b of None \<Rightarrow> [] | Some z \<Rightarrow> CHR ''%'' # z)"
    using assms(1) ab by (auto simp: hostname_def split: list.splits option.splits simp del: split1.simps)
  then have "c \<in> set a \<or> (\<exists>z. b = Some z \<and> c \<in> set (CHR ''%'' # z))"
    using assms(2-4) lower_keeps_out [of c a] by (auto split: option.splits)
  then have "c \<in> set (fst (hostinfo u))" using ab' by auto
  then show ?thesis using set_hostinfo by blast
qed

end
