(* ===== verification/Files.thy ===== *)
theory Files
  imports PyText "HOL-Library.AList"
begin

section \<open>The file system the program is given\<close>

text \<open>
  The operations of \<open>pathlib.Path\<close> that change or read the disk, as a record, and the laws that the
  components rely on, in terms of the regular files and their modification times. A resolved path is the
  list of its components. Every operation may raise; symbolic links and other processes are not modelled.
  A small disk is the reference instance.
\<close>

type_synonym fpath = "string list"

record 's file_ops =
  f_exists :: "fpath \<Rightarrow> ('s, bool) py"
  f_is_file :: "fpath \<Rightarrow> ('s, bool) py"
  f_is_dir :: "fpath \<Rightarrow> ('s, bool) py"
  f_mkdir :: "fpath \<Rightarrow> ('s, unit) py"
  f_read :: "fpath \<Rightarrow> ('s, string) py"
  f_write :: "fpath \<Rightarrow> string \<Rightarrow> ('s, unit) py"
  f_mtime :: "fpath \<Rightarrow> ('s, rat) py"
  f_unlink :: "fpath \<Rightarrow> ('s, unit) py"
  f_rglob :: "fpath \<Rightarrow> ('s, fpath list) py"

definition below :: "fpath \<Rightarrow> fpath \<Rightarrow> bool" where
  "below base p \<longleftrightarrow> starts_with base p \<and> p \<noteq> base"

text \<open>Pure path operations, which depend on the host: is a text an absolute path, what it resolves to.\<close>

record path_ops =
  is_absolute :: "string \<Rightarrow> bool"
  resolve :: "string \<Rightarrow> fpath"

definition is_relative_to :: "fpath \<Rightarrow> fpath \<Rightarrow> bool" where
  "is_relative_to p base \<longleftrightarrow> starts_with base p"

locale file_store =
  fixes ops :: "'s file_ops"
    and files :: "'s \<Rightarrow> fpath \<Rightarrow> (string \<times> rat) option"
  assumes exists_files: "f_exists ops p s = (r1, t) \<Longrightarrow> files t = files s"
    and is_file_files: "f_is_file ops p s = (r1, t) \<Longrightarrow> files t = files s"
    and is_dir_files: "f_is_dir ops p s = (r1, t) \<Longrightarrow> files t = files s"
    and mkdir_files: "f_mkdir ops p s = (r2, t) \<Longrightarrow> files t = files s"
    and read_files: "f_read ops p s = (r3, t) \<Longrightarrow> files t = files s"
    and mtime_files: "f_mtime ops p s = (r4, t) \<Longrightarrow> files t = files s"
    and rglob_files: "f_rglob ops p s = (r5, t) \<Longrightarrow> files t = files s"
    and exists_Inr: "f_exists ops p s = (Inr False, t) \<Longrightarrow> starts_with p q \<Longrightarrow> files s q = None"
    and is_file_Inr: "f_is_file ops p s = (Inr b, t) \<Longrightarrow> b = (files s p \<noteq> None)"
    and read_Inr: "f_read ops p s = (Inr c, t) \<Longrightarrow> \<exists>m. files s p = Some (c, m)"
    and mtime_Inr: "f_mtime ops p s = (Inr m, t) \<Longrightarrow> files s p = Some (c, n) \<Longrightarrow> m = n"
    and rglob_Inr: "f_rglob ops p s = (Inr ps, t) \<Longrightarrow> distinct ps \<and> (\<forall>q \<in> set ps. below p q) \<and>
      (\<forall>q. below p q \<and> files s q \<noteq> None \<longrightarrow> q \<in> set ps)"
    and write_Inr: "f_write ops p c s = (Inr u, t) \<Longrightarrow> \<exists>m. files t = (files s)(p \<mapsto> (c, m))"
    and write_Inl: "f_write ops p c s = (Inl e, t) \<Longrightarrow> q \<noteq> p \<Longrightarrow> files t q = files s q"
    and unlink_Inr: "f_unlink ops p s = (Inr u, t) \<Longrightarrow> files t = (files s)(p := None)"
    and unlink_Inl: "f_unlink ops p s = (Inl e, t) \<Longrightarrow> files t = files s"
begin

text \<open>Operations that only read.\<close>

lemmas reads_keep = exists_files is_file_files is_dir_files mkdir_files read_files mtime_files rglob_files

lemma write_other: "f_write ops p c s = (r, t) \<Longrightarrow> q \<noteq> p \<Longrightarrow> files t q = files s q"
  by (cases r) (auto dest: write_Inl write_Inr)

end

subsection \<open>A reference disk\<close>

record disk =
  disk_files :: "(fpath \<times> string \<times> rat) list"
  disk_dirs :: "fpath list"
  disk_now :: rat
  disk_locked :: bool

definition disk_at :: "disk \<Rightarrow> fpath \<Rightarrow> (string \<times> rat) option" where
  "disk_at d = map_of (disk_files d)"

definition disk_do :: "(disk \<Rightarrow> disk) \<Rightarrow> (disk, unit) py" where
  "disk_do f d = (if disk_locked d then (Inl (OSError ''Read-only file system''), d) else (Inr (), f d))"

definition disk_need :: "fpath \<Rightarrow> (string \<times> rat \<Rightarrow> 'a) \<Rightarrow> (disk, 'a) py" where
  "disk_need p f d = (case disk_at d p of Some x \<Rightarrow> (Inr (f x), d)
     | None \<Rightarrow> (Inl (OSError ''No such file or directory''), d))"

definition disk_ops :: "disk file_ops" where
  "disk_ops = \<lparr>
     f_exists = (\<lambda>p d. (Inr (list_ex (\<lambda>q. starts_with p q) (map fst (disk_files d) @ disk_dirs d)), d)),
     f_is_file = (\<lambda>p d. (Inr (disk_at d p \<noteq> None), d)),
     f_is_dir = (\<lambda>p d. (Inr (disk_at d p = None \<and> list_ex (\<lambda>q. starts_with p q) (map fst (disk_files d) @ disk_dirs d)), d)),
     f_mkdir = (\<lambda>p. disk_do (\<lambda>d. d\<lparr>disk_dirs := List.insert p (disk_dirs d)\<rparr>)),
     f_read = (\<lambda>p. disk_need p fst),
     f_write = (\<lambda>p c. disk_do (\<lambda>d. d\<lparr>disk_files := AList.update p (c, disk_now d) (disk_files d)\<rparr>)),
     f_mtime = (\<lambda>p. disk_need p snd),
     f_unlink = (\<lambda>p. disk_do (\<lambda>d. d\<lparr>disk_files := filter (\<lambda>kv. fst kv \<noteq> p) (disk_files d)\<rparr>)),
     f_rglob = (\<lambda>p d. (Inr (remdups (filter (below p) (map fst (disk_files d) @ disk_dirs d))), d))\<rparr>"

lemma disk_do_eq: "disk_do f d = (r, t) \<longleftrightarrow>
    (if disk_locked d then r = Inl (OSError ''Read-only file system'') \<and> t = d else r = Inr () \<and> t = f d)"
  by (auto simp: disk_do_def)

lemma disk_need_eq: "disk_need p f d = (r, t) \<longleftrightarrow> t = d \<and>
    r = (case disk_at d p of Some x \<Rightarrow> Inr (f x) | None \<Rightarrow> Inl (OSError ''No such file or directory''))"
  by (auto simp: disk_need_def split: option.splits)

lemma map_of_filter_key: "map_of (filter (\<lambda>kv. fst kv \<noteq> p) xs) = (map_of xs)(p := None)"
  by (induction xs) auto

lemma starts_with_refl [simp]: "starts_with p p"
  by (simp add: starts_with_iff)

interpretation disk: file_store disk_ops disk_at
proof unfold_locales
  fix p q :: fpath and s t :: disk and e
  show "f_exists disk_ops p s = (Inr False, t) \<Longrightarrow> starts_with p q \<Longrightarrow> disk_at s q = None"
    by (auto simp: disk_ops_def disk_at_def map_of_eq_None_iff list_ex_iff)
  fix ps
  show "f_rglob disk_ops p s = (Inr ps, t) \<Longrightarrow> distinct ps \<and> (\<forall>q \<in> set ps. below p q) \<and>
      (\<forall>q. below p q \<and> disk_at s q \<noteq> None \<longrightarrow> q \<in> set ps)"
    by (auto simp: disk_ops_def disk_at_def map_of_eq_None_iff) force+
qed (auto simp: disk_ops_def disk_do_eq disk_need_eq disk_at_def update_conv' map_of_filter_key
    split: if_splits option.splits)

end
