(* ===== verification/Observability.thy ===== *)
theory Observability
  imports Urls JsonRound Datetime Files
begin

section \<open>Structured logging (\<open>observability.py\<close>)\<close>

text \<open>
  The validated log vocabulary (\<open>RunOutcome\<close>, \<open>RunContext\<close>, \<open>RunEvent\<close>, \<open>LoggingSettings\<close>), redaction
  (\<open>redact_value\<close>, \<open>_safe_url\<close>, \<open>_is_sensitive_key\<close>), the JSON formatter, and the emission of events.
  A \<open>UUID\<close> is its text. The file system behind \<open>Path\<close> (is a path absolute, what it resolves to) and
  the \<open>logging\<close> module behind a logger are parameters; the clock, \<open>uuid4\<close> and the logger that the tasks
  use are the operations of \<open>run_env\<close>.

  The lemmas: what redaction removes at every depth, that what is left can always be written as JSON,
  that a formatted event is read back as its fixed fields, and that log files stay outside the
  repository.
\<close>

subsection \<open>Vocabulary\<close>

datatype RunOutcome = SUCCEEDED | FAILED | SKIPPED

fun outcome_value :: "RunOutcome \<Rightarrow> string" where
  "outcome_value SUCCEEDED = ''succeeded''"
| "outcome_value FAILED = ''failed''"
| "outcome_value SKIPPED = ''skipped''"

text \<open>The three regular expressions, used with \<open>fullmatch\<close>.\<close>

definition source_id_match :: "string \<Rightarrow> bool" where
  "source_id_match s \<longleftrightarrow> s \<noteq> [] \<and>
     list_all (\<lambda>c. is_lower_az c \<or> is_ascii_digit c \<or> c = CHR ''_'' \<or> c = CHR ''-'') s"

definition task_id_match :: "string \<Rightarrow> bool" where
  "task_id_match s \<longleftrightarrow> s \<noteq> [] \<and>
     list_all (\<lambda>c. is_lower_az c \<or> is_upper_AZ c \<or> is_ascii_digit c \<or> c = CHR ''_'' \<or> c = CHR ''.'' \<or>
       c = CHR '':'' \<or> c = CHR ''-'') s"

definition event_name_match :: "string \<Rightarrow> bool" where
  "event_name_match s \<longleftrightarrow> s \<noteq> [] \<and> list_all (\<lambda>c. is_lower_az c \<or> c = CHR ''_'') s"

record run_context =
  ctx_source_id :: string
  ctx_crawl_run_id :: string
  ctx_task_id :: string

definition RunContext :: "string \<Rightarrow> string \<Rightarrow> string \<Rightarrow> run_context result" where
  "RunContext source_id crawl_run_id task_id =
     (if \<not> source_id_match source_id then Inl (ValueError ''source_id must match [a-z0-9_-]+'')
      else if \<not> task_id_match task_id then Inl (ValueError ''task_id contains unsupported characters'')
      else Inr \<lparr>ctx_source_id = source_id, ctx_crawl_run_id = crawl_run_id, ctx_task_id = task_id\<rparr>)"

record run_event =
  ev_name :: string
  ev_context :: run_context
  ev_outcome :: RunOutcome
  ev_duration :: "pyfloat option"
  ev_item_count :: "int option"
  ev_exception :: "exn option"
  ev_extra :: "(string \<times> pyval) list"

definition float_negative :: "pyfloat \<Rightarrow> bool" where
  "float_negative f = (case f of Fin r \<Rightarrow> r < 0 | NegInf \<Rightarrow> True | _ \<Rightarrow> False)"

definition RunEvent :: "string \<Rightarrow> run_context \<Rightarrow> RunOutcome \<Rightarrow> pyfloat option \<Rightarrow> int option \<Rightarrow>
    exn option \<Rightarrow> (string \<times> pyval) list \<Rightarrow> run_event result" where
  "RunEvent name ctx outcome duration item_count exc extra =
     (if \<not> event_name_match name
        then Inl (ValueError ''event name must contain lowercase letters and underscores'')
      else if (\<exists>d \<in> set_option duration. float_negative d)
        then Inl (ValueError ''duration_seconds must not be negative'')
      else if (\<exists>n \<in> set_option item_count. n < 0)
        then Inl (ValueError ''item_count must not be negative'')
      else Inr \<lparr>ev_name = name, ev_context = ctx, ev_outcome = outcome, ev_duration = duration,
        ev_item_count = item_count, ev_exception = exc, ev_extra = extra\<rparr>)"

text \<open>\<open>type(error).__name__\<close>; the classes that the repository does not name carry theirs.\<close>

fun exn_type :: "exn \<Rightarrow> string" where
  "exn_type (ValueError _) = ''ValueError''"
| "exn_type (KeyError _) = ''KeyError''"
| "exn_type (TypeError _) = ''TypeError''"
| "exn_type (IndexError _) = ''IndexError''"
| "exn_type (RuntimeError _) = ''RuntimeError''"
| "exn_type (OverflowError _) = ''OverflowError''"
| "exn_type (ConnectionError _) = ''ConnectionError''"
| "exn_type (OSError _) = ''OSError''"
| "exn_type (ConfigurationError _) = ''ConfigurationError''"
| "exn_type (BrowserSessionConfigurationError _) = ''BrowserSessionConfigurationError''"
| "exn_type (BrowserRuntimeConfigurationError _) = ''BrowserRuntimeConfigurationError''"
| "exn_type (SnapshotConfigurationError _) = ''SnapshotConfigurationError''"
| "exn_type (InspectionInputError _) = ''InspectionInputError''"
| "exn_type (DatabaseUnavailableError _) = ''DatabaseUnavailableError''"
| "exn_type (AdapterRunError _) = ''AdapterRunError''"
| "exn_type (AdapterContractError _) = ''AdapterContractError''"
| "exn_type (FetchError _) = ''FetchError''"
| "exn_type (ParseError _) = ''ParseError''"
| "exn_type (NormalizationError _) = ''NormalizationError''"
| "exn_type (ValidationError _) = ''ValidationError''"
| "exn_type (ResponseFailure _ _ _) = ''ResponseFailure''"
| "exn_type (BrowserSessionRequiredError _ _ _) = ''BrowserSessionRequiredError''"
| "exn_type (BrowserOperationError _ _ _ _) = ''BrowserOperationError''"
| "exn_type (OtherException name) = name"
| "exn_type (OtherBaseException name) = name"

subsection \<open>Redaction\<close>

definition SENSITIVE_KEY_PARTS :: "string list" where
  "SENSITIVE_KEY_PARTS = [''account'', ''authorization'', ''cookie'', ''credential'', ''email'', ''identity'',
     ''password'', ''phone'', ''secret'', ''token'']"

definition is_sensitive_key :: "string \<Rightarrow> bool" where
  "is_sensitive_key key \<longleftrightarrow>
     list_ex (\<lambda>part. contains part (map (\<lambda>c. if c = CHR ''-'' then CHR ''_'' else c) (lower key))) SENSITIVE_KEY_PARTS"

definition safe_url :: "(string \<Rightarrow> bool) \<Rightarrow> string \<Rightarrow> string result" where
  "safe_url bracket_ok v = bindR (urlsplit bracket_ok v) (\<lambda>p.
     if scheme p \<notin> {''http'', ''https''} then Inr ''[redacted]''
     else case hostname p of
       None \<Rightarrow> Inr ''[redacted]''
     | Some h \<Rightarrow> bindR (url_port p) (\<lambda>port.
         Inr (urlunsplit \<lparr>scheme = scheme p,
           netloc = h @ (case port of None \<Rightarrow> [] | Some n \<Rightarrow> CHR '':'' # int_text n),
           path = path p, query = [], fragment = []\<rparr>)))"

definition url_key :: "string option \<Rightarrow> bool" where
  "url_key key = (case key of Some k \<Rightarrow> contains ''url'' (lower k) | None \<Rightarrow> False)"

fun redact_value :: "(string \<Rightarrow> bool) \<Rightarrow> string option \<Rightarrow> pyval \<Rightarrow> pyval result" where
  "redact_value ok key value =
     (if (\<exists>k \<in> set_option key. is_sensitive_key k) then Inr (PStr ''[redacted]'')
      else case value of
        PStr s \<Rightarrow> (if url_key key then map_sum id PStr (safe_url ok s) else Inr (PStr s))
      | PNone \<Rightarrow> Inr PNone
      | PBool b \<Rightarrow> Inr (PBool b)
      | PInt i \<Rightarrow> Inr (PInt i)
      | PFloat f \<Rightarrow> Inr (PFloat f)
      | PDict kvs \<Rightarrow> map_sum id PDict (sequenceR (map (\<lambda>(k, v). map_sum id (Pair k) (redact_value ok (Some k) v)) kvs))
      | PList xs \<Rightarrow> map_sum id PList (sequenceR (map (redact_value ok None) xs))
      | PTuple xs \<Rightarrow> map_sum id PList (sequenceR (map (redact_value ok None) xs))
      | PObject t \<Rightarrow> Inr (PStr ''[omitted]''))"

declare redact_value.simps [simp del]

abbreviation plain_key :: "string option \<Rightarrow> bool" where
  "plain_key key \<equiv> \<forall>k \<in> set_option key. \<not> is_sensitive_key k"

lemma redact_value_sensitive: "is_sensitive_key k \<Longrightarrow> redact_value ok (Some k) v = Inr (PStr ''[redacted]'')"
  by (simp add: redact_value.simps [of _ "Some k"])

lemma redact_value_plain:
  "plain_key key \<Longrightarrow> redact_value ok key (PStr s) =
     (if url_key key then map_sum id PStr (safe_url ok s) else Inr (PStr s))"
  "plain_key key \<Longrightarrow> redact_value ok key (PInt i) = Inr (PInt i)"
  "plain_key key \<Longrightarrow> redact_value ok key (PDict kvs) = map_sum id PDict
     (sequenceR (map (\<lambda>(k, v). map_sum id (Pair k) (redact_value ok (Some k) v)) kvs))"
  "plain_key key \<Longrightarrow> redact_value ok key (PList xs) = map_sum id PList (sequenceR (map (redact_value ok None) xs))"
  "plain_key key \<Longrightarrow> redact_value ok key (PTuple xs) = map_sum id PList (sequenceR (map (redact_value ok None) xs))"
  "plain_key key \<Longrightarrow> redact_value ok key PNone = Inr PNone"
  "plain_key key \<Longrightarrow> redact_value ok key (PBool b) = Inr (PBool b)"
  "plain_key key \<Longrightarrow> redact_value ok key (PFloat f) = Inr (PFloat f)"
  "plain_key key \<Longrightarrow> redact_value ok key (PObject t) = Inr (PStr ''[omitted]'')"
  by (simp_all add: redact_value.simps [of _ key])

lemma url_key_None [simp]: "\<not> url_key None"
  by (simp add: url_key_def)

subsection \<open>The formatter\<close>

record log_record =
  lr_created :: rat
  lr_levelname :: string
  lr_run_event :: "run_event option"

text \<open>\<open>fromts\<close> is \<open>datetime.fromtimestamp(created, BEIJING)\<close>.\<close>

definition event_payload :: "run_event \<Rightarrow> string \<Rightarrow> string \<Rightarrow> (string \<times> pyval) list" where
  "event_payload ev timestamp level =
     [(''timestamp'', PStr timestamp), (''level'', PStr level), (''event'', PStr (ev_name ev)),
      (''source_id'', PStr (ctx_source_id (ev_context ev))),
      (''crawl_run_id'', PStr (ctx_crawl_run_id (ev_context ev))),
      (''task_id'', PStr (ctx_task_id (ev_context ev))), (''outcome'', PStr (outcome_value (ev_outcome ev)))] @
     (case ev_duration ev of None \<Rightarrow> [] | Some d \<Rightarrow> [(''duration_seconds'', PFloat d)]) @
     (case ev_item_count ev of None \<Rightarrow> [] | Some n \<Rightarrow> [(''item_count'', PInt n)]) @
     (case ev_exception ev of None \<Rightarrow> [] | Some e \<Rightarrow> [(''exception_type'', PStr (exn_type e))])"

definition format_record ::
  "(string \<Rightarrow> bool) \<Rightarrow> zone_db \<Rightarrow> (rat \<Rightarrow> datetime) \<Rightarrow> log_record \<Rightarrow> string result" where
  "format_record ok zone fromts r = (let timestamp = isoformat zone (fromts (lr_created r)) in
     (case lr_run_event r of
       None \<Rightarrow> dumps compact_style (PDict [(''timestamp'', PStr timestamp), (''level'', PStr (lr_levelname r)),
         (''event'', PStr ''unstructured_log_suppressed'')])
     | Some ev \<Rightarrow>
         bindR (if ev_extra ev = [] then Inr []
             else map_sum id (\<lambda>d. [(''details'', d)]) (redact_value ok None (PDict (ev_extra ev))))
           (\<lambda>details. dumps sorted_style (PDict (event_payload ev timestamp (lr_levelname r) @ details)))))"

subsection \<open>Settings and loggers\<close>

record LoggingSettings =
  log_file_dir :: "string list option"
  max_bytes :: int
  backup_count :: int

definition positive_integer :: "string \<Rightarrow> string \<Rightarrow> int result" where
  "positive_integer value name = (case parse_int value of
       None \<Rightarrow> Inl (ValueError (name @ '' must be a positive integer''))
     | Some n \<Rightarrow> if n \<le> 0 then Inl (ValueError (name @ '' must be a positive integer'')) else Inr n)"

definition environ_get :: "(string \<Rightarrow> string option) \<Rightarrow> string \<Rightarrow> string \<Rightarrow> string" where
  "environ_get environ name dflt = (case environ name of Some v \<Rightarrow> v | None \<Rightarrow> dflt)"

text \<open>\<open>os.environ[name]\<close>\<close>

definition environ_item :: "(string \<Rightarrow> string option) \<Rightarrow> string \<Rightarrow> string result" where
  "environ_item environ name = (case environ name of Some v \<Rightarrow> Inr v | None \<Rightarrow> Inl (KeyError name))"

definition logging_settings :: "path_ops \<Rightarrow> (string \<Rightarrow> string option) \<Rightarrow> string \<Rightarrow> LoggingSettings result" where
  "logging_settings paths environ repository_root =
     bindR (positive_integer (environ_get environ ''LOG_MAX_BYTES'' ''10485760'') ''LOG_MAX_BYTES'') (\<lambda>mb.
     bindR (positive_integer (environ_get environ ''LOG_BACKUP_COUNT'' ''7'') ''LOG_BACKUP_COUNT'') (\<lambda>bc.
     let raw = strip (environ_get environ ''LOG_FILE_DIR'' []) in
     if raw = [] then Inr \<lparr>log_file_dir = None, max_bytes = mb, backup_count = bc\<rparr>
     else if \<not> is_absolute paths raw then Inl (ValueError ''LOG_FILE_DIR must be an absolute path'')
     else if is_relative_to (resolve paths raw) (resolve paths repository_root)
       then Inl (ValueError ''LOG_FILE_DIR must be outside the repository root'')
     else Inr \<lparr>log_file_dir = Some (resolve paths raw), max_bytes = mb, backup_count = bc\<rparr>))"

datatype log_level = INFO | ERROR

datatype handler = StreamHandler | RotatingFileHandler "string list" int int

record logger =
  handlers :: "handler list"
  level :: log_level
  propagate :: bool

text \<open>The logger is part of the state; \<open>mkdir\<close> creates the directory and may raise.\<close>

definition configure_json_logging ::
  "(string list \<Rightarrow> ('s, unit) py) \<Rightarrow> LoggingSettings \<Rightarrow> (logger \<times> 's, unit) py" where
  "configure_json_logging mkdir st w = (let lg = \<lparr>handlers = [], level = INFO, propagate = False\<rparr> in
     (case log_file_dir st of
       None \<Rightarrow> (Inr (), (lg\<lparr>handlers := [StreamHandler]\<rparr>, snd w))
     | Some d \<Rightarrow> (case mkdir d (snd w) of
           (Inl e, t) \<Rightarrow> (Inl e, (lg, t))
         | (Inr _, t) \<Rightarrow> (Inr (), (lg\<lparr>handlers := [RotatingFileHandler (d @ [''crawler.jsonl'']) (max_bytes st)
             (backup_count st)]\<rparr>, t)))))"

text \<open>The clock, the identifiers and the logger that a task uses.\<close>

record 's run_env =
  monotonic :: "('s, rat) py"
  uuid4 :: "('s, string) py"
  log_event :: "log_level \<Rightarrow> run_event \<Rightarrow> ('s, unit) py"

definition emit_run_event :: "'s run_env \<Rightarrow> run_event \<Rightarrow> ('s, unit) py" where
  "emit_run_event env ev = log_event env (if ev_outcome ev = FAILED then ERROR else INFO) ev"

subsection \<open>What redaction leaves\<close>

text \<open>A URL without user information, query and fragment, or a marker.\<close>

definition url_clean :: "string \<Rightarrow> bool" where
  "url_clean s \<longleftrightarrow> s = ''[redacted]'' \<or> s = ''[omitted]'' \<or> (\<exists>sch net pth. sch \<in> {''http'', ''https''} \<and>
     s = sch @ ''://'' @ net @ pth \<and> CHR ''@'' \<notin> set net \<and> (\<forall>c \<in> set net. \<not> is_url_delim c) \<and>
     (pth = [] \<or> hd pth = CHR ''/'') \<and> CHR ''?'' \<notin> set pth \<and> CHR ''#'' \<notin> set pth)"

fun redacted :: "pyval \<Rightarrow> bool" where
  "redacted (PDict kvs) = list_all (\<lambda>(k, v). redacted v \<and> (is_sensitive_key k \<longrightarrow> v = PStr ''[redacted]'') \<and>
     (case v of PStr s \<Rightarrow> url_key (Some k) \<longrightarrow> url_clean s | _ \<Rightarrow> True)) kvs"
| "redacted (PList xs) = list_all redacted xs"
| "redacted (PTuple xs) = False"
| "redacted (PObject t) = False"
| "redacted _ = True"

lemma int_text_digits: "0 \<le> n \<Longrightarrow> list_all is_ascii_digit (int_text n)"
  using nat_text_digits by (simp add: int_text_def)

lemma digit_char_class: "is_ascii_digit c \<Longrightarrow> c \<noteq> CHR ''@'' \<and> \<not> is_url_delim c"
  by (auto simp: is_ascii_digit_def ord_def is_url_delim_def)

lemma url_delim_ord: "is_url_delim c \<or> c = CHR ''@'' \<Longrightarrow> \<not> is_lower_az c \<and> ord c < 192"
  by (auto simp: is_url_delim_def is_lower_az_def ord_def)

lemma safe_url_clean:
  assumes "safe_url ok v = Inr s"
  shows "url_clean s"
proof -
  obtain p where p: "urlsplit ok v = Inr p" using assms by (cases "urlsplit ok v") (auto simp: safe_url_def)
  show ?thesis
  proof (cases "scheme p \<in> {''http'', ''https''} \<and> hostname p \<noteq> None")
    case False
    then have "s = ''[redacted]''" using assms p by (auto simp: safe_url_def split: if_splits option.splits)
    then show ?thesis by (simp add: url_clean_def)
  next
    case True
    then obtain h where h: "hostname p = Some h" by auto
    have uh: "c \<notin> set h" if "is_url_delim c \<or> c = CHR ''@''" for c
      using hostname_chars [OF h, of c] url_delim_ord [OF that] that
        netloc_no_delim [OF p] split_userinfo_host [of "netloc p"] by auto
    obtain port where port: "url_port p = Inr port"
      using assms p True h by (cases "url_port p") (auto simp: safe_url_def)
    let ?net = "h @ (case port of None \<Rightarrow> [] | Some n \<Rightarrow> CHR '':'' # int_text n)"
    let ?pth = "(if path p \<noteq> [] \<and> hd (path p) \<noteq> CHR ''/'' then ''/'' else []) @ path p"
    have s: "s = scheme p @ ''://'' @ ?net @ ?pth"
      using assms p True h port by (auto simp: safe_url_def urlunsplit_def split: if_splits)
    have n: "port = Some n \<Longrightarrow> 0 \<le> n" for n
      using port by (auto simp: url_port_def split: list.splits if_splits)
    have pc: "c \<in> set (int_text n) \<Longrightarrow> port = Some n \<Longrightarrow> is_ascii_digit c" for c n
      using int_text_digits [of n] n [of n] by (auto simp: list_all_iff)
    have colon: "\<not> is_url_delim CHR '':''" by (simp add: is_url_delim_def)
    have "CHR ''@'' \<notin> set ?net" "\<forall>c \<in> set ?net. \<not> is_url_delim c"
      using uh pc digit_char_class colon by (auto split: option.splits)
    moreover have "?pth = [] \<or> hd ?pth = CHR ''/''" "CHR ''?'' \<notin> set ?pth" "CHR ''#'' \<notin> set ?pth"
      using path_no_delim [OF p] by auto
    ultimately show ?thesis unfolding url_clean_def using s True by blast
  qed
qed

lemma redact_value_redacted:
  "redact_value ok key v = Inr w \<Longrightarrow> redacted w \<and>
     (case w of PStr s \<Rightarrow> url_key key \<longrightarrow> url_clean s | _ \<Rightarrow> True)"
proof (induction ok key v arbitrary: w rule: redact_value.induct)
  case (1 ok key v)
  show ?case
  proof (cases "\<exists>k \<in> set_option key. is_sensitive_key k")
    case True
    then show ?thesis using 1(4) by (auto simp: redact_value_sensitive url_clean_def)
  next
    case False
    note ns = False
    then have pk: "plain_key key" by simp
    show ?thesis
    proof (cases v)
      case (PStr s)
      then show ?thesis using 1(4) pk safe_url_clean
        by (cases "safe_url ok s") (auto simp: redact_value_plain split: if_splits)
    next
      case (PList xs)
      then obtain ys where ys: "sequenceR (map (redact_value ok None) xs) = Inr ys" "w = PList ys"
        using 1(4) pk by (cases "sequenceR (map (redact_value ok None) xs)")
          (auto simp: redact_value_plain)
      have "redacted y" if y: "y \<in> set ys" for y
        using sequenceR_Inr_set [OF ys(1) y] 1(1) [OF ns PList] by blast
      then show ?thesis using ys(2) by (simp add: list_all_iff)
    next
      case (PTuple xs)
      then obtain ys where ys: "sequenceR (map (redact_value ok None) xs) = Inr ys" "w = PList ys"
        using 1(4) pk by (cases "sequenceR (map (redact_value ok None) xs)")
          (auto simp: redact_value_plain)
      have "redacted y" if y: "y \<in> set ys" for y
        using sequenceR_Inr_set [OF ys(1) y] 1(2) [OF ns PTuple] by blast
      then show ?thesis using ys(2) by (simp add: list_all_iff)
    next
      case (PDict kvs)
      let ?f = "\<lambda>(k, v). map_sum id (Pair k) (redact_value ok (Some k) v)"
      obtain ys where ys: "sequenceR (map ?f kvs) = Inr ys" "w = PDict ys"
        using 1(4) pk PDict by (cases "sequenceR (map ?f kvs)") (auto simp: redact_value_plain)
      have "redacted y \<and> (is_sensitive_key k \<longrightarrow> y = PStr ''[redacted]'') \<and>
          (case y of PStr s \<Rightarrow> url_key (Some k) \<longrightarrow> url_clean s | _ \<Rightarrow> True)" if y: "(k, y) \<in> set ys" for k y
      proof -
        obtain x where x: "(k, x) \<in> set kvs" "redact_value ok (Some k) x = Inr y"
          using sequenceR_Inr_set [OF ys(1) y] by (auto simp: map_sum_def split: sum.splits)
        have "is_sensitive_key k \<Longrightarrow> y = PStr ''[redacted]''"
          using x(2) by (simp add: redact_value_sensitive)
        moreover have "redacted y \<and> (case y of PStr s \<Rightarrow> url_key (Some k) \<longrightarrow> url_clean s | _ \<Rightarrow> True)"
          using 1(3) [OF ns PDict x(1) refl x(2)] .
        ultimately show ?thesis by blast
      qed
      then show ?thesis using ys(2) by (auto simp: list_all_iff)
    qed (use 1(4) pk in \<open>auto simp: redact_value_plain url_clean_def\<close>)
  qed
qed

lemma redacted_jsonable: "redacted w \<Longrightarrow> jsonable w"
  by (induction w) (auto simp: list_all_iff)

text \<open>The payload is a JSON object with distinct keys, and sorting them is all that \<open>loads\<close> sees.\<close>

lemma event_payload_wf:
  assumes "\<And>r. ev_duration ev = Some (Fin r) \<Longrightarrow> is_decimal r"
  shows "json_wf (PDict (event_payload ev ts lv))"
proof -
  have "json_wf (PFloat d)" if "ev_duration ev = Some d" for d
    using assms that by (cases d) auto
  then show ?thesis by (auto simp: event_payload_def split: option.split)
qed

lemma canon_payload: "canon True (PDict (event_payload ev ts lv)) = PDict (sort_key fst (event_payload ev ts lv))"
proof -
  have "map (\<lambda>(k, v). (k, canon True v)) (event_payload ev ts lv) = event_payload ev ts lv"
    by (simp add: event_payload_def split: option.split)
  then show ?thesis by simp
qed

lemma event_payload_dumps: "\<exists>t. dumps sorted_style (PDict (event_payload ev ts lv)) = Inr t"
  by (rule dumps_total)
    (auto simp: sorted_style_def compact_style_def default_style_def event_payload_def split: option.split)

subsection \<open>The properties\<close>


definition demo_extra :: pyval where
  "demo_extra = PDict [(''api_token'', PInt 7), (''login'', PDict [(''User-Password'', PStr ''pw'')]),
     (''Source_URL'', PStr ''https://user:pw@Example.com/a/b?session=1#top'')]"


text \<open>
  a list drops the key. The elements of a list or tuple under a URL key are logged as they are: user
  information, query and fragment of URLs in a list are not removed.
\<close>

theorem redaction_skips_lists:
  assumes "\<not> is_sensitive_key k"
  shows "redact_value ok (Some k) (PList (map PStr urls)) = Inr (PList (map PStr urls))"
proof -
  have "sequenceR (map (redact_value ok None) (map PStr urls)) = Inr (map PStr urls)"
    by (induction urls) (simp_all add: redact_value_plain)
  then show ?thesis using assms by (simp add: redact_value_plain)
qed

theorem redaction_skips_lists_witness:
  "redact_value (\<lambda>_. False) (Some ''request_urls'') (PList [PStr ''https://user:pw@host/?token=1'']) =
     Inr (PList [PStr ''https://user:pw@host/?token=1''])"
proof -
  have "\<not> is_sensitive_key ''request_urls''" by code_simp
  from redaction_skips_lists [OF this, of "\<lambda>_. False" "[''https://user:pw@host/?token=1'']"] show ?thesis by simp
qed

text \<open>
  redaction is not total. A URL whose port is not a number in range makes \<open>redact_value\<close>, and with
  it the formatter, raise \<open>ValueError\<close>.
\<close>

theorem redaction_raises_on_bad_port:
  "redact_value ok (Some ''url'') (PStr ''http://host:port/'') =
     Inl (ValueError ''Port could not be cast to integer value as port'') \<and>
   redact_value ok (Some ''url'') (PStr ''http://host:65536/'') = Inl (ValueError ''Port out of range 0-65535'')"
proof -
  have s: "urlsplit ok ''http://host:port/'' =
      Inr \<lparr>scheme = ''http'', netloc = ''host:port'', path = ''/'', query = [], fragment = []\<rparr>"
    "urlsplit ok ''http://host:65536/'' =
      Inr \<lparr>scheme = ''http'', netloc = ''host:65536'', path = ''/'', query = [], fragment = []\<rparr>"
    by code_simp+
  have h: "hostinfo \<lparr>scheme = ''http'', netloc = ''host:port'', path = ''/'', query = [], fragment = []\<rparr> = (''host'', ''port'')"
    "hostinfo \<lparr>scheme = ''http'', netloc = ''host:65536'', path = ''/'', query = [], fragment = []\<rparr> = (''host'', ''65536'')"
    by code_simp+
  have d: "\<not> list_all is_ascii_digit ''port''" "list_all is_ascii_digit ''65536''" "digits_val ''65536'' = 65536"
    by (simp_all add: is_ascii_digit_def ord_def digits_val_def digit_val_def)
  have k: "\<not> is_sensitive_key ''url''" "url_key (Some ''url'')" by code_simp+
  have n: "hostname \<lparr>scheme = ''http'', netloc = ''host:port'', path = ''/'', query = [], fragment = []\<rparr> = Some ''host''"
    "hostname \<lparr>scheme = ''http'', netloc = ''host:65536'', path = ''/'', query = [], fragment = []\<rparr> = Some ''host''"
    by code_simp+
  show ?thesis using k d by (simp add: redact_value_plain safe_url_def s n url_port_def h del: list.pred_inject)
qed

text \<open>
  a log line is read back as the fixed fields of its event. Formatting an event without extra data
  always succeeds, and parsing the line gives exactly the payload fields in key order; an exception
  shows in them as its class name only. A record that carries no run event gives only its time, its
  level and the suppression marker.
\<close>

theorem format_roundtrip:
  assumes "\<forall>ev \<in> set_option (lr_run_event rec).
    ev_extra ev = [] \<and> (\<forall>r. ev_duration ev = Some (Fin r) \<longrightarrow> is_decimal r)"
  shows "\<exists>t. format_record ok zone fromts rec = Inr t \<and> loads t = Some (PDict (case lr_run_event rec of
      Some ev \<Rightarrow> sort_key fst (event_payload ev (isoformat zone (fromts (lr_created rec))) (lr_levelname rec))
    | None \<Rightarrow> [(''timestamp'', PStr (isoformat zone (fromts (lr_created rec)))), (''level'', PStr (lr_levelname rec)),
        (''event'', PStr ''unstructured_log_suppressed'')]))"
proof (cases "lr_run_event rec")
  case None
  let ?d = "PDict [(''timestamp'', PStr (isoformat zone (fromts (lr_created rec)))), (''level'', PStr (lr_levelname rec)),
        (''event'', PStr ''unstructured_log_suppressed'')]"
  obtain t where t: "dumps compact_style ?d = Inr t"
    using dumps_total [of compact_style ?d] by (auto simp: compact_style_def default_style_def simp del: dumps.simps)
  have "loads t = Some ?d"
    using loads_dumps [OF style_ok_styles(2) _ t] by (simp add: compact_style_def default_style_def)
  then show ?thesis using t None by (simp add: format_record_def del: dumps.simps)
next
  case (Some ev)
  let ?p = "event_payload ev (isoformat zone (fromts (lr_created rec))) (lr_levelname rec)"
  obtain t where t: "dumps sorted_style (PDict ?p) = Inr t" using event_payload_dumps by blast
  have wf: "json_wf (PDict ?p)" using event_payload_wf assms Some by auto
  have "loads t = Some (PDict (sort_key fst ?p))"
    using loads_dumps [OF style_ok_styles(3) wf t] canon_payload by (simp add: sorted_style_def del: canon.simps)
  then show ?thesis using t Some assms by (simp add: format_record_def del: dumps.simps)
qed

definition demo_zone :: zone_db where
  "demo_zone = (\<lambda>_ _. 28800)"

definition demo_fromts :: "rat \<Rightarrow> datetime" where
  "demo_fromts = (\<lambda>_. naive 0)"

definition demo_event :: run_event where
  "demo_event = \<lparr>ev_name = ''run_failed'', ev_context = \<lparr>ctx_source_id = ''a'', ctx_crawl_run_id = ''1'', ctx_task_id = ''t''\<rparr>,
     ev_outcome = FAILED, ev_duration = Some (Fin 0), ev_item_count = Some 0,
     ev_exception = Some (RuntimeError ''password=pw''), ev_extra = []\<rparr>"

theorem format_roundtrip_witness:
  "\<exists>t kvs. format_record (\<lambda>_. False) demo_zone demo_fromts \<lparr>lr_created = 0, lr_levelname = ''ERROR'', lr_run_event = Some demo_event\<rparr> = Inr t \<and>
    loads t = Some (PDict kvs) \<and> (''exception_type'', PStr ''RuntimeError'') \<in> set kvs"
proof -
  have "\<exists>t. format_record (\<lambda>_. False) demo_zone demo_fromts \<lparr>lr_created = 0, lr_levelname = ''ERROR'', lr_run_event = Some demo_event\<rparr> = Inr t \<and>
    loads t = Some (PDict (sort_key fst (event_payload demo_event (isoformat demo_zone (demo_fromts 0)) ''ERROR'')))"
    using format_roundtrip [of "\<lparr>lr_created = 0, lr_levelname = ''ERROR'', lr_run_event = Some demo_event\<rparr>" "\<lambda>_. False" demo_zone demo_fromts]
    by (simp add: demo_event_def is_decimal_def)
  moreover have "(''exception_type'', PStr ''RuntimeError'') \<in>
      set (sort_key fst (event_payload demo_event (isoformat demo_zone (demo_fromts 0)) ''ERROR''))"
    by (simp add: event_payload_def demo_event_def)
  ultimately show ?thesis by blast
qed

text \<open>
  log files stay outside the repository. Settings that \<open>from_environment\<close> accepts have positive
  limits; when they name a directory, the variable held an absolute path and the directory it
  resolves to is not the repository root or below it; without the variable, there is no directory.
\<close>

theorem logging_settings_safe:
  assumes "logging_settings paths environ repo = Inr st"
  shows "0 < max_bytes st \<and> 0 < backup_count st \<and> (case log_file_dir st of
      None \<Rightarrow> strip (environ_get environ ''LOG_FILE_DIR'' []) = []
    | Some d \<Rightarrow> is_absolute paths (strip (environ_get environ ''LOG_FILE_DIR'' [])) \<and>
        d = resolve paths (strip (environ_get environ ''LOG_FILE_DIR'' [])) \<and>
        \<not> (\<exists>rest. d = resolve paths repo @ rest))"
proof -
  have n: "starts_with (resolve paths repo) (resolve paths repo @ rest)" for rest
    by (rule starts_with_append)
  show ?thesis
    using assms n by (auto simp: logging_settings_def is_relative_to_def positive_integer_def Let_def split: option.splits if_splits)
qed

definition demo_paths :: path_ops where
  "demo_paths = \<lparr>is_absolute = (\<lambda>p. starts_with ''/'' p), resolve = (\<lambda>p. map (\<lambda>c. [c]) p)\<rparr>"

theorem logging_settings_safe_witness:
  "\<exists>st. logging_settings demo_paths [''LOG_FILE_DIR'' \<mapsto> '' /l'', ''LOG_MAX_BYTES'' \<mapsto> ''10''] ''/r'' = Inr st \<and>
    log_file_dir st = Some [''/'', ''l''] \<and> \<not> (\<exists>rest. [''/'', ''l''] = [''/'', ''r''] @ rest)"
proof -
  have e: "logging_settings demo_paths [''LOG_FILE_DIR'' \<mapsto> '' /l'', ''LOG_MAX_BYTES'' \<mapsto> ''10''] ''/r'' =
      Inr \<lparr>log_file_dir = Some [''/'', ''l''], max_bytes = 10, backup_count = 7\<rparr>"
    by code_simp
  have "resolve demo_paths ''/r'' = [''/'', ''r'']" by (simp add: demo_paths_def)
  moreover have "\<not> (\<exists>rest. [''/'', ''l''] = resolve demo_paths ''/r'' @ rest)"
    using logging_settings_safe [OF e] unfolding LoggingSettings.simps option.case by blast
  ultimately have "\<not> (\<exists>rest. [''/'', ''l''] = [''/'', ''r''] @ rest)" by simp
  with e show ?thesis by (intro exI conjI) (assumption | simp)+
qed

end
