(* ===== verification/Resilience.thy ===== *)
theory Resilience
  imports Redis JsonRound
begin

section \<open>Retry, circuit breaker and rate limiter (\<open>resilience.py\<close>)\<close>

text \<open>
  \<open>RetryPolicy\<close> and \<open>run_with_retry\<close> over an arbitrary operation, sleep and random source; the
  in-memory \<open>CircuitBreaker\<close> and \<open>FixedWindowRateLimiter\<close> as functions on their dictionaries; and
  \<open>RedisCircuitBreaker\<close> over the operations of \<open>RedisStateStore\<close>, whose values expire. Times and
  delays are exact rationals.

  The lemmas: how often the operation runs and how long the pauses are, what is never retried, the
  breaker as a closed/open/half-open automaton with a single probe, the limiter's bound on every
  window of time, and what the expiry of the stored state does to the Redis breaker.
\<close>

subsection \<open>Retry policy\<close>

record RetryPolicy =
  max_attempts :: int
  base_delay_seconds :: rat
  max_delay_seconds :: rat

definition should_retry :: "RetryPolicy \<Rightarrow> int option \<Rightarrow> exn option \<Rightarrow> bool" where
  "should_retry policy status_code error =
     (if status_code \<in> {Some 401, Some 403} then False
      else status_code \<in> {Some 429, Some 502, Some 503} \<or> (case error of Some e \<Rightarrow> is_ConnectionError e | None \<Rightarrow> False))"

definition delay_seconds :: "RetryPolicy \<Rightarrow> int \<Rightarrow> rat \<Rightarrow> rat" where
  "delay_seconds policy attempt random_value =
     min (max_delay_seconds policy) (base_delay_seconds policy * 2 powi (attempt - 1)) * (1 / 2 + random_value)"

definition retry_after_seconds :: "string option \<Rightarrow> int option result" where
  "retry_after_seconds value = (case value of
       Some v \<Rightarrow> if isdigit v then (case parse_int v of Some n \<Rightarrow> Inr (Some n)
           | None \<Rightarrow> Inl (ValueError ''invalid literal for int() with base 10''))
         else Inr None
     | None \<Rightarrow> Inr None)"

definition should_request_human_review :: "string \<Rightarrow> bool" where
  "should_request_human_review body \<longleftrightarrow>
     contains ''captcha'' (lower body) \<or> contains ''access denied'' (lower body)"

text \<open>What one failed attempt leads to: raise, or pause for a time that may depend on a random value.\<close>

datatype retry_step = Raise exn | PauseFor rat | Backoff

definition after_failure :: "RetryPolicy \<Rightarrow> int \<Rightarrow> exn \<Rightarrow> retry_step" where
  "after_failure policy attempt error = (case error of
       ResponseFailure status retry_after body \<Rightarrow>
         if should_request_human_review body \<or> \<not> should_retry policy (Some status) None then Raise error
         else if attempt = max_attempts policy then Raise error
         else (case retry_after_seconds retry_after of
             Inl e \<Rightarrow> Raise e
           | Inr (Some d) \<Rightarrow> PauseFor (of_int d)
           | Inr None \<Rightarrow> Backoff)
     | _ \<Rightarrow> if is_ConnectionError error
         then (if attempt = max_attempts policy then Raise error else Backoff)
         else Raise error)"

text \<open>\<open>for attempt in range(1, max_attempts + 1)\<close>: the last argument counts the attempts left.\<close>

fun retry_loop :: "RetryPolicy \<Rightarrow> ('s, 'a) py \<Rightarrow> (rat \<Rightarrow> ('s, unit) py) \<Rightarrow> ('s, rat) py \<Rightarrow>
    int \<Rightarrow> nat \<Rightarrow> ('s, 'a) py" where
  "retry_loop policy operation sleep random attempt 0 s = (Inl (RuntimeError ''retry loop exhausted''), s)"
| "retry_loop policy operation sleep random attempt (Suc n) s = (case operation s of
       (Inr x, t) \<Rightarrow> (Inr x, t)
     | (Inl e, t) \<Rightarrow> (case after_failure policy attempt e of
           Raise e' \<Rightarrow> (Inl e', t)
         | PauseFor d \<Rightarrow> thenP (sleep d) (retry_loop policy operation sleep random (attempt + 1) n) t
         | Backoff \<Rightarrow> bindP random (\<lambda>r. thenP (sleep (delay_seconds policy attempt r))
             (retry_loop policy operation sleep random (attempt + 1) n)) t))"

definition run_with_retry :: "RetryPolicy \<Rightarrow> ('s, 'a) py \<Rightarrow> (rat \<Rightarrow> ('s, unit) py) \<Rightarrow> ('s, rat) py \<Rightarrow>
    ('s, 'a) py" where
  "run_with_retry policy operation sleep random =
     retry_loop policy operation sleep random 1 (nat (max_attempts policy))"

subsection \<open>In-memory circuit breaker\<close>

record circuit =
  failures :: int
  opened_at :: "rat option"
  half_open :: bool

definition closed_circuit :: circuit where
  "closed_circuit = \<lparr>failures = 0, opened_at = None, half_open = False\<rparr>"

record CircuitBreaker =
  failure_threshold :: int
  recovery_seconds :: rat

type_synonym circuits = "string \<Rightarrow> circuit option"

definition circuit_of :: "circuits \<Rightarrow> string \<Rightarrow> circuit" where
  "circuit_of st source_id = (case st source_id of Some c \<Rightarrow> c | None \<Rightarrow> closed_circuit)"

definition allow_request :: "CircuitBreaker \<Rightarrow> string \<Rightarrow> rat \<Rightarrow> circuits \<Rightarrow> bool \<times> circuits" where
  "allow_request cfg source_id now st = (let c = circuit_of st source_id; st1 = st(source_id \<mapsto> c) in
     (case opened_at c of
       None \<Rightarrow> (True, st1)
     | Some t \<Rightarrow>
         if now - t < recovery_seconds cfg then (False, st1)
         else if half_open c then (False, st1)
         else (True, st(source_id \<mapsto> c\<lparr>half_open := True\<rparr>))))"

definition record_failure :: "CircuitBreaker \<Rightarrow> string \<Rightarrow> rat \<Rightarrow> circuits \<Rightarrow> circuits" where
  "record_failure cfg source_id now st = (let c = circuit_of st source_id; n = failures c + 1 in
     if n \<ge> failure_threshold cfg
     then st(source_id \<mapsto> \<lparr>failures = n, opened_at = Some now, half_open = False\<rparr>)
     else st(source_id \<mapsto> c\<lparr>failures := n\<rparr>))"

definition record_success :: "string \<Rightarrow> circuits \<Rightarrow> circuits" where
  "record_success source_id st = st(source_id \<mapsto> closed_circuit)"

subsection \<open>Fixed-window rate limiter\<close>

record RateLimiter =
  max_requests :: int
  window_seconds :: rat

type_synonym windows = "string \<Rightarrow> (rat \<times> int) option"

definition limiter_allow :: "RateLimiter \<Rightarrow> string \<Rightarrow> rat \<Rightarrow> windows \<Rightarrow> bool \<times> windows" where
  "limiter_allow cfg source_id now st =
     (let (start, cnt) = (case st source_id of Some w \<Rightarrow> w | None \<Rightarrow> (now, 0));
          (start, cnt) = (if now - start \<ge> window_seconds cfg then (now, 0) else (start, cnt))
      in if cnt \<ge> max_requests cfg then (False, st) else (True, st(source_id \<mapsto> (start, cnt + 1))))"

subsection \<open>Redis circuit breaker\<close>

record RedisCircuitBreaker =
  threshold :: int
  recovery :: int

definition circuit_key :: "string \<Rightarrow> string" where
  "circuit_key source_id = ''circuit:'' @ source_id"

text \<open>\<open>float(v)\<close> and \<open>int(v)\<close> on a decoded JSON value; the text forms are not written by the breaker
  and raise here.\<close>

definition py_float :: "pyval \<Rightarrow> pyfloat result" where
  "py_float v = (case v of
       PFloat f \<Rightarrow> Inr f
     | PInt i \<Rightarrow> Inr (Fin (of_int i))
     | PBool b \<Rightarrow> Inr (Fin (if b then 1 else 0))
     | PStr s \<Rightarrow> Inl (ValueError ''could not convert string to float'')
     | _ \<Rightarrow> Inl (TypeError ''float() argument must be a string or a real number''))"

definition py_int :: "pyval \<Rightarrow> int result" where
  "py_int v = (case v of
       PInt i \<Rightarrow> Inr i
     | PBool b \<Rightarrow> Inr (if b then 1 else 0)
     | PFloat (Fin r) \<Rightarrow> Inr (if r < 0 then \<lceil>r\<rceil> else \<lfloor>r\<rfloor>)
     | PFloat NaN \<Rightarrow> Inl (ValueError ''cannot convert float NaN to integer'')
     | PFloat _ \<Rightarrow> Inl (OverflowError ''cannot convert float infinity to integer'')
     | PStr s \<Rightarrow> (case parse_int s of Some i \<Rightarrow> Inr i | None \<Rightarrow> Inl (ValueError ''invalid literal for int()''))
     | _ \<Rightarrow> Inl (TypeError ''int() argument must be a string or a real number''))"

definition float_minus_less :: "rat \<Rightarrow> pyfloat \<Rightarrow> rat \<Rightarrow> bool" where
  "float_minus_less now f r = (case f of Fin t \<Rightarrow> now - t < r | PosInf \<Rightarrow> True | _ \<Rightarrow> False)"

text \<open>\<open>json.loads(store.get(key) or "{}")\<close>, and \<open>state.get(k)\<close>, which only a dictionary has.\<close>

definition circuit_state :: "'s ttl_ops \<Rightarrow> string \<Rightarrow> ('s, pyval) py" where
  "circuit_state ops key = bindP (ttl_get ops key) (\<lambda>value.
     let t = (case value of Some t \<Rightarrow> if t = [] then ''{}'' else t | None \<Rightarrow> ''{}'') in
     liftR (json_loads t))"

definition dict_get :: "pyval \<Rightarrow> string \<Rightarrow> pyval option result" where
  "dict_get d k = (case d of PDict kvs \<Rightarrow> Inr (map_of kvs k) | _ \<Rightarrow> Inl (OtherException ''AttributeError''))"

definition truthy :: "pyval option \<Rightarrow> bool" where
  "truthy v = (case v of None \<Rightarrow> False | Some x \<Rightarrow> py_bool x)"

definition dict_set :: "pyval \<Rightarrow> string \<Rightarrow> pyval \<Rightarrow> pyval" where
  "dict_set d k v = (case d of PDict kvs \<Rightarrow> PDict (AList.update k v kvs) | _ \<Rightarrow> d)"

definition redis_allow_request :: "'s ttl_ops \<Rightarrow> RedisCircuitBreaker \<Rightarrow> string \<Rightarrow> rat \<Rightarrow> ('s, bool) py" where
  "redis_allow_request ops cfg source_id now =
     bindP (circuit_state ops (circuit_key source_id)) (\<lambda>d.
     bindP (liftR (dict_get d ''opened'')) (\<lambda>opened.
     case opened of
       None \<Rightarrow> ret True
     | Some PNone \<Rightarrow> ret True
     | Some v \<Rightarrow>
         bindP (liftR (py_float v)) (\<lambda>t.
         if float_minus_less now t (of_int (recovery cfg)) then ret False
         else bindP (liftR (dict_get d ''half_open'')) (\<lambda>h.
           if truthy h then ret False
           else
             bindP (liftR (dumps default_style (dict_set d ''half_open'' (PBool True)))) (\<lambda>x.
             bindP (ttl_set ops (circuit_key source_id) x (Some (recovery cfg))) (\<lambda>_. ret True))))))"

definition redis_record_failure :: "'s ttl_ops \<Rightarrow> RedisCircuitBreaker \<Rightarrow> string \<Rightarrow> rat \<Rightarrow> ('s, unit) py" where
  "redis_record_failure ops cfg source_id now =
     bindP (circuit_state ops (circuit_key source_id)) (\<lambda>d.
     bindP (liftR (dict_get d ''failures'')) (\<lambda>f.
     bindP (liftR (py_int (case f of Some v \<Rightarrow> v | None \<Rightarrow> PInt 0))) (\<lambda>n.
     bindP (liftR (dumps default_style (if n + 1 \<ge> threshold cfg
         then PDict [(''failures'', PInt (n + 1)), (''opened'', PFloat (Fin now))]
         else PDict [(''failures'', PInt (n + 1))]))) (\<lambda>x.
       ttl_set ops (circuit_key source_id) x (Some (recovery cfg))))))"

definition redis_record_success :: "'s ttl_ops \<Rightarrow> string \<Rightarrow> ('s, unit) py" where
  "redis_record_success ops source_id = ttl_set ops (circuit_key source_id) ''{}'' (Some 1)"

subsection \<open>Retry: how often and how long\<close>

lemma after_failure_last: "\<exists>e'. after_failure policy (max_attempts policy) e = Raise e'"
  by (cases e) (auto simp: after_failure_def)

text \<open>The world of a retried operation: how often it has run and how often the loop has paused.\<close>

locale retry_env =
  fixes operation :: "('s, 'a) py"
    and sleep :: "rat \<Rightarrow> ('s, unit) py"
    and random :: "('s, rat) py"
    and calls :: "'s \<Rightarrow> nat"
    and pauses :: "'s \<Rightarrow> nat"
  assumes operation_calls: "operation s = (r, t) \<Longrightarrow> calls t = calls s + 1 \<and> pauses t = pauses s"
    and sleep_calls: "sleep d s = (u, t) \<Longrightarrow> calls t = calls s \<and> pauses t = pauses s + 1"
    and random_calls: "random s = (x, t) \<Longrightarrow> calls t = calls s \<and> pauses t = pauses s"
begin

lemma retry_loop_bounds:
  "retry_loop policy operation sleep random attempt n s = (r, t) \<Longrightarrow> attempt + int n = max_attempts policy + 1 \<Longrightarrow>
     calls s + min 1 n \<le> calls t \<and> calls t \<le> calls s + n \<and> pauses t \<le> pauses s + (n - 1)"
proof (induction n arbitrary: attempt s)
  case 0
  then show ?case by auto
next
  case (Suc n)
  obtain o' s1 where o: "operation s = (o', s1)" by (cases "operation s")
  note o1 = operation_calls [OF o]
  have pause: "calls s + 1 \<le> calls t \<and> calls t \<le> calls s + Suc n \<and> pauses t \<le> pauses s + n"
    if f: "after_failure policy attempt e = PauseFor d' \<or> after_failure policy attempt e = Backoff"
      and s2: "calls s2 = calls s1" "pauses s2 = pauses s1"
      and t: "thenP (sleep d) (retry_loop policy operation sleep random (attempt + 1) n) s2 = (r, t)" for e d d' s2
  proof -
    have n: "n \<noteq> 0" by (rule notI) (use f Suc.prems(2) after_failure_last [of policy e] in auto)
    obtain u s3 where u: "sleep d s2 = (u, s3)" by (cases "sleep d s2")
    show ?thesis
    proof (cases u)
      case (Inl e)
      then show ?thesis using t u sleep_calls [OF u] s2 o1 n by auto
    next
      case (Inr x)
      then have "retry_loop policy operation sleep random (attempt + 1) n s3 = (r, t)" using t u by simp
      from Suc.IH [OF this] Suc.prems(2) show ?thesis using sleep_calls [OF u] s2 o1 n by simp
    qed
  qed
  have stay: "calls s + 1 \<le> calls s2 \<and> calls s2 \<le> calls s + Suc n \<and> pauses s2 \<le> pauses s + n"
    if "calls s2 = calls s1" "pauses s2 = pauses s1" for s2 using that o1 by simp
  show ?case
    using Suc.prems(1) o stay [of s1] stay [OF random_calls [THEN conjunct1] random_calls [THEN conjunct2]]
      pause [OF _ refl refl] pause [OF _ random_calls [THEN conjunct1] random_calls [THEN conjunct2]]
    by (fastforce simp: bindP_def split: sum.splits prod.splits retry_step.splits)
qed

end

text \<open>A scripted world: the operation's outcomes in order, and the pauses made.\<close>

record 'a script =
  outs :: "'a result list"
  ran :: nat
  naps :: "rat list"

definition scripted_op :: "('a script, 'a) py" where
  "scripted_op s = (case outs s of [] \<Rightarrow> (Inl (RuntimeError ''end of script''), s\<lparr>ran := ran s + 1\<rparr>)
     | r # rs \<Rightarrow> (r, s\<lparr>outs := rs, ran := ran s + 1\<rparr>))"

definition scripted_sleep :: "rat \<Rightarrow> ('a script, unit) py" where
  "scripted_sleep d s = (Inr (), s\<lparr>naps := naps s @ [d]\<rparr>)"

lemma scripted_sleep_then: "thenP (scripted_sleep d) m s = m (s\<lparr>naps := naps s @ [d]\<rparr>)"
  by (simp add: thenP_def bindP_def scripted_sleep_def)

interpretation scripted: retry_env scripted_op scripted_sleep "ret x" ran "\<lambda>s. length (naps s)" for x
  by unfold_locales (auto simp: scripted_op_def scripted_sleep_def split: list.splits)

text \<open>The failures that are retried.\<close>

definition transient :: "'a result \<Rightarrow> bool" where
  "transient r = (case r of
       Inl (ResponseFailure status _ body) \<Rightarrow> status \<in> {429, 502, 503} \<and> \<not> should_request_human_review body
     | Inl e \<Rightarrow> is_ConnectionError e
     | Inr _ \<Rightarrow> False)"

definition retry_after_ok :: "'a result \<Rightarrow> bool" where
  "retry_after_ok r = (case r of Inl (ResponseFailure _ v _) \<Rightarrow> \<not> isl (retry_after_seconds v) | _ \<Rightarrow> True)"

lemma after_failure_transient:
  "transient (Inl e :: 'a result) \<Longrightarrow> retry_after_ok (Inl e :: 'a result) \<Longrightarrow> attempt \<noteq> max_attempts policy \<Longrightarrow>
     (\<exists>d. after_failure policy attempt e = PauseFor d) \<or> after_failure policy attempt e = Backoff"
  by (cases e) (auto simp: transient_def retry_after_ok_def after_failure_def should_retry_def
      split: sum.splits option.splits)

lemma after_failure_final: "\<not> transient (Inl e :: 'a result) \<Longrightarrow> after_failure policy attempt e = Raise e"
  by (cases e) (auto simp: transient_def after_failure_def should_retry_def)

lemma after_failure_max: "retry_after_ok (Inl e :: 'a result) \<Longrightarrow>
    after_failure policy (max_attempts policy) e = Raise e"
  by (cases e) (auto simp: after_failure_def)

text \<open>The outcome that counts: the first one that is not retried, or the one of the last attempt.\<close>

fun final_outcome :: "nat \<Rightarrow> 'a result list \<Rightarrow> 'a result" where
  "final_outcome (Suc n) (r # rs) = (if transient r \<and> n \<noteq> 0 then final_outcome n rs else r)"
| "final_outcome _ _ = Inl (RuntimeError ''retry loop exhausted'')"

lemma retry_loop_script:
  assumes "attempt + int n = max_attempts policy + 1" and "n \<le> length (outs s)" and "list_all retry_after_ok (outs s)"
  shows "fst (retry_loop policy scripted_op scripted_sleep (ret x) attempt n s) = final_outcome n (outs s)"
  using assms
proof (induction n arbitrary: attempt s)
  case 0
  then show ?case by simp
next
  case (Suc n)
  obtain r rs where o: "outs s = r # rs" using Suc.prems(2) by (cases "outs s") auto
  let ?s1 = "s\<lparr>outs := rs, ran := ran s + 1\<rparr>"
  have op: "scripted_op s = (r, ?s1)" by (simp add: scripted_op_def o)
  have ok: "retry_after_ok r" "list_all retry_after_ok rs" using Suc.prems(3) o by auto
  have IH: "fst (retry_loop policy scripted_op scripted_sleep (ret x) (attempt + 1) n t) = final_outcome n rs"
    if "outs t = rs" for t
    unfolding that [symmetric] by (rule Suc.IH) (use Suc.prems(1,2) o ok that in simp_all)
  show ?case
  proof (cases r)
    case (Inr y)
    then show ?thesis using op o by (simp add: transient_def)
  next
    case (Inl e)
    show ?thesis
    proof (cases "transient r \<and> n \<noteq> 0")
      case False
      have "after_failure policy attempt e = Raise e"
      proof (cases "transient r")
        case True
        then have "attempt = max_attempts policy" using False Suc.prems(1) by simp
        then show ?thesis using after_failure_max ok(1) Inl by blast
      qed (use after_failure_final Inl in blast)
      moreover have "final_outcome (Suc n) (outs s) = r" using o False by auto
      ultimately show ?thesis using op Inl by simp
    next
      case True
      then have "attempt \<noteq> max_attempts policy" using Suc.prems(1) by simp
      moreover have "transient (Inl e :: 'a result)" "retry_after_ok (Inl e :: 'a result)" using True ok Inl by auto
      ultimately consider d where "after_failure policy attempt e = PauseFor d" | "after_failure policy attempt e = Backoff"
        using after_failure_transient by blast
      then show ?thesis
        using op o Inl True IH by cases (simp_all add: scripted_sleep_then del: ret_apply)
    qed
  qed
qed

subsection \<open>The breaker as an automaton\<close>

text \<open>The states of one source's circuit, and what the three methods do to them.\<close>

datatype breaker_state = Closed int | Open rat | Probing rat

fun spec_allow :: "CircuitBreaker \<Rightarrow> rat \<Rightarrow> breaker_state \<Rightarrow> bool \<times> breaker_state" where
  "spec_allow cfg now (Closed n) = (True, Closed n)"
| "spec_allow cfg now (Open t) = (if now - t < recovery_seconds cfg then (False, Open t) else (True, Probing t))"
| "spec_allow cfg now (Probing t) = (False, Probing t)"

fun spec_failure :: "CircuitBreaker \<Rightarrow> rat \<Rightarrow> breaker_state \<Rightarrow> breaker_state" where
  "spec_failure cfg now (Closed n) = (if n + 1 \<ge> failure_threshold cfg then Open now else Closed (n + 1))"
| "spec_failure cfg now (Open t) = Open now"
| "spec_failure cfg now (Probing t) = Open now"

definition breaker_abs :: "circuit \<Rightarrow> breaker_state" where
  "breaker_abs c = (case opened_at c of None \<Rightarrow> Closed (failures c)
     | Some t \<Rightarrow> if half_open c then Probing t else Open t)"

definition circuit_ok :: "CircuitBreaker \<Rightarrow> circuit \<Rightarrow> bool" where
  "circuit_ok cfg c \<longleftrightarrow> (case opened_at c of
       None \<Rightarrow> failures c < failure_threshold cfg \<and> \<not> half_open c
     | Some _ \<Rightarrow> failure_threshold cfg \<le> failures c)"

datatype breaker_call = Allow rat | Failure rat | Success

fun do_breaker :: "CircuitBreaker \<Rightarrow> string \<times> breaker_call \<Rightarrow> circuits \<Rightarrow> bool \<times> circuits" where
  "do_breaker cfg (sid, Allow now) st = allow_request cfg sid now st"
| "do_breaker cfg (sid, Failure now) st = (True, record_failure cfg sid now st)"
| "do_breaker cfg (sid, Success) st = (True, record_success sid st)"

fun spec_breaker :: "CircuitBreaker \<Rightarrow> breaker_call \<Rightarrow> breaker_state \<Rightarrow> bool \<times> breaker_state" where
  "spec_breaker cfg (Allow now) p = spec_allow cfg now p"
| "spec_breaker cfg (Failure now) p = (True, spec_failure cfg now p)"
| "spec_breaker cfg Success p = (True, Closed 0)"

text \<open>A run: the answer of every call (True for the two that return nothing), and the last state.\<close>

fun run_breaker :: "CircuitBreaker \<Rightarrow> (string \<times> breaker_call) list \<Rightarrow> circuits \<Rightarrow>
    (string \<times> bool) list \<times> circuits" where
  "run_breaker cfg [] st = ([], st)"
| "run_breaker cfg (c # cs) st = (case do_breaker cfg c st of (b, st1) \<Rightarrow>
     case run_breaker cfg cs st1 of (bs, st2) \<Rightarrow> ((fst c, b) # bs, st2))"

fun run_spec :: "CircuitBreaker \<Rightarrow> breaker_call list \<Rightarrow> breaker_state \<Rightarrow> bool list \<times> breaker_state" where
  "run_spec cfg [] p = ([], p)"
| "run_spec cfg (c # cs) p = (case spec_breaker cfg c p of (b, p1) \<Rightarrow>
     case run_spec cfg cs p1 of (bs, p2) \<Rightarrow> (b # bs, p2))"

lemma circuit_of_simps [simp]: "circuit_of (st(q \<mapsto> c)) q = c"
  "p \<noteq> q \<Longrightarrow> circuit_of (st(q \<mapsto> c)) p = circuit_of st p"
  by (simp_all add: circuit_of_def)

lemma do_breaker_same:
  assumes "circuit_ok cfg (circuit_of st sid)" and "0 < failure_threshold cfg"
    and "do_breaker cfg (sid, c) st = (b, st')"
  shows "circuit_ok cfg (circuit_of st' sid) \<and>
    spec_breaker cfg c (breaker_abs (circuit_of st sid)) = (b, breaker_abs (circuit_of st' sid))"
  using assms
  by (cases c) (auto simp: allow_request_def record_failure_def record_success_def circuit_ok_def breaker_abs_def
      Let_def closed_circuit_def split: option.splits if_splits)

lemma do_breaker_other: "do_breaker cfg (q, c) st = (b, st') \<Longrightarrow> sid \<noteq> q \<Longrightarrow> circuit_of st' sid = circuit_of st sid"
  by (cases c) (auto simp: allow_request_def record_failure_def record_success_def Let_def
      split: option.splits if_splits)

lemma run_breaker_refines:
  assumes "0 < failure_threshold cfg" and "circuit_ok cfg (circuit_of st sid)"
    and "run_breaker cfg cs st = (bs, st')"
  shows "circuit_ok cfg (circuit_of st' sid) \<and>
    run_spec cfg (map snd (filter (\<lambda>c. fst c = sid) cs)) (breaker_abs (circuit_of st sid)) =
      (map snd (filter (\<lambda>c. fst c = sid) bs), breaker_abs (circuit_of st' sid))"
  using assms(2,3)
proof (induction cs arbitrary: st bs)
  case Nil
  then show ?case by auto
next
  case (Cons c cs)
  obtain b st1 where 1: "do_breaker cfg c st = (b, st1)" by (cases "do_breaker cfg c st")
  obtain bs2 st2 where 2: "run_breaker cfg cs st1 = (bs2, st2)" by (cases "run_breaker cfg cs st1")
  have e: "bs = (fst c, b) # bs2" "st2 = st'" using Cons.prems(2) 1 2 by auto
  note 2 = 2 [unfolded e(2)]
  obtain q cc where c: "c = (q, cc)" by (cases c)
  show ?case
  proof (cases "q = sid")
    case True
    with do_breaker_same [OF Cons.prems(1) assms(1), of cc b st1] 1 c have s:
      "circuit_ok cfg (circuit_of st1 sid)"
      "spec_breaker cfg cc (breaker_abs (circuit_of st sid)) = (b, breaker_abs (circuit_of st1 sid))" by auto
    show ?thesis using Cons.IH [OF s(1) 2] s(2) e c True by simp
  next
    case False
    then have "circuit_of st1 sid = circuit_of st sid" using do_breaker_other 1 c by metis
    then show ?thesis using Cons.IH [OF _ 2] Cons.prems(1) e c False by simp
  qed
qed

text \<open>The probe: while it is out, no request is allowed.\<close>

lemma spec_probing: "run_spec cfg (map Allow nows) (Probing t) = (replicate (length nows) False, Probing t)"
  by (induction nows) simp_all

lemma spec_open_allows:
  "run_spec cfg (map Allow nows) (Open t) =
     (let k = length (takeWhile (\<lambda>now. now - t < recovery_seconds cfg) nows) in
      (map (\<lambda>i. i = k) [0..<length nows], if k = length nows then Open t else Probing t))"
proof (induction nows)
  case Nil
  then show ?case by simp
next
  case (Cons now nows)
  have u: "[0..<Suc (length nows)] = 0 # map Suc [0..<length nows]"
    using upt_conv_Cons [of 0 "Suc (length nows)"] by (simp add: map_Suc_upt del: upt_Suc)
  show ?case
  proof (cases "now - t < recovery_seconds cfg")
    case True
    then show ?thesis using Cons u by (simp add: Let_def comp_def del: upt_Suc)
  next
    case False
    have "map ((\<lambda>i. i = 0) \<circ> Suc) [0..<length nows] = replicate (length nows) False"
      by (simp add: comp_def map_replicate_const)
    then show ?thesis using False u spec_probing by (simp add: Let_def del: upt_Suc)
  qed
qed

subsection \<open>The limiter's bound\<close>

fun run_limiter :: "RateLimiter \<Rightarrow> (string \<times> rat) list \<Rightarrow> windows \<Rightarrow> (string \<times> rat) list \<times> windows" where
  "run_limiter cfg [] st = ([], st)"
| "run_limiter cfg ((q, now) # cs) st = (case limiter_allow cfg q now st of (b, st1) \<Rightarrow>
     case run_limiter cfg cs st1 of (al, st2) \<Rightarrow> (if b then (q, now) # al else al, st2))"

definition in_window :: "rat \<Rightarrow> rat \<Rightarrow> rat list \<Rightarrow> nat" where
  "in_window a w ts = length (filter (\<lambda>t. a \<le> t \<and> t < a + w) ts)"

lemma length_filter_mono: "(\<And>x. P x \<Longrightarrow> Q x) \<Longrightarrow> length (filter P xs) \<le> length (filter Q xs)"
  by (induction xs) auto

text \<open>What holds of a source's window, the admissions of the earlier windows (\<open>prev\<close>) and those of the
  current one (\<open>cur\<close>), all at or before \<open>latest\<close>.\<close>

definition limiter_inv :: "RateLimiter \<Rightarrow> (rat \<times> int) option \<Rightarrow> rat list \<Rightarrow> rat list \<Rightarrow> rat \<Rightarrow> bool" where
  "limiter_inv cfg win prev cur latest \<longleftrightarrow> (case win of
       None \<Rightarrow> prev = [] \<and> cur = []
     | Some (ws, c) \<Rightarrow> c = int (length cur) \<and> c \<le> max_requests cfg \<and> ws \<le> latest \<and> (\<forall>t \<in> set cur. ws \<le> t \<and> t \<le> latest) \<and>
         (\<forall>t \<in> set prev. t \<le> ws) \<and>
         int (length (filter (\<lambda>t. ws - window_seconds cfg < t) prev)) \<le> max_requests cfg \<and>
         (\<forall>a. int (in_window a (window_seconds cfg) prev) \<le> 2 * max_requests cfg))"

lemma limiter_inv_bound:
  assumes inv: "limiter_inv cfg win prev cur latest" and m: "0 \<le> max_requests cfg"
  shows "int (in_window a (window_seconds cfg) (prev @ cur)) \<le> 2 * max_requests cfg"
proof (cases win)
  case None
  then show ?thesis using inv m by (simp add: limiter_inv_def in_window_def)
next
  case (Some w)
  obtain ws c where w: "w = (ws, c)" by (cases w)
  let ?in = "\<lambda>t. a \<le> t \<and> t < a + window_seconds cfg"
  have i: "int (length cur) \<le> max_requests cfg" "\<forall>t \<in> set cur. ws \<le> t"
    "int (length (filter (\<lambda>t. ws - window_seconds cfg < t) prev)) \<le> max_requests cfg"
    "int (in_window a (window_seconds cfg) prev) \<le> 2 * max_requests cfg"
    using inv Some w by (auto simp: limiter_inv_def)
  show ?thesis
  proof (cases "\<exists>t \<in> set cur. ?in t")
    case False
    then have "filter ?in cur = []" by (simp add: filter_empty_conv)
    then show ?thesis using i(4) by (simp add: in_window_def)
  next
    case True
    then obtain t where t: "t \<in> set cur" "?in t" by blast
    then have "ws - window_seconds cfg < a" using i(2) by force
    then have "length (filter ?in prev) \<le> length (filter (\<lambda>t. ws - window_seconds cfg < t) prev)"
      by (intro length_filter_mono) auto
    moreover have "length (filter ?in cur) \<le> length cur" by (rule length_filter_le)
    ultimately show ?thesis using i(1,3)
      unfolding in_window_def filter_append length_append of_nat_add by linarith
  qed
qed

lemma limiter_allow_step:
  assumes inv: "limiter_inv cfg (st sid) prev cur latest" and now: "latest \<le> now" and w: "0 < window_seconds cfg"
    and m: "0 \<le> max_requests cfg" and a: "limiter_allow cfg sid now st = (b, st')"
  shows "\<exists>prev' cur'. limiter_inv cfg (st' sid) prev' cur' now \<and>
    prev' @ cur' = prev @ cur @ (if b then [now] else [])"
proof (cases "st sid")
  case None
  with inv have "prev = []" "cur = []" by (simp_all add: limiter_inv_def)
  with None a w m show ?thesis
    by (intro exI [of _ "[]"] exI [of _ "if b then [now] else []"])
      (auto simp: limiter_allow_def limiter_inv_def in_window_def split: if_splits)
next
  case (Some win)
  obtain ws c where ws: "win = (ws, c)" by (cases win)
  note i = inv [unfolded limiter_inv_def Some ws, simplified]
  show ?thesis
  proof (cases "window_seconds cfg \<le> now - ws")
    case False
    then have r: "b = (c < max_requests cfg)" "st' sid = (if b then Some (ws, c + 1) else Some (ws, c))"
      using a Some ws by (auto simp: limiter_allow_def split: if_splits)
    show ?thesis
      by (intro exI [of _ prev] exI [of _ "if b then cur @ [now] else cur"]) (use i r now in \<open>auto simp: limiter_inv_def\<close>)
  next
    case True
    have r: "b = (0 < max_requests cfg)" "st' sid = (if b then Some (now, 1) else Some (ws, c))"
      using a Some ws True by (auto simp: limiter_allow_def split: if_splits)
    show ?thesis
    proof (cases b)
      case False
      then show ?thesis using i r now
        by (intro exI [of _ prev] exI [of _ cur]) (auto simp: limiter_inv_def)
    next
      case b: True
      have none: "filter (\<lambda>t. now - window_seconds cfg < t) prev = []"
        using i True by (force simp: filter_empty_conv)
      have "length (filter (\<lambda>t. now - window_seconds cfg < t) cur) \<le> length cur" by (rule length_filter_le)
      then have "int (length (filter (\<lambda>t. now - window_seconds cfg < t) (prev @ cur))) \<le> max_requests cfg"
        using i unfolding filter_append none append.left_neutral by linarith
      moreover have "\<forall>x. int (in_window x (window_seconds cfg) (prev @ cur)) \<le> 2 * max_requests cfg"
        using limiter_inv_bound [OF inv m] by blast
      moreover have "\<forall>t \<in> set (prev @ cur). t \<le> now" using i now by force
      ultimately show ?thesis
        by (intro exI [of _ "prev @ cur"] exI [of _ "[now]"]) (use b r in \<open>auto simp: limiter_inv_def\<close>)
    qed
  qed
qed

lemma limiter_allow_other: "limiter_allow cfg q now st = (b, st') \<Longrightarrow> q \<noteq> sid \<Longrightarrow> st' sid = st sid"
  by (auto simp: limiter_allow_def Let_def split: option.splits if_splits)

lemma limiter_inv_later: "limiter_inv cfg win prev cur latest \<Longrightarrow> latest \<le> now \<Longrightarrow> limiter_inv cfg win prev cur now"
  by (auto simp: limiter_inv_def split: option.splits)

lemma run_limiter_bound:
  assumes w: "0 < window_seconds cfg" and m: "0 \<le> max_requests cfg"
  shows "run_limiter cfg cs st = (al, st') \<Longrightarrow> limiter_inv cfg (st sid) prev cur latest \<Longrightarrow>
    sorted (latest # map snd cs) \<Longrightarrow>
    int (in_window a (window_seconds cfg) (prev @ cur @ map snd (filter (\<lambda>c. fst c = sid) al))) \<le> 2 * max_requests cfg"
proof (induction cs arbitrary: st al prev cur latest)
  case Nil
  then show ?case using limiter_inv_bound [OF _ m] by auto
next
  case (Cons c cs)
  obtain q now where c: "c = (q, now)" by (cases c)
  obtain b st1 where 1: "limiter_allow cfg q now st = (b, st1)" by (cases "limiter_allow cfg q now st")
  obtain al2 st2 where 2: "run_limiter cfg cs st1 = (al2, st2)" by (cases "run_limiter cfg cs st1")
  have e: "al = (if b then (q, now) # al2 else al2)" "st2 = st'" using Cons.prems(1) c 1 2 by auto
  have s: "latest \<le> now" "sorted (now # map snd cs)" using Cons.prems(3) c by auto
  show ?case
  proof (cases "q = sid")
    case True
    with limiter_allow_step [of cfg st sid prev cur latest now b st1] Cons.prems(2) s(1) w m 1 obtain prev' cur' where
      n: "limiter_inv cfg (st1 sid) prev' cur' now" "prev' @ cur' = prev @ cur @ (if b then [now] else [])"
      by auto
    have "int (in_window a (window_seconds cfg) ((prev' @ cur') @ map snd (filter (\<lambda>c. fst c = sid) al2))) \<le> 2 * max_requests cfg"
      using Cons.IH [OF 2 [unfolded e(2)] n(1) s(2)] by simp
    then show ?thesis using e True unfolding n(2) by auto
  next
    case False
    then have "limiter_inv cfg (st1 sid) prev cur now"
      using limiter_allow_other [OF 1 False] limiter_inv_later [OF Cons.prems(2) s(1)] by simp
    from Cons.IH [OF 2 [unfolded e(2)] this s(2)] show ?thesis using e False by auto
  qed
qed

subsection \<open>The Redis breaker and the expiry of its state\<close>

text \<open>What a failure stores, on any state that decodes to a dictionary with \<open>n\<close> failures so far.\<close>

definition failure_doc :: "RedisCircuitBreaker \<Rightarrow> int \<Rightarrow> rat \<Rightarrow> pyval" where
  "failure_doc cfg n now = (if n + 1 \<ge> threshold cfg
     then PDict [(''failures'', PInt (n + 1)), (''opened'', PFloat (Fin now))] else PDict [(''failures'', PInt (n + 1))])"

context ttl_store
begin

lemma circuit_state_up:
  assumes "up s"
  obtains t where "circuit_state ops key s = (json_loads (case tview s key of
      Some (x, _) \<Rightarrow> if x = [] then ''{}'' else x | None \<Rightarrow> ''{}''), t)"
    and "tview t = tview s" and "now_ms t = now_ms s" and "up t"
proof -
  obtain t where t: "ttl_get ops key s = (Inr (map_option fst (tview s key)), t)"
    "tview t = tview s" "now_ms t = now_ms s" "up t" using tget_upE [OF assms] .
  have "circuit_state ops key s = (json_loads (case tview s key of
      Some (x, _) \<Rightarrow> if x = [] then ''{}'' else x | None \<Rightarrow> ''{}''), t)"
    using t(1) by (auto simp: circuit_state_def Let_def split: option.split)
  with t that show ?thesis by blast
qed

lemma json_loads_empty: "json_loads ''{}'' = Inr (PDict [])"
  by code_simp

lemma allow_absent:
  assumes "up s" and "tview s (circuit_key sid) = None"
  shows "\<exists>t. redis_allow_request ops cfg sid now s = (Inr True, t) \<and> tview t = tview s \<and> now_ms t = now_ms s \<and> up t"
proof -
  obtain t where "circuit_state ops (circuit_key sid) s = (json_loads ''{}'', t)"
    "tview t = tview s" "now_ms t = now_ms s" "up t"
    using circuit_state_up [OF assms(1), of "circuit_key sid"] assms(2) by auto
  then show ?thesis by (simp add: redis_allow_request_def json_loads_empty dict_get_def)
qed

lemma allow_absent_all:
  "up s \<Longrightarrow> tview s (circuit_key sid) = None \<Longrightarrow>
    \<exists>t. mapP (redis_allow_request ops cfg sid) nows s = (Inr (replicate (length nows) True), t)"
proof (induction nows arbitrary: s)
  case (Cons now nows)
  obtain t where t: "redis_allow_request ops cfg sid now s = (Inr True, t)" "tview t = tview s" "up t"
    using allow_absent [OF Cons.prems] by blast
  obtain u where "mapP (redis_allow_request ops cfg sid) nows t = (Inr (replicate (length nows) True), u)"
    using Cons.IH [of t] t Cons.prems by auto
  then show ?case using t by simp
qed simp

lemma record_failure_Inr:
  assumes "0 < recovery cfg" and "redis_record_failure ops cfg sid now s = (Inr u, t)"
  shows "\<exists>n x. dumps default_style (failure_doc cfg n now) = Inr x \<and> now_ms t = now_ms s \<and>
    tview t = (tview s)(circuit_key sid \<mapsto> (x, Some (now_ms s + 1000 * recovery cfg)))"
proof -
  have get: "ttl_get ops k s1 = (r, s2) \<Longrightarrow> tview s2 = tview s1 \<and> now_ms s2 = now_ms s1" for k s1 r s2
    using tget_Inr tget_Inl by (cases r) blast+
  obtain d s1 where d: "circuit_state ops (circuit_key sid) s = (Inr d, s1)"
    using assms(2) by (cases "circuit_state ops (circuit_key sid) s"; cases "fst (circuit_state ops (circuit_key sid) s)")
      (auto simp: redis_record_failure_def)
  then have s1: "tview s1 = tview s" "now_ms s1 = now_ms s"
    using get by (auto simp: circuit_state_def bindP_eq_Inr)
  obtain f n x where x: "dumps default_style (failure_doc cfg n now) = Inr x"
    "ttl_set ops (circuit_key sid) x (Some (recovery cfg)) s1 = (Inr u, t)"
    using assms(2) d unfolding redis_record_failure_def failure_doc_def
    by (auto simp: bindP_eq_Inr bindP_liftR split: sum.splits if_splits)
  from tset_Inr [OF _ x(2)] assms(1) s1 x(1) show ?thesis
    by (auto simp: expiry_def)
qed

lemma state_expires:
  assumes "tview s k = Some (x, Some (now_ms s + 1000 * rec))" and "0 \<le> d" and "1000 * rec \<le> d"
  shows "tview (wait_ms d s) k = None"
  using assms by (simp add: wait_view)

lemma failure_doc_text:
  assumes "is_decimal now"
  shows "\<exists>x. dumps default_style (failure_doc cfg n now) = Inr x \<and> x \<noteq> [] \<and> json_loads x = Inr (failure_doc cfg n now)"
proof -
  have "jsonable (failure_doc cfg n now)" by (simp add: failure_doc_def)
  then obtain x where x: "dumps default_style (failure_doc cfg n now) = Inr x" using dumps_styles_total(1) by blast
  have "json_wf (failure_doc cfg n now)" "canon False (failure_doc cfg n now) = failure_doc cfg n now"
    using assms by (simp_all add: failure_doc_def)
  then have "loads x = Some (failure_doc cfg n now)"
    using loads_dumps [OF style_ok_styles(1) _ x] by (simp add: default_style_def)
  moreover have "x \<noteq> []" using dumps_hd [OF x] by blast
  ultimately show ?thesis using x by (simp add: json_loads_def)
qed

text \<open>\<open>counted s sid i now\<close>: the state stored for \<open>sid\<close> is the one of \<open>i\<close> failures, the last at \<open>now\<close>.\<close>

definition counted :: "RedisCircuitBreaker \<Rightarrow> 's \<Rightarrow> string \<Rightarrow> nat \<Rightarrow> rat \<Rightarrow> bool" where
  "counted cfg s sid i now \<longleftrightarrow> (if i = 0 then tview s (circuit_key sid) = None
     else \<exists>x e. tview s (circuit_key sid) = Some (x, e) \<and> x \<noteq> [] \<and>
       json_loads x = Inr (failure_doc cfg (int i - 1) now))"

lemma counted_state:
  assumes "up s" and "counted cfg s sid i now"
  obtains t where "circuit_state ops (circuit_key sid) s =
      (Inr (if i = 0 then PDict [] else failure_doc cfg (int i - 1) now), t)"
    and "tview t = tview s" and "now_ms t = now_ms s" and "up t"
proof -
  obtain t where t: "circuit_state ops (circuit_key sid) s = (json_loads (case tview s (circuit_key sid) of
      Some (x, _) \<Rightarrow> if x = [] then ''{}'' else x | None \<Rightarrow> ''{}''), t)"
    "tview t = tview s" "now_ms t = now_ms s" "up t" using circuit_state_up [OF assms(1)] .
  have "json_loads (case tview s (circuit_key sid) of Some (x, _) \<Rightarrow> if x = [] then ''{}'' else x | None \<Rightarrow> ''{}'') =
      Inr (if i = 0 then PDict [] else failure_doc cfg (int i - 1) now)"
    using assms(2) by (auto simp: counted_def json_loads_empty split: if_splits)
  with t that show ?thesis by metis
qed

lemma record_failure_counted:
  assumes "up s" and "counted cfg s sid i now0" and "is_decimal now" and "0 < recovery cfg"
  shows "\<exists>t. redis_record_failure ops cfg sid now s = (Inr (), t) \<and> counted cfg t sid (Suc i) now \<and> up t \<and>
    now_ms t = now_ms s \<and> (\<exists>x. tview t (circuit_key sid) = Some (x, Some (now_ms s + 1000 * recovery cfg)))"
proof -
  let ?d = "if i = 0 then PDict [] else failure_doc cfg (int i - 1) now0"
  obtain s1 where s1: "circuit_state ops (circuit_key sid) s = (Inr ?d, s1)" "now_ms s1 = now_ms s" "up s1"
    using counted_state [OF assms(1,2)] by metis
  obtain x where x: "dumps default_style (failure_doc cfg (int i) now) = Inr x" "x \<noteq> []"
    "json_loads x = Inr (failure_doc cfg (int i) now)" using failure_doc_text [OF assms(3)] by blast
  have ex: "\<forall>secs. Some (recovery cfg) = Some secs \<longrightarrow> 0 < secs" using assms(4) by simp
  obtain t where t: "ttl_set ops (circuit_key sid) x (Some (recovery cfg)) s1 = (Inr (), t)"
    "tview t = (tview s1)(circuit_key sid \<mapsto> (x, expiry (now_ms s1) (Some (recovery cfg))))"
    "now_ms t = now_ms s1" "up t"
    using tset_upE [OF ex s1(3)] .
  obtain f where f: "dict_get ?d ''failures'' = Inr f" "py_int (case f of Some v \<Rightarrow> v | None \<Rightarrow> PInt 0) = Inr (int i)"
    by (cases "i = 0") (auto simp: dict_get_def failure_doc_def py_int_def)
  have "redis_record_failure ops cfg sid now s = (Inr (), t)"
    using s1(1) f t(1) x(1) by (simp add: redis_record_failure_def failure_doc_def)
  then show ?thesis using t x s1 by (auto simp: counted_def expiry_def)
qed

lemma record_failures_counted:
  "nows \<noteq> [] \<Longrightarrow> up s \<Longrightarrow> counted cfg s sid i now0 \<Longrightarrow> \<forall>now \<in> set nows. is_decimal now \<Longrightarrow> 0 < recovery cfg \<Longrightarrow>
    \<exists>t. mapP (redis_record_failure ops cfg sid) nows s = (Inr (replicate (length nows) ()), t) \<and>
      counted cfg t sid (i + length nows) (last nows) \<and> up t \<and> now_ms t = now_ms s \<and>
      (\<exists>x. tview t (circuit_key sid) = Some (x, Some (now_ms s + 1000 * recovery cfg)))"
proof (induction nows arbitrary: s i now0)
  case (Cons now nows)
  obtain t where t: "redis_record_failure ops cfg sid now s = (Inr (), t)" "counted cfg t sid (Suc i) now" "up t"
    "now_ms t = now_ms s" "\<exists>x. tview t (circuit_key sid) = Some (x, Some (now_ms s + 1000 * recovery cfg))"
    using record_failure_counted [OF Cons.prems(2,3) _ Cons.prems(5)] Cons.prems(4) by force
  show ?case
  proof (cases "nows = []")
    case True
    then show ?thesis using t by auto
  next
    case False
    with Cons.IH [OF False t(3,2) _ Cons.prems(5)] Cons.prems(4) t obtain u where
      "mapP (redis_record_failure ops cfg sid) nows t = (Inr (replicate (length nows) ()), u)"
      "counted cfg u sid (Suc i + length nows) (last nows)" "up u" "now_ms u = now_ms t"
      "\<exists>x. tview u (circuit_key sid) = Some (x, Some (now_ms t + 1000 * recovery cfg))" by auto
    then show ?thesis using t False by auto
  qed
qed simp

lemma counted_wait:
  assumes "counted cfg s sid i now" and "tview s (circuit_key sid) = Some (x, Some e)" and "0 \<le> d" and "now_ms s + d < e"
  shows "counted cfg (wait_ms d s) sid i now"
  using assms by (auto simp: counted_def wait_view split: if_splits)

lemma allow_counted:
  assumes "up s" and "counted cfg s sid i now0" and "i \<noteq> 0" and "0 < recovery cfg" and "is_decimal now0"
  shows "fst (redis_allow_request ops cfg sid now s) =
    Inr (int i < threshold cfg \<or> of_int (recovery cfg) \<le> now - now0)"
proof -
  let ?d = "failure_doc cfg (int i - 1) now0"
  obtain s1 where s1: "circuit_state ops (circuit_key sid) s = (Inr ?d, s1)" "up s1"
    using counted_state [OF assms(1,2)] assms(3) by metis
  show ?thesis
  proof (cases "int i < threshold cfg")
    case True
    then show ?thesis using s1 by (simp add: redis_allow_request_def dict_get_def failure_doc_def)
  next
    case False
    then have d: "?d = PDict [(''failures'', PInt (int i)), (''opened'', PFloat (Fin now0))]"
      by (simp add: failure_doc_def)
    show ?thesis
    proof (cases "now - now0 < of_int (recovery cfg)")
      case True
      then show ?thesis using s1 False d
        by (simp add: redis_allow_request_def dict_get_def py_float_def float_minus_less_def)
    next
      case probe: False
      let ?d' = "PDict [(''failures'', PInt (int i)), (''opened'', PFloat (Fin now0)), (''half_open'', PBool True)]"
      obtain x where x: "dumps default_style ?d' = Inr x"
        using dumps_styles_total(1) [of ?d'] by (auto simp del: dumps.simps)
      obtain t where "ttl_set ops (circuit_key sid) x (Some (recovery cfg)) s1 = (Inr (), t)"
        using tset_upE [OF _ s1(2), of "Some (recovery cfg)" "circuit_key sid" x] assms(4) by auto
      then show ?thesis using s1 False d probe x
        by (simp add: redis_allow_request_def dict_get_def py_float_def float_minus_less_def truthy_def dict_set_def
            del: dumps.simps)
    qed
  qed
qed

end

subsection \<open>The properties\<close>

text \<open>
  C17: retries are bounded. Whatever the operation, the sleep and the random source do, the operation
  runs at least once and at most \<open>max_attempts\<close> times, with fewer pauses than runs allowed, and the
  loop returns or raises.
\<close>

theorem retry_bounded:
  assumes "retry_env operation sleep random calls pauses" and "1 \<le> max_attempts policy"
    and "run_with_retry policy operation sleep random s = (r, t)"
  shows "calls s + 1 \<le> calls t \<and> calls t \<le> calls s + nat (max_attempts policy) \<and>
    pauses t \<le> pauses s + (nat (max_attempts policy) - 1)"
  using retry_env.retry_loop_bounds [OF assms(1) assms(3) [unfolded run_with_retry_def]] assms(2)
  by (auto simp: min_def split: if_splits)

theorem retry_bounded_witness:
  "\<exists>r t. run_with_retry \<lparr>max_attempts = 2, base_delay_seconds = 1, max_delay_seconds = 4\<rparr> scripted_op scripted_sleep
      (ret 0) \<lparr>outs = [Inl (ConnectionError ''a''), Inl (ConnectionError ''b''), Inr (1 :: int)], ran = 0, naps = []\<rparr> = (r, t) \<and>
    ran t \<le> 2"
proof -
  let ?p = "\<lparr>max_attempts = 2, base_delay_seconds = 1, max_delay_seconds = 4\<rparr>"
  let ?s = "\<lparr>outs = [Inl (ConnectionError ''a''), Inl (ConnectionError ''b''), Inr (1 :: int)], ran = 0, naps = []\<rparr>"
  obtain r t where e: "run_with_retry ?p scripted_op scripted_sleep (ret 0) ?s = (r, t)"
    by (cases "run_with_retry ?p scripted_op scripted_sleep (ret 0) ?s")
  show ?thesis using retry_bounded [OF scripted.retry_env_axioms _ e] e by auto
qed



text \<open>
  a pause computed from the back-off is at least half and less than one and a half of the base
  delay doubled per attempt, never more than one and a half of the maximum, and does not shrink from
  one attempt to the next.
\<close>

theorem retry_delay_bounds:
  assumes "1 \<le> attempt" and "0 \<le> base_delay_seconds policy" and "0 \<le> max_delay_seconds policy"
    and "0 \<le> r" and "r < 1"
  shows "min (max_delay_seconds policy) (base_delay_seconds policy * 2 powi (attempt - 1)) / 2 \<le> delay_seconds policy attempt r \<and>
    delay_seconds policy attempt r \<le> 3 / 2 * min (max_delay_seconds policy) (base_delay_seconds policy * 2 powi (attempt - 1)) \<and>
    delay_seconds policy attempt r \<le> 3 / 2 * max_delay_seconds policy \<and>
    delay_seconds policy attempt r \<le> delay_seconds policy (attempt + 1) r"
proof -
  define m where "m = min (max_delay_seconds policy) (base_delay_seconds policy * 2 powi (attempt - 1))"
  define m' where "m' = min (max_delay_seconds policy) (base_delay_seconds policy * 2 powi attempt)"
  have "(2 :: rat) powi attempt = 2 * 2 powi (attempt - 1)"
    using assms(1) power_int_add_1' [of "2 :: rat" "attempt - 1"] by simp
  then have "base_delay_seconds policy * 2 powi (attempt - 1) \<le> base_delay_seconds policy * 2 powi attempt"
    using assms(2) zero_le_power_int [of "2 :: rat" "attempt - 1"] by (intro mult_left_mono) simp_all
  then have mm: "m \<le> m'" by (simp add: m_def m'_def min_def)
  have m0: "0 \<le> m" using assms(2,3) zero_le_power_int [of "2 :: rat" "attempt - 1"] by (simp add: m_def)
  have d: "delay_seconds policy attempt r = m * (1 / 2 + r)" by (simp add: delay_seconds_def m_def)
  have d': "delay_seconds policy (attempt + 1) r = m' * (1 / 2 + r)" by (simp add: delay_seconds_def m'_def)
  have 1: "m / 2 \<le> m * (1 / 2 + r)" using m0 assms(4) by (simp add: algebra_simps)
  have "m * (1 / 2 + r) \<le> m * (3 / 2)" using m0 assms(5) by (intro mult_left_mono) simp_all
  then have 2: "m * (1 / 2 + r) \<le> 3 / 2 * m" by (simp add: mult.commute)
  have 3: "3 / 2 * m \<le> 3 / 2 * max_delay_seconds policy" by (simp add: m_def)
  have 4: "m * (1 / 2 + r) \<le> m' * (1 / 2 + r)" using mm assms(4) by (intro mult_right_mono) simp_all
  from 1 2 3 4 show ?thesis unfolding d d' m_def [symmetric] by linarith
qed

theorem retry_delay_bounds_witness:
  "delay_seconds \<lparr>max_attempts = 5, base_delay_seconds = 1, max_delay_seconds = 8\<rparr> 5 (1 / 2) \<le> 12"
  using retry_delay_bounds [of 5 "\<lparr>max_attempts = 5, base_delay_seconds = 1, max_delay_seconds = 8\<rparr>" "1 / 2"]
  by simp

text \<open>
  a Retry-After header of superscript digits breaks the retry. \<open>str.isdigit\<close> accepts them and \<open>int\<close>
  does not, so the loop raises \<open>ValueError\<close> instead of the response failure and does not retry.
\<close>

theorem retry_after_superscript_raises:
  assumes "1 < max_attempts policy"
  shows "run_with_retry policy scripted_op scripted_sleep (ret x)
      \<lparr>outs = Inl (ResponseFailure 429 (Some [char_of (178 :: nat)]) []) # rest, ran = 0, naps = []\<rparr> =
    (Inl (ValueError ''invalid literal for int() with base 10''), \<lparr>outs = rest, ran = 1, naps = []\<rparr>)"
proof -
  obtain n where n: "nat (max_attempts policy) = Suc n" using assms by (cases "nat (max_attempts policy)") auto
  have r: "\<not> should_request_human_review []" by code_simp
  have a: "retry_after_seconds (Some [char_of (178 :: nat)]) = Inl (ValueError ''invalid literal for int() with base 10'')"
    using isdigit_superscript by (simp add: retry_after_seconds_def)
  show ?thesis using assms a by (simp add: run_with_retry_def n scripted_op_def after_failure_def r should_retry_def)
qed

theorem retry_after_superscript_raises_witness:
  "fst (run_with_retry \<lparr>max_attempts = 3, base_delay_seconds = 1, max_delay_seconds = 8\<rparr> scripted_op scripted_sleep (ret 0)
      \<lparr>outs = [Inl (ResponseFailure 429 (Some [char_of (178 :: nat)]) []), Inr ()], ran = 0, naps = []\<rparr>) =
    Inl (ValueError ''invalid literal for int() with base 10'')"
  using retry_after_superscript_raises [of "\<lparr>max_attempts = 3, base_delay_seconds = 1, max_delay_seconds = 8\<rparr>" 0 "[Inr ()]"]
  by simp

text \<open>
  C19: the breaker implements the closed/open/half-open automaton, source by source. For any
  interleaving of calls for any sources, the answers given to one source and the state of its circuit
  are those of the automaton run on that source's calls alone.
\<close>

theorem breaker_refines_automaton:
  assumes "0 < failure_threshold cfg" and "run_breaker cfg cs (\<lambda>_. None) = (bs, st)"
  shows "run_spec cfg (map snd (filter (\<lambda>c. fst c = sid) cs)) (Closed 0) =
    (map snd (filter (\<lambda>c. fst c = sid) bs), breaker_abs (circuit_of st sid))"
proof -
  have "circuit_ok cfg (circuit_of (\<lambda>_. None) sid)" "breaker_abs (circuit_of (\<lambda>_. None) sid) = Closed 0"
    using assms(1) by (simp_all add: circuit_of_def closed_circuit_def circuit_ok_def breaker_abs_def)
  then show ?thesis using run_breaker_refines [OF assms(1) _ assms(2), of sid] by simp
qed

theorem breaker_refines_automaton_witness:
  "\<exists>bs st. run_breaker \<lparr>failure_threshold = 2, recovery_seconds = 10\<rparr>
      [(''a'', Failure 0), (''b'', Failure 0), (''a'', Failure 1), (''b'', Allow 2), (''a'', Allow 2), (''a'', Allow 11),
       (''a'', Allow 12)] (\<lambda>_. None) = (bs, st) \<and>
    map snd (filter (\<lambda>c. fst c = ''a'') bs) = [True, True, False, True, False] \<and>
    breaker_abs (circuit_of st ''a'') = Probing 1"
proof -
  let ?cfg = "\<lparr>failure_threshold = 2, recovery_seconds = 10\<rparr>"
  let ?cs = "[(''a'', Failure 0), (''b'', Failure 0), (''a'', Failure 1), (''b'', Allow 2), (''a'', Allow 2),
    (''a'', Allow 11), (''a'', Allow 12)]"
  obtain bs st where e: "run_breaker ?cfg ?cs (\<lambda>_. None) = (bs, st)" by (cases "run_breaker ?cfg ?cs (\<lambda>_. None)")
  show ?thesis using breaker_refines_automaton [OF _ e, of "''a''"] e by simp
qed

text \<open>
  C20: a single probe. While a circuit is open, requests are refused until the recovery time has passed;
  the first request after it is the probe and is allowed; every further request is refused, at any
  later time, until a success or a failure is recorded.
\<close>

theorem breaker_single_probe:
  assumes "0 < failure_threshold cfg" and "circuit_ok cfg (circuit_of st sid)"
    and "breaker_abs (circuit_of st sid) = Open t"
    and "run_breaker cfg (map (\<lambda>now. (sid, Allow now)) nows) st = (bs, st')"
  shows "map snd bs = map (\<lambda>i. i = length (takeWhile (\<lambda>now. now - t < recovery_seconds cfg) nows)) [0..<length nows]"
proof -
  have same: "fst ` set bs \<subseteq> {sid}" if "run_breaker cfg (map (\<lambda>now. (sid, Allow now)) nows) st = (bs, st')" for bs st st'
    using that by (induction nows arbitrary: bs st st') (fastforce split: prod.splits)+
  have f: "filter (\<lambda>c. fst c = sid) (map (\<lambda>now. (sid, Allow now)) nows) = map (\<lambda>now. (sid, Allow now)) nows"
    by (simp add: filter_map comp_def)
  have "filter (\<lambda>c. fst c = sid) bs = bs" using same [OF assms(4)] by (auto simp: filter_id_conv)
  then have "run_spec cfg (map Allow nows) (Open t) = (map snd bs, breaker_abs (circuit_of st' sid))"
    using run_breaker_refines [OF assms(1,2,4)] assms(3) unfolding f by (simp add: comp_def)
  then show ?thesis unfolding spec_open_allows Let_def by simp
qed

theorem breaker_single_probe_witness:
  "\<exists>bs st'. run_breaker \<lparr>failure_threshold = 1, recovery_seconds = 10\<rparr>
      (map (\<lambda>now. (''a'', Allow now)) [3, 10, 11, 1000]) (record_failure \<lparr>failure_threshold = 1, recovery_seconds = 10\<rparr> ''a'' 0 (\<lambda>_. None))
      = (bs, st') \<and> map snd bs = [False, True, False, False]"
proof -
  let ?cfg = "\<lparr>failure_threshold = 1, recovery_seconds = 10\<rparr>"
  let ?st = "record_failure ?cfg ''a'' 0 (\<lambda>_. None)"
  have c: "circuit_of ?st ''a'' = \<lparr>failures = 1, opened_at = Some 0, half_open = False\<rparr>"
    by (simp add: record_failure_def circuit_of_def closed_circuit_def)
  obtain bs st' where e: "run_breaker ?cfg (map (\<lambda>now. (''a'', Allow now)) [3, 10, 11, 1000]) ?st = (bs, st')"
    by (cases "run_breaker ?cfg (map (\<lambda>now. (''a'', Allow now)) [3, 10, 11, 1000]) ?st")
  show ?thesis using breaker_single_probe [OF _ _ _ e, of 0] e
    by (simp add: c circuit_ok_def breaker_abs_def upt_rec)
qed



text \<open>
  while its state lives, the Redis breaker opens at the threshold. After a run of recorded failures
  (starting without stored state) and before \<open>recovery_seconds\<close> of server time have passed, a request
  is allowed exactly when the failures are fewer than the threshold or the caller's clock says that
  the recovery time is over.
\<close>

theorem redis_breaker_opens:
  assumes "ttl_store ops view now_ms wait_ms up" and "up s" and "view s (circuit_key sid) = None"
    and "0 < recovery cfg" and "nows \<noteq> []" and "\<forall>now \<in> set nows. is_decimal now"
    and "0 \<le> d" and "d < 1000 * recovery cfg"
  shows "\<exists>t. mapP (redis_record_failure ops cfg sid) nows s = (Inr (replicate (length nows) ()), t) \<and>
    fst (redis_allow_request ops cfg sid now (wait_ms d t)) =
      Inr (int (length nows) < threshold cfg \<or> of_int (recovery cfg) \<le> now - last nows)"
proof -
  have "ttl_store.counted view cfg s sid 0 0" by (simp add: ttl_store.counted_def [OF assms(1)] assms(3))
  from ttl_store.record_failures_counted [OF assms(1) assms(5,2) this assms(6,4)] obtain t x where
    t: "mapP (redis_record_failure ops cfg sid) nows s = (Inr (replicate (length nows) ()), t)"
    "ttl_store.counted view cfg t sid (length nows) (last nows)" "up t" "now_ms t = now_ms s"
    "view t (circuit_key sid) = Some (x, Some (now_ms s + 1000 * recovery cfg))" by auto
  have c: "ttl_store.counted view cfg (wait_ms d t) sid (length nows) (last nows)"
    using ttl_store.counted_wait [OF assms(1) t(2,5) assms(7)] assms(8) t(4) by simp
  have "is_decimal (last nows)" using assms(5,6) by simp
  from ttl_store.allow_counted [OF assms(1) ttl_store.wait_up [OF assms(1) t(3)] c _ assms(4) this, of now] assms(5)
  show ?thesis using t(1) by auto
qed

theorem redis_breaker_opens_witness:
  "\<exists>t. mapP (redis_record_failure redis_ttl \<lparr>threshold = 2, recovery = 30\<rparr> ''a'') [100, 101] redis0 = (Inr [(), ()], t) \<and>
    fst (redis_allow_request redis_ttl \<lparr>threshold = 2, recovery = 30\<rparr> ''a'' 130 (redis_wait 29000 t)) = Inr False"
  using redis_breaker_opens [OF redis_ttl.ttl_store_axioms, of redis0 "''a''" "\<lparr>threshold = 2, recovery = 30\<rparr>" "[100, 101]" 29000 130]
  by (simp add: redis_up_def redis0_def live_str_def is_decimal_def numeral_eq_Suc)

text \<open>
  the Redis breaker forgets an open circuit. Every write carries \<open>ex=recovery_seconds\<close>, so once that
  time has passed since the last recorded failure the state is gone: however many failures there were,
  every later request is allowed, one after another. The half-open state with its single probe is not
  reached.
\<close>

theorem redis_breaker_forgets:
  assumes "ttl_store ops view now_ms wait_ms up" and "0 < recovery cfg"
    and "redis_record_failure ops cfg sid now s = (Inr u, t)" and "up t" and "1000 * recovery cfg \<le> d"
  shows "\<exists>v. mapP (redis_allow_request ops cfg sid) nows (wait_ms d t) = (Inr (replicate (length nows) True), v)"
proof -
  obtain x where "view t (circuit_key sid) = Some (x, Some (now_ms t + 1000 * recovery cfg))"
    using ttl_store.record_failure_Inr [OF assms(1-3)] by auto
  moreover have "0 \<le> d" using assms(2,5) by simp
  ultimately have "view (wait_ms d t) (circuit_key sid) = None"
    using ttl_store.state_expires [OF assms(1)] assms(5) by blast
  then show ?thesis
    by (rule ttl_store.allow_absent_all [OF assms(1) ttl_store.wait_up [OF assms(1,4)]])
qed

theorem redis_breaker_forgets_witness:
  "\<exists>t v. redis_record_failure redis_ttl \<lparr>threshold = 1, recovery = 30\<rparr> ''a'' 100 redis0 = (Inr (), t) \<and>
    mapP (redis_allow_request redis_ttl \<lparr>threshold = 1, recovery = 30\<rparr> ''a'') [130, 130, 131] (redis_wait 30000 t) =
      (Inr [True, True, True], v)"
proof -
  let ?cfg = "\<lparr>threshold = 1, recovery = 30\<rparr>"
  have "redis_ttl.counted ?cfg redis0 ''a'' 0 0"
    by (simp add: redis_ttl.counted_def redis0_def live_str_def)
  then obtain t where t: "redis_record_failure redis_ttl ?cfg ''a'' 100 redis0 = (Inr (), t)" "redis_up t"
    using redis_ttl.record_failure_counted [of redis0 ?cfg "''a''" 0 0 100]
    by (auto simp: redis_up_def redis0_def is_decimal_def)
  show ?thesis using redis_breaker_forgets [OF redis_ttl.ttl_store_axioms _ t, of 30000 "[130, 130, 131]"] t(1)
    by (simp add: numeral_eq_Suc)
qed

end
