(* ===== verification/Alerts.thy ===== *)
theory Alerts
  imports Redis Observability
begin

section \<open>Alert evaluation (\<open>alerts.py\<close>)\<close>

text \<open>
  The thresholds, the scenario, the twelve rules in the code's order, the runbook table, and
  \<open>evaluate\<close>, which keeps one key per source and rule in the store it is given and reports
  transitions only. The lemmas: what one evaluation emits and stores, silence while nothing changes,
  the alternation of active and resolved events over any history, the JSON form of an event, and the
  transitions that a failing store loses.
\<close>

subsection \<open>Rules\<close>

datatype AlertState = ACTIVE | RESOLVED

fun alert_value :: "AlertState \<Rightarrow> string" where
  "alert_value ACTIVE = ''active''"
| "alert_value RESOLVED = ''resolved''"

definition RUNBOOKS :: "(string \<times> string) list" where
  "RUNBOOKS = [
     (''crawler_consecutive_failures'', ''docs/operations/observability.md#run-failures''),
     (''crawler_no_recent_success'', ''docs/operations/observability.md#run-failures''),
     (''crawler_items_zero'', ''docs/operations/observability.md#data-quality''),
     (''crawler_items_abnormal'', ''docs/operations/observability.md#data-quality''),
     (''crawler_parse_error_rate'', ''docs/operations/observability.md#data-quality''),
     (''crawler_access_denied'', ''docs/operations/observability.md#run-failures''),
     (''crawler_captcha'', ''docs/operations/observability.md#run-failures''),
     (''crawler_queue_backlog'', ''docs/operations/observability.md#queue-backlog''),
     (''crawler_worker_offline'', ''docs/operations/observability.md#queue-backlog''),
     (''crawler_postgres_down'', ''docs/operations/observability.md#dependencies''),
     (''crawler_redis_down'', ''docs/operations/observability.md#dependencies''),
     (''crawler_disk_low'', ''docs/operations/observability.md#snapshot-retention'')]"

record AlertThresholds =
  max_consecutive_failures :: int
  max_last_success_age_seconds :: int
  max_item_deviation_ratio :: pyfloat
  max_parse_error_rate :: pyfloat
  max_queue_depth :: int
  worker_heartbeat_age_seconds :: int
  min_disk_free_ratio :: pyfloat

definition default_thresholds :: AlertThresholds where
  "default_thresholds = \<lparr>max_consecutive_failures = 3, max_last_success_age_seconds = 600,
     max_item_deviation_ratio = Fin (1 / 2), max_parse_error_rate = Fin (1 / 10), max_queue_depth = 100,
     worker_heartbeat_age_seconds = 120, min_disk_free_ratio = Fin (1 / 20)\<rparr>"

record MetricScenario =
  consecutive_failures :: int
  last_success_age_seconds :: "int option"
  items_found :: "int option"
  item_deviation_ratio :: "pyfloat option"
  parse_error_rate :: pyfloat
  http_status :: "int option"
  captcha_seen :: bool
  queue_depth :: int
  worker_last_heartbeat_age_seconds :: "int option"
  postgres_available :: bool
  redis_available :: bool
  disk_free_ratio :: pyfloat

definition default_scenario :: MetricScenario where
  "default_scenario = \<lparr>consecutive_failures = 0, last_success_age_seconds = None, items_found = None,
     item_deviation_ratio = None, parse_error_rate = Fin 0, http_status = None, captcha_seen = False,
     queue_depth = 0, worker_last_heartbeat_age_seconds = None, postgres_available = True,
     redis_available = True, disk_free_ratio = Fin 1\<rparr>"

definition exceeds :: "int option \<Rightarrow> int \<Rightarrow> bool" where
  "exceeds v limit = (case v of Some n \<Rightarrow> limit < n | None \<Rightarrow> False)"

definition alert_conditions :: "AlertThresholds \<Rightarrow> MetricScenario \<Rightarrow> (string \<times> bool) list" where
  "alert_conditions th sc = [
     (''crawler_consecutive_failures'', max_consecutive_failures th \<le> consecutive_failures sc),
     (''crawler_no_recent_success'', exceeds (last_success_age_seconds sc) (max_last_success_age_seconds th)),
     (''crawler_items_zero'', items_found sc = Some 0),
     (''crawler_items_abnormal'', (case item_deviation_ratio sc of Some r \<Rightarrow> float_le (max_item_deviation_ratio th) r
        | None \<Rightarrow> False)),
     (''crawler_parse_error_rate'', float_le (max_parse_error_rate th) (parse_error_rate sc)),
     (''crawler_access_denied'', http_status sc \<in> {Some 401, Some 403, Some 429}),
     (''crawler_captcha'', captcha_seen sc),
     (''crawler_queue_backlog'', max_queue_depth th \<le> queue_depth sc),
     (''crawler_worker_offline'', exceeds (worker_last_heartbeat_age_seconds sc) (worker_heartbeat_age_seconds th)),
     (''crawler_postgres_down'', \<not> postgres_available sc),
     (''crawler_redis_down'', \<not> redis_available sc),
     (''crawler_disk_low'', float_le (disk_free_ratio sc) (min_disk_free_ratio th))]"

subsection \<open>Evaluation\<close>

record AlertEvent =
  ae_rule :: string
  ae_state :: AlertState
  ae_source_id :: string
  ae_crawl_run_id :: string
  ae_troubleshooting_path :: string
  ae_occurred_at :: datetime

definition alert_to_json :: "zone_db \<Rightarrow> AlertEvent \<Rightarrow> string result" where
  "alert_to_json zone ev = dumps sorted_style (PDict [
     (''rule'', PStr (ae_rule ev)), (''state'', PStr (alert_value (ae_state ev))),
     (''source_id'', PStr (ae_source_id ev)), (''crawl_run_id'', PStr (ae_crawl_run_id ev)),
     (''troubleshooting_path'', PStr (ae_troubleshooting_path ev)),
     (''occurred_at'', PStr (isoformat zone (ae_occurred_at ev)))])"

definition alert_event :: "string \<Rightarrow> AlertState \<Rightarrow> string \<Rightarrow> string \<Rightarrow> datetime \<Rightarrow> AlertEvent result" where
  "alert_event rule st source_id run_id current = (case map_of RUNBOOKS rule of
       None \<Rightarrow> Inl (KeyError rule)
     | Some book \<Rightarrow> Inr \<lparr>ae_rule = rule, ae_state = st, ae_source_id = source_id, ae_crawl_run_id = run_id,
         ae_troubleshooting_path = book, ae_occurred_at = current\<rparr>)"

definition alert_key :: "string \<Rightarrow> string \<Rightarrow> string" where
  "alert_key source_id rule = ''crawler:alerts:'' @ source_id @ '':'' @ rule"

text \<open>The loop over the rules; an event is appended after its state has been stored, and an exception
  drops the events collected so far.\<close>

fun evaluate_rules :: "'s kv_ops \<Rightarrow> string \<Rightarrow> string \<Rightarrow> datetime \<Rightarrow> (string \<times> bool) list \<Rightarrow>
    ('s, AlertEvent list) py" where
  "evaluate_rules ops source_id run_id current [] = ret []"
| "evaluate_rules ops source_id run_id current ((rule, is_active) # cs) =
     bindP (kv_get ops (alert_key source_id rule)) (\<lambda>previous.
     if is_active \<and> previous \<noteq> Some (alert_value ACTIVE) then
       thenP (kv_set ops (alert_key source_id rule) (alert_value ACTIVE))
         (bindP (liftR (alert_event rule ACTIVE source_id run_id current)) (\<lambda>ev.
          bindP (evaluate_rules ops source_id run_id current cs) (\<lambda>evs. ret (ev # evs))))
     else if \<not> is_active \<and> previous = Some (alert_value ACTIVE) then
       thenP (kv_set ops (alert_key source_id rule) (alert_value RESOLVED))
         (bindP (liftR (alert_event rule RESOLVED source_id run_id current)) (\<lambda>ev.
          bindP (evaluate_rules ops source_id run_id current cs) (\<lambda>evs. ret (ev # evs))))
     else evaluate_rules ops source_id run_id current cs)"

definition evaluate :: "'s kv_ops \<Rightarrow> AlertThresholds \<Rightarrow> string \<Rightarrow> string \<Rightarrow> MetricScenario \<Rightarrow> datetime \<Rightarrow>
    ('s, AlertEvent list) py" where
  "evaluate ops th source_id run_id sc current =
     (if \<not> source_id_match source_id then raise (ValueError ''source_id must match [a-z0-9_-]+'')
      else evaluate_rules ops source_id run_id current (alert_conditions th sc))"

subsection \<open>What one evaluation emits\<close>

text \<open>The transition of a rule, if any, from what is stored, and what is stored after it.\<close>

definition transition :: "string option \<Rightarrow> bool \<Rightarrow> AlertState option" where
  "transition previous is_active =
     (if is_active \<and> previous \<noteq> Some ''active'' then Some ACTIVE
      else if \<not> is_active \<and> previous = Some ''active'' then Some RESOLVED else None)"

definition stored_after :: "string option \<Rightarrow> bool \<Rightarrow> string option" where
  "stored_after previous is_active = (case transition previous is_active of
       Some st \<Rightarrow> Some (alert_value st) | None \<Rightarrow> previous)"

fun emitted :: "(string \<Rightarrow> string option) \<Rightarrow> string \<Rightarrow> (string \<times> bool) list \<Rightarrow> (string \<times> AlertState) list" where
  "emitted v source_id [] = []"
| "emitted v source_id ((rule, b) # cs) = (case transition (v (alert_key source_id rule)) b of
       Some st \<Rightarrow> (rule, st) # emitted v source_id cs
     | None \<Rightarrow> emitted v source_id cs)"

lemma emitted_cong: "(\<And>rule. rule \<in> fst ` set cs \<Longrightarrow> v (alert_key sid rule) = w (alert_key sid rule)) \<Longrightarrow>
    emitted v sid cs = emitted w sid cs"
proof (induction cs)
  case (Cons c cs)
  obtain rule b where c: "c = (rule, b)" by (cases c)
  have "emitted v sid cs = emitted w sid cs" using Cons by auto
  moreover have "v (alert_key sid rule) = w (alert_key sid rule)" using Cons.prems [of rule] c by simp
  ultimately show ?case using c by (simp split: option.split)
qed simp

lemma rules_of_conditions: "map fst (alert_conditions th sc) = map fst RUNBOOKS"
  by (simp add: alert_conditions_def RUNBOOKS_def)

lemma rules_distinct: "distinct (map fst RUNBOOKS)"
  by (simp add: RUNBOOKS_def)

lemma alert_event_known: "rule \<in> fst ` set RUNBOOKS \<Longrightarrow>
    \<exists>ev. alert_event rule st sid run cur = Inr ev \<and> ae_rule ev = rule \<and> ae_state ev = st \<and> ae_source_id ev = sid \<and>
      ae_crawl_run_id ev = run \<and> ae_occurred_at ev = cur"
proof -
  assume "rule \<in> fst ` set RUNBOOKS"
  then obtain book where "map_of RUNBOOKS rule = Some book" using map_of_eq_None_iff [of RUNBOOKS rule] by auto
  then show ?thesis by (simp add: alert_event_def)
qed

lemma alert_key_inj: "alert_key sid a = alert_key sid b \<longleftrightarrow> a = b"
  by (simp add: alert_key_def)

lemma transition_None: "transition p b = None \<longleftrightarrow> (b \<longleftrightarrow> p = Some ''active'')"
  by (auto simp: transition_def)

context kv_store
begin

text \<open>One rule: at most one event, the state stored, the remaining rules evaluated after it.\<close>

lemma evaluate_rule_up:
  assumes "up s" and "rule \<in> fst ` set RUNBOOKS"
  shows "\<exists>evs u. up u \<and> view u = (view s)(alert_key sid rule := stored_after (view s (alert_key sid rule)) b) \<and>
    (\<forall>cs. evaluate_rules ops sid run cur ((rule, b) # cs) s = bindP (evaluate_rules ops sid run cur cs) (\<lambda>es. ret (evs @ es)) u) \<and>
    (\<forall>v cs. v (alert_key sid rule) = view s (alert_key sid rule) \<longrightarrow>
       map (\<lambda>ev. (ae_rule ev, ae_state ev)) evs @ emitted v sid cs = emitted v sid ((rule, b) # cs)) \<and>
    (\<forall>ev \<in> set evs. ae_source_id ev = sid \<and> ae_crawl_run_id ev = run \<and> ae_occurred_at ev = cur)"
proof -
  let ?k = "alert_key sid rule"
  have ret: "bindP m ret = m" for m :: "('s, AlertEvent list) py"
    by (auto simp: fun_eq_iff bindP_def split: prod.split sum.split)
  obtain s1 where s1: "kv_get ops ?k s = (Inr (view s ?k), s1)" "view s1 = view s" "up s1"
    using get_upE [OF assms(1)] .
  show ?thesis
  proof (cases "transition (view s ?k) b")
    case None
    then have "evaluate_rules ops sid run cur ((rule, b) # cs) s = evaluate_rules ops sid run cur cs s1" for cs
      using s1(1) by (auto simp: transition_None)
    then show ?thesis using s1 None
      by (intro exI [of _ "[]"] exI [of _ s1]) (simp add: ret stored_after_def fun_upd_idem del: evaluate_rules.simps)
  next
    case (Some st)
    obtain s2 where s2: "kv_set ops ?k (alert_value st) s1 = (Inr (), s2)"
      "view s2 = (view s1)(?k \<mapsto> alert_value st)" "up s2" using set_upE [OF s1(3)] .
    obtain ev where ev: "alert_event rule st sid run cur = Inr ev" "ae_rule ev = rule" "ae_state ev = st"
      "ae_source_id ev = sid" "ae_crawl_run_id ev = run" "ae_occurred_at ev = cur"
      using alert_event_known [OF assms(2), of st sid run cur] by auto
    have "evaluate_rules ops sid run cur ((rule, b) # cs) s = bindP (evaluate_rules ops sid run cur cs) (\<lambda>evs. ret (ev # evs)) s2" for cs
      using s1(1) s2(1) ev(1) Some by (cases st) (auto simp: transition_def split: if_splits)
    then show ?thesis using s1(2) s2 ev Some
      by (intro exI [of _ "[ev]"] exI [of _ s2]) (simp add: stored_after_def del: evaluate_rules.simps)
  qed
qed

lemma evaluate_rules_up:
  "up s \<Longrightarrow> fst ` set cs \<subseteq> fst ` set RUNBOOKS \<Longrightarrow> distinct (map fst cs) \<Longrightarrow>
    \<exists>evs t. evaluate_rules ops sid run cur cs s = (Inr evs, t) \<and> up t \<and>
      map (\<lambda>ev. (ae_rule ev, ae_state ev)) evs = emitted (view s) sid cs \<and>
      (\<forall>ev \<in> set evs. ae_source_id ev = sid \<and> ae_crawl_run_id ev = run \<and> ae_occurred_at ev = cur) \<and>
      (\<forall>rule b. (rule, b) \<in> set cs \<longrightarrow>
        view t (alert_key sid rule) = stored_after (view s (alert_key sid rule)) b) \<and>
      (\<forall>k. k \<notin> alert_key sid ` fst ` set cs \<longrightarrow> view t k = view s k)"
proof (induction cs arbitrary: s)
  case Nil
  then show ?case by simp
next
  case (Cons c cs)
  obtain rule b where c: "c = (rule, b)" by (cases c)
  let ?k = "alert_key sid rule"
  have new: "r \<noteq> rule" if "r \<in> fst ` set cs" for r using Cons.prems(3) c that by auto
  have "rule \<in> fst ` set RUNBOOKS" using Cons.prems(2) c by auto
  from evaluate_rule_up [OF Cons.prems(1) this, of sid b run cur] obtain es u where u: "up u"
    "view u = (view s)(?k := stored_after (view s ?k) b)"
    "evaluate_rules ops sid run cur (c # cs) s = bindP (evaluate_rules ops sid run cur cs) (\<lambda>evs. ret (es @ evs)) u"
    "map (\<lambda>ev. (ae_rule ev, ae_state ev)) es @ emitted (view s) sid cs = emitted (view s) sid (c # cs)"
    "\<forall>ev \<in> set es. ae_source_id ev = sid \<and> ae_crawl_run_id ev = run \<and> ae_occurred_at ev = cur"
    unfolding c by blast
  have sub: "fst ` set cs \<subseteq> fst ` set RUNBOOKS" "distinct (map fst cs)" using Cons.prems(2,3) by auto
  obtain evs t where t: "evaluate_rules ops sid run cur cs u = (Inr evs, t)" "up t"
    "map (\<lambda>ev. (ae_rule ev, ae_state ev)) evs = emitted (view u) sid cs"
    "\<forall>ev \<in> set evs. ae_source_id ev = sid \<and> ae_crawl_run_id ev = run \<and> ae_occurred_at ev = cur"
    "\<forall>r b. (r, b) \<in> set cs \<longrightarrow> view t (alert_key sid r) = stored_after (view u (alert_key sid r)) b"
    "\<forall>k. k \<notin> alert_key sid ` fst ` set cs \<longrightarrow> view t k = view u k" using Cons.IH [OF u(1) sub] by blast
  have same: "view u (alert_key sid r) = view s (alert_key sid r)" if "r \<in> fst ` set cs" for r
    using u(2) new [OF that] by (simp add: alert_key_inj)
  have "emitted (view u) sid cs = emitted (view s) sid cs" by (rule emitted_cong) (rule same)
  then have "map (\<lambda>ev. (ae_rule ev, ae_state ev)) (es @ evs) = emitted (view s) sid (c # cs)"
    using u(4) t(3) by simp
  moreover have "view t (alert_key sid r) = stored_after (view s (alert_key sid r)) x" if "(r, x) \<in> set (c # cs)" for r x
  proof (cases "(r, x) \<in> set cs")
    case True
    then have "r \<in> fst ` set cs" by force
    then show ?thesis using t(5) True same by simp
  next
    case False
    then have "r = rule" "x = b" using that c by auto
    moreover have "?k \<notin> alert_key sid ` fst ` set cs" using new by (force simp: alert_key_inj)
    ultimately show ?thesis using t(6) u(2) by simp
  qed
  moreover have "view t k = view s k" if "k \<notin> alert_key sid ` fst ` set (c # cs)" for k
    using t(6) u(2) c that by simp
  ultimately show ?case using t(1,2,4) u(3,5) by (intro exI [of _ "es @ evs"] exI [of _ t]) auto
qed

lemma evaluate_up:
  assumes "up s" and "source_id_match sid"
  shows "\<exists>evs t. evaluate ops th sid run sc cur s = (Inr evs, t) \<and> up t \<and>
    map (\<lambda>ev. (ae_rule ev, ae_state ev)) evs = emitted (view s) sid (alert_conditions th sc) \<and>
    (\<forall>ev \<in> set evs. ae_source_id ev = sid \<and> ae_crawl_run_id ev = run \<and> ae_occurred_at ev = cur) \<and>
    (\<forall>rule b. (rule, b) \<in> set (alert_conditions th sc) \<longrightarrow>
      view t (alert_key sid rule) = stored_after (view s (alert_key sid rule)) b) \<and>
    (\<forall>k. k \<notin> alert_key sid ` fst ` set RUNBOOKS \<longrightarrow> view t k = view s k)"
proof -
  have eq: "fst ` set (alert_conditions th sc) = fst ` set RUNBOOKS"
    using arg_cong [OF rules_of_conditions [of th sc], of set] by simp
  then have sub: "fst ` set (alert_conditions th sc) \<subseteq> fst ` set RUNBOOKS" "distinct (map fst (alert_conditions th sc))"
    using rules_of_conditions [of th sc] rules_distinct by simp_all
  have e: "evaluate ops th sid run sc cur s = evaluate_rules ops sid run cur (alert_conditions th sc) s"
    using assms(2) by (simp add: evaluate_def)
  show ?thesis using evaluate_rules_up [OF assms(1) sub(1,2), of sid run cur] unfolding e eq .
qed

end

subsection \<open>Histories\<close>

fun alternates :: "AlertState \<Rightarrow> AlertState list \<Rightarrow> bool" where
  "alternates nxt [] = True"
| "alternates nxt (st # sts) \<longleftrightarrow> st = nxt \<and> alternates (case nxt of ACTIVE \<Rightarrow> RESOLVED | RESOLVED \<Rightarrow> ACTIVE) sts"

definition next_state :: "string option \<Rightarrow> AlertState" where
  "next_state p = (if p = Some ''active'' then RESOLVED else ACTIVE)"

definition rule_states :: "string \<Rightarrow> AlertEvent list \<Rightarrow> AlertState list" where
  "rule_states rule evs = map ae_state (filter (\<lambda>ev. ae_rule ev = rule) evs)"

lemma rule_states_emitted:
  "rule_states rule evs = map snd (filter (\<lambda>c. fst c = rule) (map (\<lambda>ev. (ae_rule ev, ae_state ev)) evs))"
  by (induction evs) (simp_all add: rule_states_def)

lemma emitted_absent: "rule \<notin> fst ` set cs \<Longrightarrow> filter (\<lambda>c. fst c = rule) (emitted v sid cs) = []"
  by (induction v sid cs rule: emitted.induct) (auto split: option.split)

lemma emitted_rule: "distinct (map fst cs) \<Longrightarrow> (rule, b) \<in> set cs \<Longrightarrow>
    map snd (filter (\<lambda>c. fst c = rule) (emitted v sid cs)) =
      (case transition (v (alert_key sid rule)) b of Some st \<Rightarrow> [st] | None \<Rightarrow> [])"
proof (induction v sid cs rule: emitted.induct)
  case (2 v sid r b' cs)
  show ?case
  proof (cases "r = rule")
    case True
    then have "b' = b" "rule \<notin> fst ` set cs" using 2(3,4) by force+
    then show ?thesis using True emitted_absent [of rule cs v sid] by (simp split: option.split)
  next
    case False
    then have "(rule, b) \<in> set cs" "distinct (map fst cs)" using 2(3,4) by auto
    then show ?thesis using 2(1,2) False by (cases "transition (v (alert_key sid r)) b'") auto
  qed
qed simp

lemma alternates_step:
  "alternates (next_state (stored_after p b)) sts \<Longrightarrow>
     alternates (next_state p) ((case transition p b of Some st \<Rightarrow> [st] | None \<Rightarrow> []) @ sts)"
  by (auto simp: stored_after_def transition_def next_state_def split: option.splits if_splits AlertState.splits)

context kv_store
begin

lemma evaluations_alternate:
  "up s \<Longrightarrow> source_id_match sid \<Longrightarrow> rule \<in> fst ` set RUNBOOKS \<Longrightarrow>
    \<exists>evss t. mapP (\<lambda>(run, sc, cur). evaluate ops th sid run sc cur) hist s = (Inr evss, t) \<and>
      alternates (next_state (view s (alert_key sid rule))) (rule_states rule (concat evss))"
proof (induction hist arbitrary: s)
  case Nil
  then show ?case by (simp add: rule_states_def)
next
  case (Cons h hist)
  obtain run sc cur where h: "h = (run, sc, cur)" by (cases h)
  obtain evs t where t: "evaluate ops th sid run sc cur s = (Inr evs, t)" "up t"
    "map (\<lambda>ev. (ae_rule ev, ae_state ev)) evs = emitted (view s) sid (alert_conditions th sc)"
    "\<forall>rule b. (rule, b) \<in> set (alert_conditions th sc) \<longrightarrow>
      view t (alert_key sid rule) = stored_after (view s (alert_key sid rule)) b"
    using evaluate_up [OF Cons.prems(1,2), of th run sc cur] by blast
  obtain b where b: "(rule, b) \<in> set (alert_conditions th sc)"
    using Cons.prems(3) rules_of_conditions [of th sc] by (metis (no_types, lifting) image_iff list.set_map prod.collapse)
  have d: "distinct (map fst (alert_conditions th sc))" using rules_of_conditions rules_distinct by simp
  obtain evss u where u: "mapP (\<lambda>(run, sc, cur). evaluate ops th sid run sc cur) hist t = (Inr evss, u)"
    "alternates (next_state (view t (alert_key sid rule))) (rule_states rule (concat evss))"
    using Cons.IH [OF t(2) Cons.prems(2,3)] by blast
  have "rule_states rule (concat (evs # evss)) =
      (case transition (view s (alert_key sid rule)) b of Some st \<Rightarrow> [st] | None \<Rightarrow> []) @ rule_states rule (concat evss)"
    using emitted_rule [OF d b, of "view s" sid] unfolding t(3) [symmetric] rule_states_emitted [symmetric]
    by (simp add: rule_states_def)
  moreover have "alternates (next_state (stored_after (view s (alert_key sid rule)) b)) (rule_states rule (concat evss))"
    using u(2) t(4) b by simp
  ultimately show ?case using t(1) u(1) h alternates_step by (intro exI [of _ "evs # evss"] exI [of _ u]) simp
qed

end

subsection \<open>The properties\<close>

definition demo_alert :: MetricScenario where
  "demo_alert = default_scenario\<lparr>consecutive_failures := 3, captcha_seen := True\<rparr>"

lemma demo_alert_valid: "source_id_match ''a''"
  by code_simp

lemma redis0_up: "redis_up redis0" "redis_view redis0 k = None"
  by (simp_all add: redis0_def redis_defs)

text \<open>
  C22: an evaluation reports exactly the transitions. With a store that answers, the events are, in rule
  order, an active event for every rule whose condition holds and is not stored as active and a
  resolved event for every rule stored as active whose condition does not hold, all with the given
  source, run and time; afterwards the stored state of every rule is its condition's, and no other key
  has changed.
\<close>

theorem evaluate_reports_transitions:
  assumes "kv_store ops view up" and "up s" and "source_id_match sid"
  shows "\<exists>evs t. evaluate ops th sid run sc cur s = (Inr evs, t) \<and>
    map (\<lambda>ev. (ae_rule ev, ae_state ev)) evs = emitted (view s) sid (alert_conditions th sc) \<and>
    (\<forall>ev \<in> set evs. ae_source_id ev = sid \<and> ae_crawl_run_id ev = run \<and> ae_occurred_at ev = cur) \<and>
    (\<forall>rule b. (rule, b) \<in> set (alert_conditions th sc) \<longrightarrow>
      (view t (alert_key sid rule) = Some ''active'' \<longleftrightarrow> b)) \<and>
    (\<forall>k. k \<notin> alert_key sid ` fst ` set RUNBOOKS \<longrightarrow> view t k = view s k)"
proof -
  have "stored_after p b = Some ''active'' \<longleftrightarrow> b" for p b
    by (auto simp: stored_after_def transition_def split: option.split)
  with kv_store.evaluate_up [OF assms, of th run sc cur] show ?thesis by (elim exE conjE) auto
qed

theorem evaluate_reports_transitions_witness:
  "\<exists>evs t. evaluate redis_kv default_thresholds ''a'' ''1'' demo_alert (naive 0) redis0 = (Inr evs, t) \<and>
    map (\<lambda>ev. (ae_rule ev, ae_state ev)) evs = [(''crawler_consecutive_failures'', ACTIVE), (''crawler_captcha'', ACTIVE)]"
proof -
  have "emitted (redis_view redis0) ''a'' (alert_conditions default_thresholds demo_alert) =
      [(''crawler_consecutive_failures'', ACTIVE), (''crawler_captcha'', ACTIVE)]"
    by (simp add: alert_conditions_def default_thresholds_def demo_alert_def default_scenario_def exceeds_def
        transition_def redis0_up)
  then show ?thesis
    using evaluate_reports_transitions [OF redis_kv.kv_store_axioms redis0_up(1) demo_alert_valid,
        of default_thresholds "''1''" demo_alert "naive 0"] by auto
qed

text \<open>
  C23: no alert storms. Over any history of evaluations of a source (any scenarios, runs and times) with
  a store that answers, the events of one rule alternate between active and resolved, beginning with
  resolved when the rule was stored as active and with active otherwise.
\<close>

theorem alerts_alternate:
  assumes "kv_store ops view up" and "up s" and "source_id_match sid" and "rule \<in> fst ` set RUNBOOKS"
  shows "\<exists>evss t. mapP (\<lambda>(run, sc, cur). evaluate ops th sid run sc cur) hist s = (Inr evss, t) \<and>
    alternates (if view s (alert_key sid rule) = Some ''active'' then RESOLVED else ACTIVE)
      (rule_states rule (concat evss))"
  using kv_store.evaluations_alternate [OF assms] unfolding next_state_def .

theorem alerts_alternate_witness:
  "\<exists>evss t. mapP (\<lambda>(run, sc, cur). evaluate redis_kv default_thresholds ''a'' run sc cur)
      [(''1'', demo_alert, naive 0), (''2'', demo_alert, naive 1), (''3'', default_scenario, naive 2)] redis0 = (Inr evss, t) \<and>
    alternates ACTIVE (rule_states ''crawler_captcha'' (concat evss))"
  using alerts_alternate [OF redis_kv.kv_store_axioms redis0_up(1) demo_alert_valid, of "''crawler_captcha''"
      default_thresholds "[(''1'', demo_alert, naive 0), (''2'', demo_alert, naive 1), (''3'', default_scenario, naive 2)]"]
  by (simp add: redis0_up RUNBOOKS_def del: mapP.simps)

text \<open>
  a failing store loses notifications for good. The state of a rule is stored before its event is
  returned, and an exception in a later rule discards the events collected so far: here the store
  refuses the command after the first transition, \<open>evaluate\<close> raises without an event, and the next
  evaluation of the same scenario reports the second rule only.
\<close>

theorem alert_lost_on_failure:
  "\<exists>t evs u. evaluate redis_kv default_thresholds ''a'' ''1'' demo_alert (naive 0)
      (redis0\<lparr>faults := [Served, Served, Refused]\<rparr>) = (Inl redis_error, t) \<and>
    evaluate redis_kv default_thresholds ''a'' ''1'' demo_alert (naive 1) t = (Inr evs, u) \<and>
    map (\<lambda>ev. (ae_rule ev, ae_state ev)) evs = [(''crawler_captcha'', ACTIVE)]"
proof -
  define t where "t = snd (evaluate redis_kv default_thresholds ''a'' ''1'' demo_alert (naive 0)
      (redis0\<lparr>faults := [Served, Served, Refused]\<rparr>))"
  have e: "evaluate redis_kv default_thresholds ''a'' ''1'' demo_alert (naive 0)
      (redis0\<lparr>faults := [Served, Served, Refused]\<rparr>) = (Inl redis_error, t)" "redis_up t"
    "redis_view t = [alert_key ''a'' ''crawler_consecutive_failures'' \<mapsto> ''active'']"
    unfolding t_def
    by (simp_all add: evaluate_def demo_alert_valid alert_conditions_def default_thresholds_def demo_alert_def
        default_scenario_def exceeds_def redis_defs redis0_def command_def thenP_def bindP_def alert_event_def
        RUNBOOKS_def expiry_def fun_eq_iff)
  have "emitted (redis_view t) ''a'' (alert_conditions default_thresholds demo_alert) = [(''crawler_captcha'', ACTIVE)]"
    unfolding e(3)
    by (simp add: alert_conditions_def default_thresholds_def demo_alert_def default_scenario_def exceeds_def
        transition_def alert_key_inj)
  then show ?thesis
    using e(1) redis_kv.evaluate_up [OF e(2) demo_alert_valid, of default_thresholds "''1''" demo_alert "naive 1"] by auto
qed

text \<open>
  the JSON form of an alert is read back as its six fields, in key order.
\<close>

theorem alert_json_roundtrip:
  "\<exists>t. alert_to_json zone ev = Inr t \<and> loads t = Some (PDict [
     (''crawl_run_id'', PStr (ae_crawl_run_id ev)), (''occurred_at'', PStr (isoformat zone (ae_occurred_at ev))),
     (''rule'', PStr (ae_rule ev)), (''source_id'', PStr (ae_source_id ev)),
     (''state'', PStr (alert_value (ae_state ev))), (''troubleshooting_path'', PStr (ae_troubleshooting_path ev))])"
proof -
  let ?d = "PDict [(''rule'', PStr (ae_rule ev)), (''state'', PStr (alert_value (ae_state ev))),
     (''source_id'', PStr (ae_source_id ev)), (''crawl_run_id'', PStr (ae_crawl_run_id ev)),
     (''troubleshooting_path'', PStr (ae_troubleshooting_path ev)),
     (''occurred_at'', PStr (isoformat zone (ae_occurred_at ev)))]"
  obtain t where t: "dumps sorted_style ?d = Inr t"
    using dumps_styles_total(3) [of ?d] by (auto simp del: dumps.simps)
  have "loads t = Some (canon True ?d)"
    using loads_dumps [OF style_ok_styles(3) _ t] by (simp add: sorted_style_def del: canon.simps)
  then show ?thesis using t by (simp add: alert_to_json_def sort_key_def less_list_code del: dumps.simps)
qed

end
