(* ===== verification/Sha256.thy ===== *)
theory Sha256
  imports PyText "HOL-Library.Word"
begin

section \<open>\<open>hashlib.sha256\<close>\<close>

text \<open>
  SHA-256 on byte strings (FIPS 180-4), as \<open>hashlib.sha256(b).hexdigest()\<close> computes it: padding to
  64-byte blocks, the message schedule and the compression function on 32-bit words with wrap-around,
  and the lower-case hexadecimal text. The lemmas give the shape of a digest and of the padding.
\<close>

unbundle bit_operations_syntax

text \<open>The constants of the standard: the first 32 bits of the fractional parts of the cube roots of the
  first 64 primes, and of the square roots of the first 8.\<close>

definition round_constants :: "32 word list" where
  "round_constants = [
     1116352408, 1899447441, 3049323471, 3921009573, 961987163, 1508970993, 2453635748, 2870763221,
     3624381080, 310598401, 607225278, 1426881987, 1925078388, 2162078206, 2614888103, 3248222580,
     3835390401, 4022224774, 264347078, 604807628, 770255983, 1249150122, 1555081692, 1996064986,
     2554220882, 2821834349, 2952996808, 3210313671, 3336571891, 3584528711, 113926993, 338241895,
     666307205, 773529912, 1294757372, 1396182291, 1695183700, 1986661051, 2177026350, 2456956037,
     2730485921, 2820302411, 3259730800, 3345764771, 3516065817, 3600352804, 4094571909, 275423344,
     430227734, 506948616, 659060556, 883997877, 958139571, 1322822218, 1537002063, 1747873779,
     1955562222, 2024104815, 2227730452, 2361852424, 2428436474, 2756734187, 3204031479, 3329325298]"

definition initial_hash :: "32 word list" where
  "initial_hash = [
     1779033703, 3144134277, 1013904242, 2773480762, 1359893119, 2600822924, 528734635, 1541459225]"

subsection \<open>Padding\<close>

definition zero_pad :: "nat \<Rightarrow> nat" where
  "zero_pad len = (119 - len mod 64) mod 64"

definition length_bytes :: "nat \<Rightarrow> string" where
  "length_bytes len = map (\<lambda>i. char_of (8 * len div 256 ^ i mod 256)) [7, 6, 5, 4, 3, 2, 1, 0]"

definition padded :: "string \<Rightarrow> string" where
  "padded m = m @ [char_of (128 :: nat)] @ replicate (zero_pad (length m)) (char_of (0 :: nat)) @ length_bytes (length m)"

subsection \<open>Compression\<close>

fun words_of :: "string \<Rightarrow> 32 word list" where
  "words_of (a # b # c # d # r) =
     (of_nat (ord a * 16777216 + ord b * 65536 + ord c * 256 + ord d)) # words_of r"
| "words_of _ = []"

definition sigma0 :: "32 word \<Rightarrow> 32 word" where
  "sigma0 x = word_rotr 7 x XOR word_rotr 18 x XOR drop_bit 3 x"

definition sigma1 :: "32 word \<Rightarrow> 32 word" where
  "sigma1 x = word_rotr 17 x XOR word_rotr 19 x XOR drop_bit 10 x"

text \<open>The schedule, most recent word first.\<close>

fun extend :: "nat \<Rightarrow> 32 word list \<Rightarrow> 32 word list" where
  "extend 0 ws = ws"
| "extend (Suc n) ws = extend n ((sigma1 (ws ! 1) + ws ! 6 + sigma0 (ws ! 14) + ws ! 15) # ws)"

definition schedule :: "32 word list \<Rightarrow> 32 word list" where
  "schedule block = rev (extend 48 (rev block))"

definition sha_round :: "32 word \<times> 32 word \<Rightarrow> 32 word list \<Rightarrow> 32 word list" where
  "sha_round kw st = (case st of
       [a, b, c, d, e, f, g, h] \<Rightarrow>
         let s1 = word_rotr 6 e XOR word_rotr 11 e XOR word_rotr 25 e;
             ch = (e AND f) XOR (NOT e AND g);
             t1 = h + s1 + ch + fst kw + snd kw;
             s0 = word_rotr 2 a XOR word_rotr 13 a XOR word_rotr 22 a;
             mj = (a AND b) XOR (a AND c) XOR (b AND c)
         in [t1 + (s0 + mj), a, b, c, d + t1, e, f, g]
     | _ \<Rightarrow> st)"

definition compress :: "32 word list \<Rightarrow> 32 word list \<Rightarrow> 32 word list" where
  "compress block st = map2 (+) st (fold sha_round (zip round_constants (schedule block)) st)"

function blocks :: "32 word list \<Rightarrow> 32 word list \<Rightarrow> 32 word list" where
  "blocks ws st = (if length ws < 16 then st else blocks (drop 16 ws) (compress (take 16 ws) st))"
  by pat_completeness auto
termination by (relation "measure (\<lambda>(ws, st). length ws)") auto

declare blocks.simps [simp del]

subsection \<open>Digest\<close>

definition hex_char :: "nat \<Rightarrow> char" where
  "hex_char d = (if d < 10 then digit_char d else char_of (87 + d))"

definition word_hex :: "32 word \<Rightarrow> string" where
  "word_hex w = map (\<lambda>i. hex_char (unat (drop_bit (4 * i) w) mod 16)) [7, 6, 5, 4, 3, 2, 1, 0]"

definition sha256_hex :: "string \<Rightarrow> string" where
  "sha256_hex m = concat (map word_hex (blocks (words_of (padded m)) initial_hash))"

lemma length_padded: "length (padded m) mod 64 = 0"
proof -
  have "(n + 1 + (119 - n mod 64) mod 64 + 8) mod 64 = 0" for n :: nat
  proof -
    define k where "k = n mod 64"
    have k: "k < 64" by (simp add: k_def)
    have "(n + 1 + (119 - k) mod 64 + 8) mod 64 = (k + 1 + (119 - k) mod 64 + 8) mod 64"
      unfolding k_def by (metis (no_types, lifting) mod_add_left_eq)
    also have "\<dots> = (k + 1 + (119 - k) + 8) mod 64"
      by (metis (no_types, lifting) mod_add_left_eq mod_add_right_eq)
    also have "\<dots> = 0" using k by simp
    finally show ?thesis by (simp add: k_def)
  qed
  then show ?thesis by (simp add: padded_def zero_pad_def length_bytes_def add.assoc add.commute)
qed

lemma length_compress: "length st = 8 \<Longrightarrow> length (compress block st) = 8"
proof -
  have r: "length (sha_round kw s) = length s" for kw s
    by (auto simp: sha_round_def Let_def split: list.split)
  have "length (fold sha_round kws s) = length s" for kws s
    by (induction kws arbitrary: s) (simp_all add: r)
  then show "length st = 8 \<Longrightarrow> length (compress block st) = 8" by (simp add: compress_def)
qed

lemma length_blocks: "length st = 8 \<Longrightarrow> length (blocks ws st) = 8"
  by (induction ws st rule: blocks.induct) (subst blocks.simps, simp add: length_compress)

lemma hex_char_range: "d < 16 \<Longrightarrow> is_ascii_digit (hex_char d) \<or> (97 \<le> ord (hex_char d) \<and> ord (hex_char d) \<le> 102)"
  by (auto simp: hex_char_def is_ascii_digit_def digit_char_def)

text \<open>A digest is 64 lower-case hexadecimal characters (the column \<open>String(64)\<close> holds it).\<close>

lemma sha256_hex_shape: "length (sha256_hex m) = 64 \<and>
    list_all (\<lambda>c. is_ascii_digit c \<or> (97 \<le> ord c \<and> ord c \<le> 102)) (sha256_hex m)"
proof -
  have l: "length (blocks (words_of (padded m)) initial_hash) = 8"
    by (rule length_blocks) (simp add: initial_hash_def)
  have "length (concat (map word_hex ws)) = 8 * length ws" for ws
    by (induction ws) (simp_all add: word_hex_def)
  moreover have "list_all (\<lambda>c. is_ascii_digit c \<or> (97 \<le> ord c \<and> ord c \<le> 102)) (word_hex w)" for w
    by (simp add: word_hex_def hex_char_range)
  then have "list_all (\<lambda>c. is_ascii_digit c \<or> (97 \<le> ord c \<and> ord c \<le> 102)) (concat (map word_hex ws))" for ws
    by (induction ws) auto
  ultimately show ?thesis using l by (simp add: sha256_hex_def)
qed

end
