(* ===== verification/Hashing.thy ===== *)
theory Hashing
  imports Sha256 JsonRound
begin

section \<open>Canonical hashing (\<open>hashing.py\<close>)\<close>

text \<open>
  \<open>canonical_json_bytes\<close> and \<open>fingerprint_business_data\<close>, with the UTF-8 encoding of text and
  \<open>hashlib.sha256\<close> of the standard library. The lemmas: which values are accepted, that the bytes
  depend on the JSON value only (not on the order of keys at any depth, nor on list against tuple) and
  determine it, so that equal fingerprints mean equal business data up to a SHA-256 collision.
\<close>

subsection \<open>UTF-8\<close>

definition utf8_char :: "char \<Rightarrow> string" where
  "utf8_char c = (if ord c < 128 then [c] else [char_of (192 + ord c div 64), char_of (128 + ord c mod 64)])"

definition utf8 :: "string \<Rightarrow> string" where
  "utf8 s = concat (map utf8_char s)"

text \<open>\<open>bytes.decode("utf-8")\<close>; sequences for code points above 255 are outside the model and refused.\<close>

fun utf8_decode :: "string \<Rightarrow> string option" where
  "utf8_decode [] = Some []"
| "utf8_decode [c] = (if ord c < 128 then Some [c] else None)"
| "utf8_decode (c # d # r) =
     (if ord c < 128 then map_option (Cons c) (utf8_decode (d # r))
      else if (ord c = 194 \<or> ord c = 195) \<and> 128 \<le> ord d \<and> ord d < 192
      then map_option (Cons (char_of ((ord c - 192) * 64 + (ord d - 128)))) (utf8_decode r)
      else None)"

lemma utf8_decode_char: "utf8_decode (utf8_char c @ r) = map_option (Cons c) (utf8_decode r)"
proof (cases "ord c < 128")
  case True
  then show ?thesis by (cases r) (simp_all add: utf8_char_def)
next
  case False
  define C D where CD: "C = (char_of (192 + ord c div 64) :: char)" "D = (char_of (128 + ord c mod 64) :: char)"
  have u: "utf8_char c = [C, D]" using False by (simp add: utf8_char_def CD)
  have h: "ord c div 64 = 2 \<or> ord c div 64 = 3"
    using False div_le_mono [of 128 "ord c" 64] div_le_mono [OF ord_le [of c], of 64] by auto
  have "ord c mod 64 < 64" by simp
  with h have C: "ord C = 192 + ord c div 64" and D: "ord D = 128 + ord c mod 64" by (auto simp: CD)
  have D': "128 \<le> ord D" "ord D < 192" unfolding D by simp_all
  have C': "\<not> ord C < 128" "ord C = 194 \<or> ord C = 195" using h unfolding C by auto
  have "(ord C - 192) * 64 + (ord D - 128) = ord c" unfolding C D by simp
  then have "char_of ((ord C - 192) * 64 + (ord D - 128)) = c" by (simp only: char_of_ord)
  then show ?thesis using C' D' unfolding u by simp
qed

lemma utf8_decode_utf8: "utf8_decode (utf8 s) = Some s"
  by (induction s) (simp_all add: utf8_def utf8_decode_char)

lemma utf8_inj [simp]: "utf8 a = utf8 b \<longleftrightarrow> a = b"
  using utf8_decode_utf8 by (metis option.inject)

subsection \<open>Fingerprints\<close>

definition canonical_json_bytes :: "pyval \<Rightarrow> string result" where
  "canonical_json_bytes v = (case dumps canonical_style v of
       Inr t \<Rightarrow> Inr (utf8 t)
     | Inl _ \<Rightarrow> Inl (ValueError ''Business data must be JSON-compatible.''))"

definition fingerprint_business_data :: "pyval \<Rightarrow> string result" where
  "fingerprint_business_data data = map_sum id sha256_hex (canonical_json_bytes data)"

text \<open>\<open>dumps\<close> raises only \<open>TypeError\<close> and \<open>ValueError\<close>, the two classes that the code catches.\<close>

lemma dumps_raises: "dumps st v = Inl e \<Longrightarrow> is_ValueError e \<or> (\<exists>m. e = TypeError m)"
proof (induction v arbitrary: e)
  case (PFloat f)
  then show ?case by (cases f) (auto split: if_splits)
next
  case (PList xs)
  then show ?case by (auto split: sum.splits dest!: sequenceR_Inl_ex)
next
  case (PTuple xs)
  then show ?case by (auto split: sum.splits dest!: sequenceR_Inl_ex)
next
  case (PDict kvs)
  from PDict.prems have "sequenceR (map (member_text st) (items st kvs)) = Inl e"
    unfolding dumps_dict by (auto split: sum.splits)
  from sequenceR_Inl_ex [OF this] obtain k v where "(k, v) \<in> set kvs" "dumps st v = Inl e"
    by (auto simp: member_text_def split: sum.splits)
  then show ?case using PDict.IH [of "(k, v)" v e] by auto
qed auto

text \<open>The values that can be hashed: no foreign objects, no NaN and no infinities.\<close>

fun json_compatible :: "pyval \<Rightarrow> bool" where
  "json_compatible (PFloat f) = (case f of Fin _ \<Rightarrow> True | _ \<Rightarrow> False)"
| "json_compatible (PObject t) = False"
| "json_compatible (PList xs) = list_all json_compatible xs"
| "json_compatible (PTuple xs) = list_all json_compatible xs"
| "json_compatible (PDict kvs) = list_all (\<lambda>(k, v). json_compatible v) kvs"
| "json_compatible _ = True"

lemma dumps_compatible:
  assumes "\<not> allow_nan st"
  shows "(\<exists>t. dumps st v = Inr t) \<longleftrightarrow> json_compatible v"
proof (induction v)
  case (PFloat f)
  then show ?case using assms by (cases f) simp_all
next
  case (PList xs)
  have "(\<exists>ts. sequenceR (map (dumps st) xs) = Inr ts) \<longleftrightarrow> (\<forall>x \<in> set xs. \<exists>t. dumps st x = Inr t)"
    by (metis sequenceR_Inr_all sequenceR_total)
  then show ?case using PList by (auto simp: list_all_iff split: sum.splits)
next
  case (PTuple xs)
  have "(\<exists>ts. sequenceR (map (dumps st) xs) = Inr ts) \<longleftrightarrow> (\<forall>x \<in> set xs. \<exists>t. dumps st x = Inr t)"
    by (metis sequenceR_Inr_all sequenceR_total)
  then show ?case using PTuple by (auto simp: list_all_iff split: sum.splits)
next
  case (PDict kvs)
  have "(\<exists>ts. sequenceR (map (member_text st) (items st kvs)) = Inr ts) \<longleftrightarrow>
      (\<forall>x \<in> set (items st kvs). \<exists>t. member_text st x = Inr t)"
    by (metis sequenceR_Inr_all sequenceR_total)
  also have "\<dots> \<longleftrightarrow> (\<forall>(k, v) \<in> set kvs. \<exists>t. dumps st v = Inr t)"
  proof -
    have "(\<exists>t. member_text st kv = Inr t) \<longleftrightarrow> (\<exists>t. dumps st (snd kv) = Inr t)" for kv
      by (cases kv) (auto simp: member_text_Inr)
    then show ?thesis by (auto simp: split_beta)
  qed
  also have "\<dots> \<longleftrightarrow> json_compatible (PDict kvs)" using PDict by (fastforce simp: list_all_iff)
  finally show ?case unfolding dumps_dict by (auto split: sum.splits)
qed simp_all

lemma sort_key_sorted: "sorted (map f xs) \<Longrightarrow> sort_key f xs = xs"
  by (induction xs) (simp_all add: insort_is_Cons)

lemma sort_key_idem: "sort_key f (sort_key f xs) = sort_key f xs"
  by (rule sort_key_sorted) simp

text \<open>Sorted text depends on the canonical value only.\<close>

lemma dumps_canon:
  assumes "sort_keys st"
  shows "dumps st (canon True v) = dumps st v"
proof (induction v)
  case (PList xs)
  then have "map (dumps st \<circ> canon True) xs = map (dumps st) xs" by simp
  then show ?case by (simp only: canon.simps dumps.simps map_map)
next
  case (PTuple xs)
  then have "map (dumps st \<circ> canon True) xs = map (dumps st) xs" by simp
  then show ?case by (simp only: canon.simps dumps.simps map_map)
next
  case (PDict kvs)
  let ?c = "\<lambda>(k, v). (k, canon True v)"
  have i: "items st (sort_key fst (map ?c kvs)) = map ?c (items st kvs)"
    using assms by (simp add: items_def sort_key_map fst_map_snd sort_key_idem)
  have "member_text st (?c kv) = member_text st kv" if "kv \<in> set kvs" for kv
    using PDict.IH [of kv "snd kv"] that by (cases kv) (simp add: member_text_def)
  then have "map (member_text st \<circ> ?c) (items st kvs) = map (member_text st) (items st kvs)" by simp
  then show ?case unfolding canon.simps if_True dumps_dict i map_map by (simp only:)
qed simp_all

subsection \<open>The properties\<close>

lemma canonical_style_simps [simp]: "sort_keys canonical_style" "\<not> allow_nan canonical_style"
  by (simp_all add: canonical_style_def sorted_style_def compact_style_def default_style_def)

text \<open>
  hashing accepts exactly the JSON values: canonical bytes exist when no foreign object, NaN or
  infinity occurs in the data; otherwise the only exception is the \<open>ValueError\<close> of the module.
\<close>

theorem canonical_bytes_accepts:
  "(if json_compatible v then \<exists>b. canonical_json_bytes v = Inr b
    else canonical_json_bytes v = Inl (ValueError ''Business data must be JSON-compatible.''))"
proof (cases "dumps canonical_style v")
  case (Inl e)
  then have "\<not> json_compatible v" using dumps_compatible [of canonical_style v] by auto
  then show ?thesis using Inl by (simp add: canonical_json_bytes_def)
next
  case (Inr t)
  then have "json_compatible v" using dumps_compatible [of canonical_style v] by auto
  then show ?thesis using Inr by (simp add: canonical_json_bytes_def)
qed

text \<open>
  C25: the canonical bytes are those of the JSON value. Two values have the same bytes exactly when they
  are equal after sorting the keys of every dictionary, at any depth, and reading tuples as lists.
\<close>

theorem canonical_bytes_canonical:
  assumes "json_wf v" and "json_wf w" and "json_compatible v" and "json_compatible w"
  shows "canonical_json_bytes v = canonical_json_bytes w \<longleftrightarrow> canon True v = canon True w"
proof -
  obtain t u where t: "dumps canonical_style v = Inr t" "dumps canonical_style w = Inr u"
    using dumps_compatible [of canonical_style v] dumps_compatible [of canonical_style w] assms(3,4) by auto
  have l: "loads t = Some (canon True v)" "loads u = Some (canon True w)"
    using loads_dumps [OF style_ok_styles(4) assms(1) t(1)] loads_dumps [OF style_ok_styles(4) assms(2) t(2)] by simp_all
  have "t = u \<longleftrightarrow> canon True v = canon True w"
    using l dumps_canon [of canonical_style v] dumps_canon [of canonical_style w] t by (metis Inr_inject canonical_style_simps(1) option.inject)
  then show ?thesis using t by (simp add: canonical_json_bytes_def)
qed

theorem canonical_bytes_canonical_witness:
  "canonical_json_bytes (PDict [(''b'', PInt 1), (''a'', PTuple [PStr ''x''])]) =
   canonical_json_bytes (PDict [(''a'', PList [PStr ''x'']), (''b'', PInt 1)])"
  using canonical_bytes_canonical [of "PDict [(''b'', PInt 1), (''a'', PTuple [PStr ''x''])]"
      "PDict [(''a'', PList [PStr ''x'']), (''b'', PInt 1)]"] by simp

text \<open>
  a fingerprint identifies the business data. If two values have the same fingerprint, they are the
  same JSON value, or their canonical bytes are a SHA-256 collision; a fingerprint is 64 lower-case
  hexadecimal characters.
\<close>

theorem fingerprint_identifies:
  assumes "json_wf v" and "json_wf w" and "fingerprint_business_data v = Inr h" and "fingerprint_business_data w = Inr h"
  shows "length h = 64 \<and> (canon True v = canon True w \<or>
    (\<exists>a b. canonical_json_bytes v = Inr a \<and> canonical_json_bytes w = Inr b \<and> a \<noteq> b \<and> sha256_hex a = sha256_hex b))"
proof -
  obtain a b where ab: "canonical_json_bytes v = Inr a" "canonical_json_bytes w = Inr b" "sha256_hex a = h" "sha256_hex b = h"
    using assms(3,4) by (cases "canonical_json_bytes v"; cases "canonical_json_bytes w") (auto simp: fingerprint_business_data_def)
  have "json_compatible v" "json_compatible w"
    using canonical_bytes_accepts [of v] canonical_bytes_accepts [of w] ab(1,2) by (auto split: if_splits)
  then have "a = b \<longleftrightarrow> canon True v = canon True w"
    using canonical_bytes_canonical [OF assms(1,2)] ab(1,2) by simp
  then show ?thesis using ab sha256_hex_shape [of a] by auto
qed

theorem fingerprint_identifies_witness:
  "\<exists>h. fingerprint_business_data (PDict [(''a'', PInt 1)]) = Inr h \<and> length h = 64"
proof -
  obtain b where b: "canonical_json_bytes (PDict [(''a'', PInt 1)]) = Inr b"
    using dumps_compatible [of canonical_style "PDict [(''a'', PInt 1)]"] by (auto simp: canonical_json_bytes_def)
  then have h: "fingerprint_business_data (PDict [(''a'', PInt 1)]) = Inr (sha256_hex b)"
    by (simp add: fingerprint_business_data_def)
  show ?thesis using fingerprint_identifies [OF _ _ h h] h by simp
qed

end
