(* ===== verification/Adapters.thy ===== *)
theory Adapters
  imports Hashing
begin

section \<open>The adapter contract (\<open>adapters/base.py\<close>, \<open>adapters/demo_api.py\<close>)\<close>

text \<open>
  A source adapter is a record of four calls; since Python checks nothing, they may raise anything and
  return values of other types (\<open>None\<close> in the result where the code tests \<open>isinstance\<close>).
  \<open>AdapterRunner\<close> runs and validates one; its methods are modelled with every \<open>except\<close> clause in order.
  The \<open>DemoApiAdapter\<close> is an instance, with the HTTP client \<open>urlopen\<close> as a parameter.

  The lemmas: the runner raises only its own error classes, what it returns satisfies the contract
  whatever the adapter does, and the demo adapter delivers the items of a valid document.
\<close>

subsection \<open>Data\<close>

record FetchResult =
  body :: string
  etag :: "string option"
  last_modified :: "string option"

record CrawlItem =
  external_id :: string
  item_data :: "(string \<times> pyval) list"

text \<open>The validated constructor of \<open>CrawlItem\<close>: strict types, a non-empty and non-blank \<open>external_id\<close>;
  the exception lists the offending fields.\<close>

definition CrawlItem :: "pyval \<Rightarrow> pyval \<Rightarrow> CrawlItem result" where
  "CrawlItem eid data = (case (eid, data) of
       (PStr e, PDict d) \<Rightarrow> if e = [] \<or> strip e = [] then Inl (ValidationError [''external_id''])
         else Inr \<lparr>external_id = e, item_data = d\<rparr>
     | (PStr e, _) \<Rightarrow> Inl (ValidationError ((if e = [] \<or> strip e = [] then [''external_id''] else []) @ [''data'']))
     | (_, PDict _) \<Rightarrow> Inl (ValidationError [''external_id''])
     | _ \<Rightarrow> Inl (ValidationError [''external_id'', ''data'']))"

record AdapterResult =
  response :: FetchResult
  result_items :: "CrawlItem list"
  raw_response_hash :: string

record 's adapter =
  ad_fetch :: "('s, FetchResult option) py"
  ad_parse :: "FetchResult \<Rightarrow> ('s, pyval) py"
  ad_normalize :: "(string \<times> pyval) list \<Rightarrow> ('s, CrawlItem option) py"
  ad_fingerprint :: "CrawlItem \<Rightarrow> ('s, string) py"

subsection \<open>The runner\<close>

text \<open>\<open>except AdapterRunError: raise; except Exception as error: raise wrapped from error\<close>\<close>

definition wrap_error :: "exn \<Rightarrow> exn \<Rightarrow> exn" where
  "wrap_error wrapped e = (if is_AdapterRunError e then e else if is_Exception e then wrapped else e)"

definition runner_fetch :: "'s adapter \<Rightarrow> ('s, FetchResult) py" where
  "runner_fetch a s = (case ad_fetch a s of
       (Inl e, t) \<Rightarrow> (Inl (wrap_error (FetchError ''Adapter fetch failed.'') e), t)
     | (Inr None, t) \<Rightarrow> (Inl (AdapterContractError ''fetch must return FetchResult.''), t)
     | (Inr (Some r), t) \<Rightarrow> (Inr r, t))"

definition check_raw_items :: "pyval \<Rightarrow> (string \<times> pyval) list list result" where
  "check_raw_items v = (case (case v of PList xs \<Rightarrow> Some xs | PTuple xs \<Rightarrow> Some xs | _ \<Rightarrow> None) of
       None \<Rightarrow> Inl (AdapterContractError ''parse must return a sequence of mappings.'')
     | Some xs \<Rightarrow> sequenceR (map (\<lambda>x. case x of PDict d \<Rightarrow> Inr d
         | _ \<Rightarrow> Inl (AdapterContractError ''parse must return only mappings.'')) xs))"

definition runner_parse :: "'s adapter \<Rightarrow> FetchResult \<Rightarrow> ('s, (string \<times> pyval) list list) py" where
  "runner_parse a r s = (case ad_parse a r s of
       (Inl e, t) \<Rightarrow> (Inl (wrap_error (ParseError ''Adapter parse failed.'') e), t)
     | (Inr v, t) \<Rightarrow> (check_raw_items v, t))"

definition normalize_error :: "exn \<Rightarrow> exn" where
  "normalize_error e = (case e of
       ValidationError locs \<Rightarrow>
         NormalizationError (''normalize returned invalid CrawlItem data: '' @ join '', '' locs @ ''.'')
     | _ \<Rightarrow> wrap_error (NormalizationError ''Adapter normalize failed.'') e)"

definition runner_normalize :: "'s adapter \<Rightarrow> (string \<times> pyval) list \<Rightarrow> ('s, CrawlItem) py" where
  "runner_normalize a raw s = (case ad_normalize a raw s of
       (Inl e, t) \<Rightarrow> (Inl (normalize_error e), t)
     | (Inr None, t) \<Rightarrow> (Inl (AdapterContractError ''normalize must return CrawlItem.''), t)
     | (Inr (Some item), t) \<Rightarrow> (case fingerprint_business_data (PDict (item_data item)) of
           Inl _ \<Rightarrow> (Inl (AdapterContractError ''CrawlItem data must be JSON-compatible.''), t)
         | Inr expected \<Rightarrow> (case ad_fingerprint a item t of
               (Inl e, u) \<Rightarrow> (Inl (if is_Exception e then AdapterContractError ''Adapter fingerprint failed.'' else e), u)
             | (Inr actual, u) \<Rightarrow> if actual \<noteq> expected
                 then (Inl (AdapterContractError ''Adapter fingerprint must be canonical.''), u)
                 else (Inr item, u))))"

definition adapter_run :: "'s adapter \<Rightarrow> ('s, AdapterResult) py" where
  "adapter_run a = bindP (runner_fetch a) (\<lambda>r.
     bindP (runner_parse a r) (\<lambda>raws.
     bindP (mapP (runner_normalize a) raws) (\<lambda>its.
     ret \<lparr>response = r, result_items = its, raw_response_hash = sha256_hex (body r)\<rparr>)))"

subsection \<open>The demo adapter\<close>

definition demo_fetch :: "(string \<Rightarrow> rat \<Rightarrow> ('s, string \<times> string option) py) \<Rightarrow> string \<Rightarrow> rat \<Rightarrow>
    ('s, FetchResult option) py" where
  "demo_fetch urlopen url timeout s = (case urlopen url timeout s of
       (Inl e, t) \<Rightarrow> (Inl (if e \<in> {OtherException ''HTTPError'', OtherException ''URLError'', OtherException ''TimeoutError''}
           then FetchError ''demo_api request failed'' else e), t)
     | (Inr (b, tag), t) \<Rightarrow> (Inr (Some \<lparr>body = b, etag = tag, last_modified = None\<rparr>), t))"

text \<open>\<open>json.loads(bytes)\<close> decodes the bytes first, as UTF-8 with or without the byte order mark (bodies
  in UTF-16 or UTF-32, which it also recognises, are not modelled); a decoding error is a \<open>ValueError\<close>
  that is not a \<open>JSONDecodeError\<close>.\<close>

definition json_bytes_text :: "string \<Rightarrow> string option" where
  "json_bytes_text b = utf8_decode (if map ord (take 3 b) = [239, 187, 191] then drop 3 b else b)"

definition demo_parse :: "FetchResult \<Rightarrow> pyval result" where
  "demo_parse r = (case json_bytes_text (body r) of
       None \<Rightarrow> Inl (ValueError ''UnicodeDecodeError'')
     | Some t \<Rightarrow> (case loads t of
           Some (PDict doc) \<Rightarrow> (case map_of doc ''items'' of
               Some (PList xs) \<Rightarrow> if list_all (\<lambda>x. case x of PDict _ \<Rightarrow> True | _ \<Rightarrow> False) xs then Inr (PList xs)
                 else Inl (ParseError ''demo_api items must be a list of objects'')
             | Some _ \<Rightarrow> Inl (ParseError ''demo_api items must be a list of objects'')
             | None \<Rightarrow> Inl (ParseError ''demo_api response is not a valid items document''))
         | _ \<Rightarrow> Inl (ParseError ''demo_api response is not a valid items document'')))"

definition demo_normalize :: "(string \<times> pyval) list \<Rightarrow> CrawlItem result" where
  "demo_normalize raw = (case map_of raw ''id'' of
       Some (PStr identifier) \<Rightarrow> CrawlItem (PStr identifier) (PDict raw)
     | _ \<Rightarrow> Inl (ParseError ''demo_api item is missing string id''))"

definition demo_fingerprint :: "CrawlItem \<Rightarrow> string result" where
  "demo_fingerprint item = fingerprint_business_data (PDict (item_data item))"

definition DemoApiAdapter :: "(string \<Rightarrow> rat \<Rightarrow> ('s, string \<times> string option) py) \<Rightarrow> string \<Rightarrow> rat \<Rightarrow> 's adapter" where
  "DemoApiAdapter urlopen url timeout = \<lparr>ad_fetch = demo_fetch urlopen url timeout,
     ad_parse = (\<lambda>r. liftR (demo_parse r)),
     ad_normalize = (\<lambda>raw. liftR (map_sum id Some (demo_normalize raw))),
     ad_fingerprint = (\<lambda>item. liftR (demo_fingerprint item))\<rparr>"

subsection \<open>Lemmas\<close>

definition runner_error :: "exn \<Rightarrow> bool" where
  "runner_error e \<longleftrightarrow> is_AdapterRunError e \<or> \<not> is_Exception e"

lemma wrap_error_runner: "is_AdapterRunError w \<Longrightarrow> runner_error (wrap_error w e)"
  by (auto simp: runner_error_def wrap_error_def)

lemma normalize_error_runner: "runner_error (normalize_error e)"
  by (cases e) (simp_all add: normalize_error_def runner_error_def wrap_error_def)

lemma check_raw_items_error: "check_raw_items v = Inl e \<Longrightarrow> runner_error e"
  by (cases v) (auto simp: check_raw_items_def runner_error_def dest!: sequenceR_Inl_ex split: pyval.splits)

lemma check_raw_items_Inr: "check_raw_items v = Inr raws \<Longrightarrow> v \<in> {PList (map PDict raws), PTuple (map PDict raws)}"
proof -
  let ?f = "\<lambda>x. case x of PDict d \<Rightarrow> Inr d | _ \<Rightarrow> Inl (AdapterContractError ''parse must return only mappings.'')"
  assume "check_raw_items v = Inr raws"
  then obtain xs where v: "v \<in> {PList xs, PTuple xs}" and "sequenceR (map ?f xs) = Inr raws"
    by (cases v) (auto simp: check_raw_items_def)
  then have "list_all2 (\<lambda>x y. ?f x = Inr y) xs raws" by (simp only: sequenceR_Inr)
  then have "xs = map PDict raws"
    by (induction rule: list_all2_induct) (auto split: pyval.splits)
  with v show ?thesis by simp
qed

lemma runner_normalize_error: "runner_normalize a raw s = (Inl e, t) \<Longrightarrow> runner_error e"
  using normalize_error_runner
  by (auto simp: runner_normalize_def runner_error_def split: prod.splits sum.splits option.splits if_splits)

lemma runner_normalize_item: "runner_normalize a raw s = (Inr item, t) \<Longrightarrow>
    \<exists>h s1 t1. fingerprint_business_data (PDict (item_data item)) = Inr h \<and> ad_fingerprint a item s1 = (Inr h, t1) \<and>
      ad_normalize a raw s = (Inr (Some item), s1)"
  by (auto simp: runner_normalize_def split: prod.splits sum.splits option.splits if_splits)

lemma adapter_run_error: "adapter_run a s = (Inl e, t) \<Longrightarrow> runner_error e"
proof -
  assume "adapter_run a s = (Inl e, t)"
  then consider s1 where "runner_fetch a s = (Inl e, s1)"
    | r s1 s2 where "runner_parse a r s1 = (Inl e, s2)"
    | raws s1 s2 where "mapP (runner_normalize a) raws s1 = (Inl e, s2)"
    by (auto simp: adapter_run_def bindP_eq_Inl)
  then show ?thesis
  proof cases
    case 1
    then show ?thesis using wrap_error_runner [of "FetchError ''Adapter fetch failed.''"]
      by (auto simp: runner_fetch_def runner_error_def split: prod.splits sum.splits option.splits)
  next
    case 2
    then show ?thesis using wrap_error_runner [of "ParseError ''Adapter parse failed.''"] check_raw_items_error
      by (auto simp: runner_parse_def split: prod.splits sum.splits)
  next
    case 3
    then show ?thesis using mapP_Inl_ex runner_normalize_error by metis
  qed
qed

text \<open>The demo adapter's hooks and checks leave the state alone.\<close>

definition demo_item_ok :: "(string \<times> pyval) list \<Rightarrow> bool" where
  "demo_item_ok raw \<longleftrightarrow> json_compatible (PDict raw) \<and>
     (case map_of raw ''id'' of Some (PStr e) \<Rightarrow> strip e \<noteq> [] | _ \<Rightarrow> False)"

definition demo_item :: "(string \<times> pyval) list \<Rightarrow> CrawlItem result" where
  "demo_item raw = fst (runner_normalize (DemoApiAdapter (\<lambda>_ _. ret ([], None)) [] 0) raw ())"

lemma fingerprint_total: "json_compatible v \<longleftrightarrow> (\<exists>h. fingerprint_business_data v = Inr h)"
  using canonical_bytes_accepts [of v] by (auto simp: fingerprint_business_data_def split: if_splits)

lemma map_sum_Some [simp]: "map_sum id Some r = Inr (Some i) \<longleftrightarrow> r = Inr i"
  by (cases r) auto

lemma demo_normalize_pure: "runner_normalize (DemoApiAdapter urlopen url timeout) raw s = (demo_item raw, s)"
  by (auto simp: demo_item_def runner_normalize_def DemoApiAdapter_def liftR_def demo_fingerprint_def
      split: sum.splits option.splits prod.splits)

lemma demo_item_Inr: "demo_item raw = Inr i \<longleftrightarrow>
    demo_item_ok raw \<and> map_of raw ''id'' = Some (PStr (external_id i)) \<and> item_data i = raw"
proof -
  have "demo_item raw = Inr i \<longleftrightarrow> (\<exists>h. demo_normalize raw = Inr i \<and> fingerprint_business_data (PDict (item_data i)) = Inr h)"
    by (auto simp: demo_item_def runner_normalize_def DemoApiAdapter_def liftR_def demo_fingerprint_def
        split: sum.splits option.splits prod.splits)
  moreover have "demo_normalize raw = Inr i \<longleftrightarrow>
      map_of raw ''id'' = Some (PStr (external_id i)) \<and> strip (external_id i) \<noteq> [] \<and> item_data i = raw"
    by (cases i) (auto simp: demo_normalize_def CrawlItem_def split: option.splits pyval.splits)
  ultimately show ?thesis using fingerprint_total [of "PDict raw"] by (auto simp: demo_item_ok_def)
qed

lemma demo_item_not_ok: "demo_item raw = Inl e \<Longrightarrow> \<not> demo_item_ok raw"
proof
  assume e: "demo_item raw = Inl e" and ok: "demo_item_ok raw"
  then obtain i where "map_of raw ''id'' = Some (PStr i)"
    by (auto simp: demo_item_ok_def split: option.splits pyval.splits)
  then have "demo_item raw = Inr \<lparr>external_id = i, item_data = raw\<rparr>" using ok by (simp add: demo_item_Inr)
  with e show False by simp
qed

lemma demo_item_Exception: "demo_item raw = Inl e \<Longrightarrow> is_Exception e"
  by (auto simp: demo_item_def runner_normalize_def DemoApiAdapter_def liftR_def demo_fingerprint_def demo_normalize_def
      CrawlItem_def normalize_error_def wrap_error_def split: sum.splits option.splits prod.splits if_splits pyval.splits)

lemma utf8_no_mark: "json_bytes_text (utf8 t) = Some t"
proof -
  have "ord (hd (utf8_char c @ r)) < 196" for c r
  proof -
    have "ord c div 64 < 4" using div_le_mono [OF ord_le [of c], of 64] by simp
    then show ?thesis by (simp add: utf8_char_def)
  qed
  then have "ord (hd (utf8 t)) < 196" if "utf8 t \<noteq> []" using that by (cases t) (simp_all add: utf8_def)
  then have "\<not> map ord (take 3 (utf8 t)) = [239, 187, 191]"
    by (cases "utf8 t") auto
  then show ?thesis by (simp add: json_bytes_text_def utf8_decode_utf8)
qed

lemma demo_parse_items:
  assumes "loads t = Some (PDict doc)" and "map_of doc ''items'' = Some (PList (map PDict raws))"
  shows "demo_parse \<lparr>body = utf8 t, etag = tag, last_modified = lm\<rparr> = Inr (PList (map PDict raws))"
  using assms by (simp add: demo_parse_def utf8_no_mark list_all_iff)

lemma check_raw_dicts: "check_raw_items (PList (map PDict raws)) = Inr raws"
  by (simp add: check_raw_items_def o_def sequenceR_map_Inr [of "\<lambda>x. x", simplified])

subsection \<open>The properties\<close>

text \<open>
  The runner raises nothing but its own errors. Whatever the four calls of an adapter raise or
  return, a run that fails does so with \<open>AdapterRunError\<close> or one of its subclasses, or with an exception
  outside \<open>Exception\<close> (an interrupt).
\<close>

theorem runner_raises_contract_errors:
  assumes "adapter_run a s = (Inl e, t)"
  shows "is_AdapterRunError e \<or> \<not> is_Exception e"
  using adapter_run_error [OF assms] by (simp add: runner_error_def)

theorem runner_raises_contract_errors_witness:
  "adapter_run \<lparr>ad_fetch = ret None, ad_parse = (\<lambda>_. ret PNone), ad_normalize = (\<lambda>_. ret None), ad_fingerprint = (\<lambda>_. ret [])\<rparr> ()
    = (Inl (AdapterContractError ''fetch must return FetchResult.''), ()) \<and>
   is_AdapterRunError (AdapterContractError ''fetch must return FetchResult.'')"
proof
  show r: "adapter_run \<lparr>ad_fetch = ret None, ad_parse = (\<lambda>_. ret PNone), ad_normalize = (\<lambda>_. ret None), ad_fingerprint = (\<lambda>_. ret [])\<rparr> ()
    = (Inl (AdapterContractError ''fetch must return FetchResult.''), ())"
    by (simp add: adapter_run_def runner_fetch_def bindP_def ret_def)
  show "is_AdapterRunError (AdapterContractError ''fetch must return FetchResult.'')"
    using runner_raises_contract_errors [OF r] by simp
qed

text \<open>
  C26: a completed run satisfies the contract. There is one item per raw item that \<open>parse\<close> returned, in
  order, each is what \<open>normalize\<close> returned for it, has JSON business data, and the adapter's fingerprint
  of it is the canonical one; the response hash is the SHA-256 of the body that \<open>fetch\<close> returned.
\<close>

theorem runner_result_satisfies_contract:
  assumes "adapter_run a s = (Inr res, t)"
  shows "raw_response_hash res = sha256_hex (body (response res)) \<and>
    (\<exists>s1. ad_fetch a s = (Inr (Some (response res)), s1) \<and>
    (\<exists>v s2 raws. ad_parse a (response res) s1 = (Inr v, s2) \<and> v \<in> {PList (map PDict raws), PTuple (map PDict raws)} \<and>
       list_all2 (\<lambda>raw item. \<exists>u1 u2 u3 h. ad_normalize a raw u1 = (Inr (Some item), u2) \<and>
         ad_fingerprint a item u2 = (Inr h, u3) \<and> fingerprint_business_data (PDict (item_data item)) = Inr h)
         raws (result_items res)))"
proof -
  from assms obtain r s1 raws s2 where r: "runner_fetch a s = (Inr r, s1)" and p: "runner_parse a r s1 = (Inr raws, s2)"
    and m: "mapP (runner_normalize a) raws s2 = (Inr (result_items res), t)"
    and res: "response res = r" "raw_response_hash res = sha256_hex (body r)"
    by (auto simp: adapter_run_def bindP_eq_Inr ret_def)
  have f: "ad_fetch a s = (Inr (Some r), s1)"
    using r by (auto simp: runner_fetch_def split: prod.splits sum.splits option.splits)
  obtain v where v: "ad_parse a r s1 = (Inr v, s2)" "check_raw_items v = Inr raws"
    using p by (auto simp: runner_parse_def split: prod.splits sum.splits)
  have "list_all2 (\<lambda>raw item. \<exists>u1 u3. runner_normalize a raw u1 = (Inr item, u3)) raws (result_items res)"
    using mapP_Inr_each [OF m] .
  then have "list_all2 (\<lambda>raw item. \<exists>u1 u2 u3 h. ad_normalize a raw u1 = (Inr (Some item), u2) \<and>
         ad_fingerprint a item u2 = (Inr h, u3) \<and> fingerprint_business_data (PDict (item_data item)) = Inr h)
         raws (result_items res)"
    by (rule list_all2_mono) (elim exE, drule runner_normalize_item, blast)
  then show ?thesis using f v check_raw_items_Inr res by blast
qed

text \<open>
  the demo adapter, end to end. When the server answers with a document whose \<open>items\<close> are objects,
  the run delivers one item per object, with its \<open>id\<close> and all of its fields, exactly when every object has
  a string \<open>id\<close> that is not blank and no NaN or infinity; otherwise it fails with an adapter error.
\<close>

theorem demo_adapter_delivers:
  assumes "urlopen url timeout s = (Inr (utf8 t, tag), s')"
    and "loads t = Some (PDict doc)" and "map_of doc ''items'' = Some (PList (map PDict raws))"
  shows "case adapter_run (DemoApiAdapter urlopen url timeout) s of
      (Inr res, u) \<Rightarrow> u = s' \<and> list_all demo_item_ok raws \<and> etag (response res) = tag \<and>
        list_all2 (\<lambda>raw i. map_of raw ''id'' = Some (PStr (external_id i)) \<and> item_data i = raw) raws (result_items res)
    | (Inl e, u) \<Rightarrow> u = s' \<and> \<not> list_all demo_item_ok raws \<and> is_AdapterRunError e"
proof -
  let ?a = "DemoApiAdapter urlopen url timeout" and ?r = "\<lparr>body = utf8 t, etag = tag, last_modified = None\<rparr>"
  have f: "runner_fetch ?a s = (Inr ?r, s')"
    using assms(1) by (simp add: runner_fetch_def DemoApiAdapter_def demo_fetch_def)
  have p: "runner_parse ?a ?r s' = (Inr raws, s')"
    using demo_parse_items [OF assms(2,3)] check_raw_dicts [of raws]
    by (simp add: runner_parse_def DemoApiAdapter_def liftR_def)
  have m: "mapP (runner_normalize ?a) raws s' = (sequenceR (map demo_item raws), s')"
    by (rule mapP_pure) (rule demo_normalize_pure)
  show ?thesis
  proof (cases "sequenceR (map demo_item raws)")
    case (Inl e)
    from sequenceR_Inl_ex [OF this] obtain raw where raw: "raw \<in> set raws" "demo_item raw = Inl e" by auto
    then have n: "\<not> demo_item_ok raw" using demo_item_not_ok by metis
    have "runner_error e" using runner_normalize_error demo_normalize_pure raw(2) by metis
    then have "is_AdapterRunError e" using demo_item_Exception [OF raw(2)] by (simp add: runner_error_def)
    then show ?thesis using f p m Inl n raw(1) by (auto simp: adapter_run_def bindP_def list_all_iff)
  next
    case (Inr its)
    then have "list_all2 (\<lambda>raw i. demo_item raw = Inr i) raws its" by (simp add: sequenceR_Inr)
    then have "list_all2 (\<lambda>raw i. demo_item_ok raw \<and> map_of raw ''id'' = Some (PStr (external_id i)) \<and> item_data i = raw) raws its"
      by (simp add: demo_item_Inr)
    then have "list_all demo_item_ok raws \<and>
        list_all2 (\<lambda>raw i. map_of raw ''id'' = Some (PStr (external_id i)) \<and> item_data i = raw) raws its"
      by (induction rule: list_all2_induct) auto
    then show ?thesis using f p m Inr by (simp add: adapter_run_def bindP_def ret_def)
  qed
qed

theorem demo_adapter_delivers_witness:
  "\<exists>t res. adapter_run (DemoApiAdapter (\<lambda>_ _. ret (utf8 t, None)) ''http://demo'' 2) () = (Inr res, ()) \<and>
     map external_id (result_items res) = [''a'']"
proof -
  let ?raw = "[(''id'', PStr ''a'')]" and ?s = default_style
  let ?doc = "[(''items'', PList [PDict ?raw])]"
  obtain t where t: "dumps ?s (PDict ?doc) = Inr t" using dumps_styles_total(1) [of "PDict ?doc"] by auto
  let ?url = "\<lambda>_ _. ret (utf8 t, None)"
  have l: "loads t = Some (PDict ?doc)"
    using loads_dumps [OF style_ok_styles(1) _ t] by (simp add: default_style_def)
  have ok: "demo_item_ok ?raw" by (simp add: demo_item_ok_def strip_def is_space_def ord_def)
  have u: "?url ''http://demo'' 2 () = (Inr (utf8 t, None), ())" by (simp add: ret_def)
  have "case adapter_run (DemoApiAdapter ?url ''http://demo'' 2) () of
      (Inr res, u) \<Rightarrow> u = () \<and> list_all demo_item_ok [?raw] \<and> etag (response res) = None \<and>
        list_all2 (\<lambda>raw i. map_of raw ''id'' = Some (PStr (external_id i)) \<and> item_data i = raw) [?raw] (result_items res)
    | (Inl e, u) \<Rightarrow> u = () \<and> \<not> list_all demo_item_ok [?raw] \<and> is_AdapterRunError e"
    by (rule demo_adapter_delivers [where t = t and doc = ?doc and tag = None and s' = "()"]) (simp_all add: u l)
  then obtain res where "adapter_run (DemoApiAdapter ?url ''http://demo'' 2) () = (Inr res, ())"
      "list_all2 (\<lambda>raw i. map_of raw ''id'' = Some (PStr (external_id i)) \<and> item_data i = raw) [?raw] (result_items res)"
    using ok by (auto split: prod.splits sum.splits)
  then show ?thesis by (intro exI [of _ t] exI [of _ res]) (auto simp: list_all2_Cons1)
qed

theorem runner_result_satisfies_contract_witness:
  "\<exists>res. adapter_run \<lparr>ad_fetch = ret (Some \<lparr>body = [], etag = None, last_modified = None\<rparr>),
      ad_parse = (\<lambda>_. ret (PTuple [PDict []])), ad_normalize = (\<lambda>d. ret (Some \<lparr>external_id = ''a'', item_data = d\<rparr>)),
      ad_fingerprint = (\<lambda>i. liftR (fingerprint_business_data (PDict (item_data i))))\<rparr> () = (Inr res, ()) \<and>
    length (result_items res) = 1"
proof -
  define a :: "unit adapter" where "a = \<lparr>ad_fetch = ret (Some \<lparr>body = [], etag = None, last_modified = None\<rparr>),
      ad_parse = (\<lambda>_. ret (PTuple [PDict []])), ad_normalize = (\<lambda>d. ret (Some \<lparr>external_id = ''a'', item_data = d\<rparr>)),
      ad_fingerprint = (\<lambda>i. liftR (fingerprint_business_data (PDict (item_data i))))\<rparr>"
  obtain h where "fingerprint_business_data (PDict []) = Inr h"
    using fingerprint_total [of "PDict []"] by auto
  then obtain res where r: "adapter_run a () = (Inr res, ())"
    by (auto simp: a_def adapter_run_def runner_fetch_def runner_parse_def runner_normalize_def check_raw_items_def
        bindP_def ret_def liftR_def)
  have "ad_parse a (response res) s = (Inr (PTuple [PDict []]), s)" for s by (simp add: a_def ret_def)
  then have "length (result_items res) = 1"
    using runner_result_satisfies_contract [OF r] by (auto simp: list_all2_conv_all_nth)
  with r show ?thesis unfolding a_def by blast
qed

end
