(* ===== verification/Repository.thy ===== *)
theory Repository
  imports Adapters Datetime
begin

section \<open>Record persistence and change detection (\<open>record_repository.py\<close>)\<close>

text \<open>
  A SQLAlchemy session inside one transaction, as the tables of \<open>models.py\<close> that the repository
  touches: every statement sees the changes made before it (autoflush), so the session and the
  transaction's view of the database are one state, \<open>db\<close>. Primary keys (\<open>uuid4\<close>) are numbers that do
  not repeat; a source id is the text of its UUID. The columns \<open>created_at\<close>, \<open>updated_at\<close> and
  \<open>occurred_at\<close>, filled by column defaults, are not modelled, nor are row locks, which matter between
  transactions only. \<open>refuses\<close> is the database: the exception, if any, with which PostgreSQL answers a
  statement (constraints on the flushed rows, a lost connection). A failed call leaves its partial state to
  the transaction, which the caller rolls back (\<open>in_transaction\<close>).

  The lemmas: \<open>persist_collection\<close> refines the change of a table indexed by source and external id
  (\<open>persisted\<close>), its notifications are exactly the differences it made (\<open>expected_events\<close>), and every
  row invariant survives.
\<close>

subsection \<open>Tables\<close>

record Record =
  rec_id :: nat
  rec_source_id :: string
  rec_external_id :: string
  rec_payload :: "(string \<times> pyval) list"
  content_hash :: string
  is_active :: bool
  last_seen_at :: "datetime option"
  missing_count :: int

record ChangeEvent =
  record_id :: nat
  event_type :: string
  event_payload_data :: "(string \<times> pyval) list"

record SourceFetchState =
  state_source_id :: string
  state_etag :: "string option"
  state_last_modified :: "string option"
  state_raw_response_hash :: "string option"
  state_updated_at :: "datetime option"

record db =
  records :: "Record list"
  change_events :: "ChangeEvent list"
  source_fetch_states :: "SourceFetchState list"
  advisory_locks :: "string list"
  uuid_supply :: nat

abbreviation INACTIVE_AFTER_SUCCESSFUL_ABSENCES :: int where
  "INACTIVE_AFTER_SUCCESSFUL_ABSENCES \<equiv> 3"

subsection \<open>Statements\<close>

text \<open>A statement first flushes pending changes; the database may refuse either.\<close>

definition statement :: "(db \<Rightarrow> exn option) \<Rightarrow> (db, unit) py" where
  "statement refuses d = (case refuses d of Some e \<Rightarrow> (Inl e, d) | None \<Rightarrow> (Inr (), d))"

definition record_lock_key :: "string \<Rightarrow> string \<Rightarrow> string" where
  "record_lock_key source_id eid = source_id @ '':'' @ eid"

definition lock_record_key :: "(db \<Rightarrow> exn option) \<Rightarrow> string \<Rightarrow> string \<Rightarrow> (db, unit) py" where
  "lock_record_key refuses source_id eid = thenP (statement refuses)
     (\<lambda>d. (Inr (), d\<lparr>advisory_locks := record_lock_key source_id eid # advisory_locks d\<rparr>))"

definition select_record :: "(db \<Rightarrow> exn option) \<Rightarrow> string \<Rightarrow> string \<Rightarrow> (db, Record option) py" where
  "select_record refuses source_id eid = thenP (statement refuses)
     (\<lambda>d. (Inr (find (\<lambda>r. rec_source_id r = source_id \<and> rec_external_id r = eid) (records d)), d))"

definition event :: "nat \<Rightarrow> string \<Rightarrow> (string \<times> pyval) list \<Rightarrow> (db, unit) py" where
  "event rid kind data d = (Inr (), d\<lparr>change_events := change_events d @
     [\<lparr>record_id = rid, event_type = kind, event_payload_data = data\<rparr>]\<rparr>)"

text \<open>Assignments to the attributes of a loaded row.\<close>

definition update_record :: "nat \<Rightarrow> (Record \<Rightarrow> Record) \<Rightarrow> (db, unit) py" where
  "update_record rid f d = (Inr (), d\<lparr>records := map (\<lambda>r. if rec_id r = rid then f r else r) (records d)\<rparr>)"

text \<open>\<open>session.add(record); session.flush()\<close>: the key is drawn and the row written.\<close>

definition add_record :: "(db \<Rightarrow> exn option) \<Rightarrow> (nat \<Rightarrow> Record) \<Rightarrow> (db, nat) py" where
  "add_record refuses row = bindP (\<lambda>d. (Inr (uuid_supply d), d\<lparr>uuid_supply := Suc (uuid_supply d),
       records := records d @ [row (uuid_supply d)]\<rparr>))
     (\<lambda>i. thenP (statement refuses) (ret i))"

subsection \<open>\<open>RecordRepository\<close>\<close>

definition seen :: "datetime \<Rightarrow> (string \<times> pyval) list \<Rightarrow> Record \<Rightarrow> Record" where
  "seen now data r = r\<lparr>rec_payload := data, last_seen_at := Some now, missing_count := 0, is_active := True\<rparr>"

definition persist_item :: "(db \<Rightarrow> exn option) \<Rightarrow> datetime \<Rightarrow> string \<Rightarrow> CrawlItem \<Rightarrow> (db, unit) py" where
  "persist_item refuses now source_id item =
     thenP (lock_record_key refuses source_id (external_id item))
     (bindP (liftR (fingerprint_business_data (PDict (item_data item)))) (\<lambda>fingerprint.
     bindP (select_record refuses source_id (external_id item)) (\<lambda>found. case found of
       None \<Rightarrow> bindP (add_record refuses (\<lambda>i. \<lparr>rec_id = i, rec_source_id = source_id,
           rec_external_id = external_id item, rec_payload = item_data item, content_hash = fingerprint,
           is_active = True, last_seen_at = Some now, missing_count = 0\<rparr>))
         (\<lambda>i. event i ''created'' (item_data item))
     | Some r \<Rightarrow> thenP (update_record (rec_id r) (seen now (item_data item)))
         (if content_hash r \<noteq> fingerprint
          then thenP (update_record (rec_id r) (content_hash_update (\<lambda>_. fingerprint)))
            (event (rec_id r) ''updated'' (item_data item))
          else ret ()))))"

definition update_fetch_state :: "(db \<Rightarrow> exn option) \<Rightarrow> string \<Rightarrow> AdapterResult \<Rightarrow> datetime \<Rightarrow> (db, unit) py" where
  "update_fetch_state refuses source_id result now = thenP (statement refuses) (\<lambda>d.
     let row = \<lparr>state_source_id = source_id, state_etag = etag (response result),
           state_last_modified = last_modified (response result),
           state_raw_response_hash = Some (raw_response_hash result), state_updated_at = Some now\<rparr>
     in (Inr (), d\<lparr>source_fetch_states :=
       (if find (\<lambda>s. state_source_id s = source_id) (source_fetch_states d) = None
        then source_fetch_states d @ [row]
        else map (\<lambda>s. if state_source_id s = source_id then row else s) (source_fetch_states d))\<rparr>))"

definition mark_missing :: "Record \<Rightarrow> Record" where
  "mark_missing r = r\<lparr>missing_count := missing_count r + 1,
     is_active := is_active r \<and> \<not> INACTIVE_AFTER_SUCCESSFUL_ABSENCES \<le> missing_count r + 1\<rparr>"

definition reconcile_record :: "string set \<Rightarrow> Record \<Rightarrow> (db, unit) py" where
  "reconcile_record observed_ids r =
     (if rec_external_id r \<in> observed_ids then ret ()
      else thenP (update_record (rec_id r) mark_missing)
        (if INACTIVE_AFTER_SUCCESSFUL_ABSENCES \<le> missing_count r + 1
         then event (rec_id r) ''inactive'' (rec_payload r) else ret ()))"

definition reconcile_missing :: "(db \<Rightarrow> exn option) \<Rightarrow> string \<Rightarrow> string set \<Rightarrow> (db, unit list) py" where
  "reconcile_missing refuses source_id observed_ids = bindP
     (thenP (statement refuses) (\<lambda>d. (Inr (filter (\<lambda>r. rec_source_id r = source_id \<and> is_active r) (records d)), d)))
     (mapP (reconcile_record observed_ids))"

definition persist_collection :: "(db \<Rightarrow> exn option) \<Rightarrow> datetime \<Rightarrow> string \<Rightarrow> AdapterResult \<Rightarrow> (db, unit) py" where
  "persist_collection refuses now source_id result =
     thenP (mapP (persist_item refuses now source_id) (result_items result))
     (thenP (update_fetch_state refuses source_id result now)
     (thenP (reconcile_missing refuses source_id (set (map external_id (result_items result)))) (ret ())))"

text \<open>The caller's transaction: flush and commit on return, roll back on an exception. Advisory locks end
  with it.\<close>

definition in_transaction :: "(db \<Rightarrow> exn option) \<Rightarrow> (db, 'a) py \<Rightarrow> (db, 'a) py" where
  "in_transaction refuses m d = (case bindP m (\<lambda>x. thenP (statement refuses) (ret x)) d of
       (Inl e, _) \<Rightarrow> (Inl e, d)
     | (Inr x, d') \<Rightarrow> (Inr x, d'\<lparr>advisory_locks := advisory_locks d\<rparr>))"

subsection \<open>The table behind the rows\<close>

definition rec_key :: "Record \<Rightarrow> string \<times> string" where
  "rec_key r = (rec_source_id r, rec_external_id r)"

definition row_at :: "db \<Rightarrow> string \<times> string \<Rightarrow> Record option" where
  "row_at d k = find (\<lambda>r. rec_key r = k) (records d)"

text \<open>The notifications of one record, in order.\<close>

definition history :: "db \<Rightarrow> string \<times> string \<Rightarrow> (string \<times> (string \<times> pyval) list) list" where
  "history d k = (case row_at d k of None \<Rightarrow> [] | Some r \<Rightarrow>
     map (\<lambda>e. (event_type e, event_payload_data e)) (filter (\<lambda>e. record_id e = rec_id r) (change_events d)))"

text \<open>A row: its hash is the fingerprint of its payload, and it is active until the third absence.\<close>

definition row_ok :: "Record \<Rightarrow> bool" where
  "row_ok r \<longleftrightarrow> fingerprint_business_data (PDict (rec_payload r)) = Inr (content_hash r) \<and>
     0 \<le> missing_count r \<and> missing_count r \<le> 3 \<and> (is_active r \<longleftrightarrow> missing_count r < 3)"

text \<open>The constraints of \<open>models.py\<close>: unique keys, one row per source and external id, and every event of
  an existing row.\<close>

definition db_ok :: "db \<Rightarrow> bool" where
  "db_ok d \<longleftrightarrow> distinct (map rec_key (records d)) \<and> distinct (map rec_id (records d)) \<and>
     list_all (\<lambda>r. row_ok r \<and> rec_id r < uuid_supply d) (records d) \<and>
     list_all (\<lambda>e. record_id e \<in> rec_id ` set (records d)) (change_events d)"

lemma distinct_map_eq: "distinct (map f xs) \<Longrightarrow> x \<in> set xs \<Longrightarrow> y \<in> set xs \<Longrightarrow> f x = f y \<longleftrightarrow> x = y"
  by (auto simp: distinct_map inj_on_def)

lemma row_at_iff: "db_ok d \<Longrightarrow> row_at d k = Some r \<longleftrightarrow> r \<in> set (records d) \<and> rec_key r = k"
proof
  assume "row_at d k = Some r"
  then show "r \<in> set (records d) \<and> rec_key r = k"
    by (auto simp: row_at_def find_Some_iff)
next
  assume d: "db_ok d" and r: "r \<in> set (records d) \<and> rec_key r = k"
  show "row_at d k = Some r"
  proof (cases "row_at d k")
    case None
    then show ?thesis using r by (auto simp: row_at_def find_None_iff)
  next
    case (Some r')
    then have "r' \<in> set (records d)" "rec_key r' = k" by (auto simp: row_at_def find_Some_iff)
    then show ?thesis using Some r d distinct_map_eq [of rec_key "records d" r r'] by (auto simp: db_ok_def)
  qed
qed

lemma find_append: "find P (xs @ ys) = (case find P xs of Some x \<Rightarrow> Some x | None \<Rightarrow> find P ys)"
  by (induction xs) auto

lemma option_eqI: "(\<And>r. a = Some r \<longleftrightarrow> b = Some r) \<Longrightarrow> a = b"
  by (cases a; cases b) auto

lemma row_at_inj: "db_ok d \<Longrightarrow> row_at d k = Some r \<Longrightarrow> row_at d k' = Some r' \<Longrightarrow> rec_id r = rec_id r' \<longleftrightarrow> k = k'"
  using distinct_map_eq [of rec_id "records d" r r'] row_at_iff [of d k r] row_at_iff [of d k' r']
  by (cases "k = k'") (auto simp: db_ok_def)

text \<open>One row assigned and notified: the step that updates, and the step that marks a row missing.\<close>

definition touched :: "nat \<Rightarrow> (Record \<Rightarrow> Record) \<Rightarrow> (string \<times> (string \<times> pyval) list) list \<Rightarrow> db \<Rightarrow> db" where
  "touched i f evs d = d\<lparr>records := map (\<lambda>r. if rec_id r = i then f r else r) (records d),
     change_events := change_events d @ map (\<lambda>(t, p). \<lparr>record_id = i, event_type = t, event_payload_data = p\<rparr>) evs\<rparr>"

lemma touched_sel [simp]: "uuid_supply (touched i f evs d) = uuid_supply d"
  "source_fetch_states (touched i f evs d) = source_fetch_states d"
  by (simp_all add: touched_def)

lemma touched_records:
  assumes d: "db_ok d" and r: "row_at d k = Some r"
  shows "records (touched (rec_id r) f evs d) = map (\<lambda>x. if x = r then f r else x) (records d)"
proof -
  have "rec_id x = rec_id r \<longleftrightarrow> x = r" if "x \<in> set (records d)" for x
    using distinct_map_eq [of rec_id "records d" x r] d r that by (auto simp: row_at_iff db_ok_def)
  then show ?thesis by (auto simp: touched_def)
qed

lemma touched_ok:
  assumes d: "db_ok d" and r: "row_at d k = Some r" and f: "rec_id (f r) = rec_id r" "rec_key (f r) = rec_key r"
    and ok: "row_ok (f r)"
  shows "db_ok (touched (rec_id r) f evs d)"
    and "row_at (touched (rec_id r) f evs d) = (row_at d)(k \<mapsto> f r)"
proof -
  let ?d = "touched (rec_id r) f evs d"
  have rs: "records ?d = map (\<lambda>x. if x = r then f r else x) (records d)" using d r by (rule touched_records)
  have rin: "r \<in> set (records d)" "rec_key r = k" using r row_at_iff [OF d] by auto
  have k: "map rec_key (records ?d) = map rec_key (records d)" and i: "map rec_id (records ?d) = map rec_id (records d)"
    unfolding rs using f by auto
  have "rec_id ` set (records ?d) = rec_id ` set (records d)" using i by (metis list.set_map)
  then show ok': "db_ok ?d"
    using d ok rin f(1) unfolding db_ok_def k i by (simp add: list_all_iff rs) (auto simp: touched_def)
  show "row_at ?d = (row_at d)(k \<mapsto> f r)"
  proof (rule ext, rule option_eqI)
    fix k' x
    have "row_at ?d k' = Some x \<longleftrightarrow> (\<exists>y \<in> set (records d). x = (if y = r then f r else y) \<and> rec_key x = k')"
      unfolding row_at_iff [OF ok'] rs by auto
    also have "\<dots> \<longleftrightarrow> (if k' = k then x = f r else x \<in> set (records d) \<and> rec_key x = k')"
      using rin f distinct_map_eq [of rec_key "records d" _ r] d by (auto simp: db_ok_def)
    finally show "row_at ?d k' = Some x \<longleftrightarrow> ((row_at d)(k \<mapsto> f r)) k' = Some x"
      by (auto simp: row_at_iff [OF d])
  qed
qed

lemma touched_history:
  assumes "db_ok d" and "row_at d k = Some r" and "rec_id (f r) = rec_id r" "rec_key (f r) = rec_key r" and "row_ok (f r)"
  shows "history (touched (rec_id r) f evs d) k' = history d k' @ (if k' = k then evs else [])"
proof (cases "row_at d k'")
  case None
  then show ?thesis using assms(2) touched_ok(2) [where f = f and evs = evs, OF assms] by (auto simp: history_def)
next
  case (Some r')
  have "rec_id r' = rec_id r \<longleftrightarrow> k' = k" using row_at_inj [OF assms(1) Some assms(2)] .
  then have ev: "map (\<lambda>e. (event_type e, event_payload_data e)) (filter (\<lambda>e. record_id e = rec_id r')
      (map (\<lambda>(t, p). \<lparr>record_id = rec_id r, event_type = t, event_payload_data = p\<rparr>) evs)) =
      (if k' = k then evs else [])"
    by (induction evs) auto
  obtain r'' where "row_at (touched (rec_id r) f evs d) k' = Some r''" "rec_id r'' = rec_id r'"
    using Some assms(2,3) unfolding touched_ok(2) [where f = f and evs = evs, OF assms]
    by (cases "k' = k") auto
  then have "history (touched (rec_id r) f evs d) k' = map (\<lambda>e. (event_type e, event_payload_data e))
      (filter (\<lambda>e. record_id e = rec_id r') (change_events (touched (rec_id r) f evs d)))"
    by (simp add: history_def)
  also have "\<dots> = history d k' @ (if k' = k then evs else [])"
    unfolding ev [symmetric] using Some by (simp add: history_def touched_def)
  finally show ?thesis .
qed

text \<open>A row inserted and notified.\<close>

definition inserted :: "Record \<Rightarrow> db \<Rightarrow> db" where
  "inserted r d = d\<lparr>uuid_supply := Suc (uuid_supply d), records := records d @ [r],
     change_events := change_events d @ [\<lparr>record_id = rec_id r, event_type = ''created'', event_payload_data = rec_payload r\<rparr>]\<rparr>"

lemma inserted_ok:
  assumes d: "db_ok d" and n: "row_at d (rec_key r) = None" and i: "rec_id r = uuid_supply d" and ok: "row_ok r"
  shows "db_ok (inserted r d)" and "row_at (inserted r d) = (row_at d)(rec_key r \<mapsto> r)"
proof -
  have k: "rec_key r \<notin> rec_key ` set (records d)" using n by (auto simp: row_at_def find_None_iff)
  have f: "rec_id r \<notin> rec_id ` set (records d)" using d i by (auto simp: db_ok_def list_all_iff)
  show ok': "db_ok (inserted r d)"
    using d k f ok i by (auto simp: db_ok_def list_all_iff inserted_def)
  show "row_at (inserted r d) = (row_at d)(rec_key r \<mapsto> r)"
  proof (rule ext, rule option_eqI)
    fix k' x
    show "row_at (inserted r d) k' = Some x \<longleftrightarrow> ((row_at d)(rec_key r \<mapsto> r)) k' = Some x"
      unfolding row_at_iff [OF ok'] using k
      by (cases "k' = rec_key r") (auto simp: row_at_iff [OF d] inserted_def image_iff)
  qed
qed

lemma inserted_history:
  assumes d: "db_ok d" and n: "row_at d (rec_key r) = None" and i: "rec_id r = uuid_supply d" and ok: "row_ok r"
  shows "history (inserted r d) k = history d k @ (if k = rec_key r then [(''created'', rec_payload r)] else [])"
proof (cases "k = rec_key r")
  case True
  have "record_id e < uuid_supply d" if "e \<in> set (change_events d)" for e
    using d that by (auto simp: db_ok_def list_all_iff)
  then have "filter (\<lambda>e. record_id e = uuid_supply d) (change_events d) = []" by (fastforce simp: filter_empty_conv)
  then show ?thesis using True n i inserted_ok(2) [OF assms] by (simp add: history_def inserted_def)
next
  case False
  show ?thesis
  proof (cases "row_at d k")
    case None
    then show ?thesis using False inserted_ok(2) [OF assms] by (simp add: history_def)
  next
    case (Some r')
    then have "r' \<in> set (records d)" using row_at_iff [OF d] by simp
    then have "rec_id r' \<noteq> rec_id r" using d i by (auto simp: db_ok_def list_all_iff)
    then have "filter (\<lambda>e. record_id e = rec_id r') (change_events (inserted r d)) =
        filter (\<lambda>e. record_id e = rec_id r') (change_events d)" by (auto simp: inserted_def)
    then show ?thesis using False Some inserted_ok(2) [OF assms] by (simp add: history_def)
  qed
qed

subsection \<open>Specification\<close>

text \<open>What a collection is, seen from outside: a table of business entries by source and external id.\<close>

record entry =
  e_payload :: "(string \<times> pyval) list"
  e_hash :: string
  e_active :: bool
  e_seen :: "datetime option"
  e_missing :: int

definition entry_of :: "Record \<Rightarrow> entry" where
  "entry_of r = \<lparr>e_payload = rec_payload r, e_hash = content_hash r, e_active = is_active r,
     e_seen = last_seen_at r, e_missing = missing_count r\<rparr>"

definition table :: "db \<Rightarrow> string \<times> string \<Rightarrow> entry option" where
  "table d k = map_option entry_of (row_at d k)"

definition fingerprint_of :: "CrawlItem \<Rightarrow> string" where
  "fingerprint_of i = (case fingerprint_business_data (PDict (item_data i)) of Inr h \<Rightarrow> h | Inl _ \<Rightarrow> [])"

definition entry_of_item :: "datetime \<Rightarrow> CrawlItem \<Rightarrow> entry" where
  "entry_of_item now i = \<lparr>e_payload = item_data i, e_hash = fingerprint_of i, e_active = True, e_seen = Some now, e_missing = 0\<rparr>"

definition missed :: "entry \<Rightarrow> entry" where
  "missed e = (if e_active e then e\<lparr>e_missing := e_missing e + 1, e_active := e_missing e + 1 < 3\<rparr> else e)"

text \<open>The table after a collection: the last item of each external id replaces the entry, entries of the
  source that were not observed age, and other sources do not change.\<close>

definition persisted :: "datetime \<Rightarrow> string \<Rightarrow> CrawlItem list \<Rightarrow> (string \<times> string \<Rightarrow> entry option) \<Rightarrow>
    string \<times> string \<Rightarrow> entry option" where
  "persisted now src its T k = (if fst k \<noteq> src then T k
     else case find (\<lambda>i. external_id i = snd k) (rev its) of
       Some i \<Rightarrow> Some (entry_of_item now i)
     | None \<Rightarrow> map_option missed (T k))"

text \<open>The notifications of one key: \<open>created\<close> for a new one, \<open>updated\<close> when the fingerprint differs from the
  stored one, \<open>inactive\<close> at the third absence.\<close>

fun item_events :: "datetime \<Rightarrow> entry option \<Rightarrow> CrawlItem list \<Rightarrow> (string \<times> (string \<times> pyval) list) list" where
  "item_events now prev [] = []"
| "item_events now prev (i # its) = (case prev of
       None \<Rightarrow> [(''created'', item_data i)]
     | Some e \<Rightarrow> if e_hash e \<noteq> fingerprint_of i then [(''updated'', item_data i)] else [])
     @ item_events now (Some (entry_of_item now i)) its"

definition missed_events :: "entry option \<Rightarrow> (string \<times> (string \<times> pyval) list) list" where
  "missed_events prev = (case prev of
       Some e \<Rightarrow> if e_active e \<and> 3 \<le> e_missing e + 1 then [(''inactive'', e_payload e)] else []
     | None \<Rightarrow> [])"

definition expected_events :: "datetime \<Rightarrow> string \<Rightarrow> CrawlItem list \<Rightarrow> (string \<times> string \<Rightarrow> entry option) \<Rightarrow>
    string \<times> string \<Rightarrow> (string \<times> (string \<times> pyval) list) list" where
  "expected_events now src its T k = (if fst k \<noteq> src then []
     else if snd k \<in> external_id ` set its then item_events now (T k) (filter (\<lambda>i. external_id i = snd k) its)
     else missed_events (T k))"

subsection \<open>The code refines the specification\<close>

lemma locks_frame [simp]:
  "row_at (d\<lparr>advisory_locks := ls\<rparr>) = row_at d" "history (d\<lparr>advisory_locks := ls\<rparr>) = history d"
  "table (d\<lparr>advisory_locks := ls\<rparr>) = table d" "db_ok (d\<lparr>advisory_locks := ls\<rparr>) = db_ok d"
  by (auto simp: fun_eq_iff row_at_def history_def table_def db_ok_def split: option.splits)

lemma statement_Inr [simp]: "statement refuses d = (Inr x, d') \<longleftrightarrow> refuses d = None \<and> d' = d"
  by (auto simp: statement_def split: option.splits)

lemma persist_item_cases:
  assumes "persist_item refuses now src i d = (Inr u, d')"
  obtains ls where "fingerprint_business_data (PDict (item_data i)) = Inr (fingerprint_of i)"
      "row_at d (src, external_id i) = None"
      "d' = inserted \<lparr>rec_id = uuid_supply d, rec_source_id = src, rec_external_id = external_id i,
         rec_payload = item_data i, content_hash = fingerprint_of i, is_active = True, last_seen_at = Some now,
         missing_count = 0\<rparr> (d\<lparr>advisory_locks := ls\<rparr>)"
    | ls r where "fingerprint_business_data (PDict (item_data i)) = Inr (fingerprint_of i)"
      "row_at d (src, external_id i) = Some r"
      "d' = touched (rec_id r) (\<lambda>x. seen now (item_data i) x\<lparr>content_hash := if content_hash r = fingerprint_of i then content_hash x else fingerprint_of i\<rparr>)
        (if content_hash r \<noteq> fingerprint_of i then [(''updated'', item_data i)] else []) (d\<lparr>advisory_locks := ls\<rparr>)"
proof -
  define ls where "ls = record_lock_key src (external_id i) # advisory_locks d"
  let ?d = "d\<lparr>advisory_locks := ls\<rparr>"
  obtain h where h: "fingerprint_business_data (PDict (item_data i)) = Inr h"
    using assms by (auto simp: persist_item_def lock_record_key_def thenP_eq_Inr bindP_liftR split: sum.splits)
  then have fp: "fingerprint_of i = h" by (simp add: fingerprint_of_def)
  have row: "find (\<lambda>r. rec_source_id r = src \<and> rec_external_id r = external_id i) (records d) = row_at d (src, external_id i)"
    by (simp add: row_at_def rec_key_def)
  show ?thesis
  proof (cases "row_at d (src, external_id i)")
    case None
    then have "d' = inserted \<lparr>rec_id = uuid_supply d, rec_source_id = src, rec_external_id = external_id i,
         rec_payload = item_data i, content_hash = h, is_active = True, last_seen_at = Some now,
         missing_count = 0\<rparr> ?d"
      using assms by (auto simp: persist_item_def lock_record_key_def thenP_eq_Inr bindP_eq_Inr h select_record_def
          row add_record_def event_def inserted_def ls_def)
    then show ?thesis using that(1) [of ls] None h fp by simp
  next
    case (Some r)
    have "d' = touched (rec_id r) (\<lambda>x. seen now (item_data i) x\<lparr>content_hash := if content_hash r = h then content_hash x else h\<rparr>)
        (if content_hash r \<noteq> h then [(''updated'', item_data i)] else []) ?d"
      using assms Some by (auto simp: persist_item_def lock_record_key_def thenP_eq_Inr bindP_eq_Inr h select_record_def
          row update_record_def event_def touched_def ls_def seen_def split: if_splits)
    then show ?thesis using that(2) [of r ls] Some h fp by simp
  qed
qed

lemma persist_item_step:
  assumes p: "persist_item refuses now src i d = (Inr u, d')" and d: "db_ok d"
  shows "db_ok d' \<and> table d' = (table d)((src, external_id i) \<mapsto> entry_of_item now i) \<and>
    (\<forall>k. history d' k = history d k @ (if k = (src, external_id i) then item_events now (table d k) [i] else [])) \<and>
    source_fetch_states d' = source_fetch_states d"
  using p
proof (cases rule: persist_item_cases)
  case (1 ls)
  let ?r = "\<lparr>rec_id = uuid_supply d, rec_source_id = src, rec_external_id = external_id i,
         rec_payload = item_data i, content_hash = fingerprint_of i, is_active = True, last_seen_at = Some now,
         missing_count = 0\<rparr>"
  let ?d = "d\<lparr>advisory_locks := ls\<rparr>"
  have a: "db_ok ?d" "row_at ?d (rec_key ?r) = None" "rec_id ?r = uuid_supply ?d" "row_ok ?r"
    using d 1 by (simp_all add: rec_key_def row_ok_def)
  have "table d' = (table d)((src, external_id i) \<mapsto> entry_of_item now i)"
    unfolding 1(3) by (auto simp: fun_eq_iff table_def inserted_ok(2) [OF a] rec_key_def entry_of_def entry_of_item_def)
  then show ?thesis
    using inserted_ok(1) [OF a] inserted_history [OF a] 1
    by (simp add: rec_key_def table_def inserted_def)
next
  case (2 ls r)
  define f where "f = (\<lambda>x. seen now (item_data i) x\<lparr>content_hash := if content_hash r = fingerprint_of i then content_hash x else fingerprint_of i\<rparr>)"
  define evs where "evs = (if content_hash r \<noteq> fingerprint_of i then [(''updated'', item_data i)] else [])"
  let ?d = "d\<lparr>advisory_locks := ls\<rparr>"
  have d': "d' = touched (rec_id r) f evs ?d" using 2(3) by (simp add: f_def evs_def)
  have a: "db_ok ?d" "row_at ?d (src, external_id i) = Some r" "rec_id (f r) = rec_id r" "rec_key (f r) = rec_key r" "row_ok (f r)"
    using d 2 by (auto simp: rec_key_def row_ok_def seen_def f_def)
  note t = touched_ok [where evs = evs and f = f, OF a] touched_history [where evs = evs and f = f, OF a]
  have "entry_of (f r) = entry_of_item now i"
    by (simp add: f_def seen_def entry_of_def entry_of_item_def)
  then have "table d' = (table d)((src, external_id i) \<mapsto> entry_of_item now i)"
    unfolding d' by (auto simp: fun_eq_iff table_def t(2))
  moreover have "evs = item_events now (table d (src, external_id i)) [i]"
    using 2(2) by (simp add: evs_def table_def entry_of_def)
  ultimately show ?thesis
    using t(1,3) unfolding d' by (auto simp del: item_events.simps)
qed

lemma persist_items_run:
  assumes "mapP (persist_item refuses now src) its d = (Inr us, d')" and "db_ok d"
  shows "db_ok d' \<and> source_fetch_states d' = source_fetch_states d \<and>
    table d' = (\<lambda>k. if fst k \<noteq> src then table d k else case find (\<lambda>i. external_id i = snd k) (rev its) of
       Some i \<Rightarrow> Some (entry_of_item now i) | None \<Rightarrow> table d k) \<and>
    (\<forall>k. history d' k = history d k @
       (if fst k = src then item_events now (table d k) (filter (\<lambda>i. external_id i = snd k) its) else []))"
  using assms
proof (induction its arbitrary: d us)
  case Nil
  then show ?case by (auto simp: ret_def)
next
  case (Cons i its)
  then obtain u d1 us' where p: "persist_item refuses now src i d = (Inr u, d1)"
    and m: "mapP (persist_item refuses now src) its d1 = (Inr us', d')"
    by (auto simp: bindP_eq_Inr)
  note st = persist_item_step [OF p Cons.prems(2)]
  note ih = Cons.IH [OF m conjunct1 [OF st]]
  have tb: "table d' k = (if fst k \<noteq> src then table d k else case find (\<lambda>i. external_id i = snd k) (rev (i # its)) of
       Some i \<Rightarrow> Some (entry_of_item now i) | None \<Rightarrow> table d k)" for k
    using ih st by (cases k) (auto simp: find_append split: option.splits)
  have "history d' k = history d k @
       (if fst k = src then item_events now (table d k) (filter (\<lambda>i. external_id i = snd k) (i # its)) else [])" for k
    using ih st by (cases k) auto
  then show ?case using ih st tb by auto
qed

lemma mark_missing_entry: "is_active r \<Longrightarrow> entry_of (mark_missing r) = missed (entry_of r)"
  by (auto simp: mark_missing_def entry_of_def missed_def)

text \<open>Reconciliation of selected rows, with distinct keys, that the loop has not touched.\<close>

lemma reconcile_run:
  assumes "mapP (reconcile_record obs) rs d = (Inr us, d')" and "db_ok d" and "distinct (map rec_key rs)"
    and "list_all (\<lambda>r. row_at d (rec_key r) = Some r \<and> is_active r) rs"
  shows "db_ok d' \<and> source_fetch_states d' = source_fetch_states d \<and>
    table d' = (\<lambda>k. if k \<in> rec_key ` set rs \<and> snd k \<notin> obs then map_option missed (table d k) else table d k) \<and>
    (\<forall>k. history d' k = history d k @ (if k \<in> rec_key ` set rs \<and> snd k \<notin> obs then missed_events (table d k) else []))"
  using assms
proof (induction rs arbitrary: d us)
  case Nil
  then show ?case by (auto simp: ret_def)
next
  case (Cons r rs)
  then obtain u us' d1 where p: "reconcile_record obs r d = (Inr u, d1)"
    and m: "mapP (reconcile_record obs) rs d1 = (Inr us', d')"
    by (auto simp: bindP_eq_Inr)
  have r: "row_at d (rec_key r) = Some r" "is_active r" using Cons.prems by simp_all
  have ok: "row_ok r" using Cons.prems(2) r by (auto simp: db_ok_def list_all_iff row_at_iff)
  define evs where "evs = missed_events (Some (entry_of r))"
  define skip where "skip \<longleftrightarrow> rec_external_id r \<in> obs"
  have step: "db_ok d1 \<and> source_fetch_states d1 = source_fetch_states d \<and>
      row_at d1 = (if skip then row_at d else (row_at d)(rec_key r \<mapsto> mark_missing r)) \<and>
      (\<forall>k. history d1 k = history d k @ (if \<not> skip \<and> k = rec_key r then evs else []))"
  proof (cases skip)
    case True
    then show ?thesis using p Cons.prems(2) by (simp add: reconcile_record_def ret_def skip_def)
  next
    case False
    have "d1 = touched (rec_id r) mark_missing evs d"
      using p False r(2) by (auto simp: reconcile_record_def skip_def thenP_eq_Inr update_record_def event_def touched_def
          evs_def missed_events_def entry_of_def ret_def split: if_splits)
    moreover have "rec_id (mark_missing r) = rec_id r" "rec_key (mark_missing r) = rec_key r" "row_ok (mark_missing r)"
      using ok r(2) by (auto simp: mark_missing_def rec_key_def row_ok_def)
    ultimately show ?thesis
      using False touched_ok [where f = mark_missing and evs = evs, OF Cons.prems(2) r(1)]
        touched_history [where f = mark_missing and evs = evs, OF Cons.prems(2) r(1)] by simp
  qed
  have new: "rec_key r \<notin> rec_key ` set rs" using Cons.prems(3) by simp
  have rest: "list_all (\<lambda>r. row_at d1 (rec_key r) = Some r \<and> is_active r) rs"
    using Cons.prems(4) new step by (auto simp: list_all_iff image_iff)
  note ih = Cons.IH [OF m conjunct1 [OF step] _ rest]
  have t1: "table d1 k = (if \<not> skip \<and> k = rec_key r then map_option missed (table d k) else table d k)" for k
    using step r mark_missing_entry [OF r(2)] by (auto simp: table_def)
  have sk: "skip \<longleftrightarrow> snd (rec_key r) \<in> obs" by (simp add: skip_def rec_key_def)
  have ev: "evs = missed_events (table d (rec_key r))" using r by (simp add: evs_def table_def)
  have "table d' k = (if k \<in> rec_key ` set (r # rs) \<and> snd k \<notin> obs then map_option missed (table d k) else table d k)" for k
    using ih Cons.prems(3) t1 [of k] new sk by (cases "k = rec_key r") auto
  moreover have "history d' k = history d k @
      (if k \<in> rec_key ` set (r # rs) \<and> snd k \<notin> obs then missed_events (table d k) else [])" for k
  proof -
    have "history d1 k = history d k @ (if \<not> skip \<and> k = rec_key r then evs else [])" using step by blast
    moreover have "history d' k = history d1 k @
        (if k \<in> rec_key ` set rs \<and> snd k \<notin> obs then missed_events (table d1 k) else [])"
      using ih Cons.prems(3) by (simp del: split_paired_All)
    ultimately show ?thesis using t1 [of k] new sk ev by (cases "k = rec_key r") auto
  qed
  ultimately show ?case using ih step Cons.prems(3) by (auto simp del: split_paired_All)
qed

text \<open>The validators of a source's last response.\<close>

definition fetch_state_at :: "db \<Rightarrow> string \<Rightarrow> SourceFetchState option" where
  "fetch_state_at d s = find (\<lambda>f. state_source_id f = s) (source_fetch_states d)"

definition fetch_state_of :: "string \<Rightarrow> AdapterResult \<Rightarrow> datetime \<Rightarrow> SourceFetchState" where
  "fetch_state_of src res now = \<lparr>state_source_id = src, state_etag = etag (response res),
     state_last_modified = last_modified (response res), state_raw_response_hash = Some (raw_response_hash res),
     state_updated_at = Some now\<rparr>"

lemma find_map_same: "(\<And>x. x \<in> set xs \<Longrightarrow> P (f x) = P x) \<Longrightarrow> find P (map f xs) = map_option f (find P xs)"
  by (induction xs) auto

lemma update_fetch_state_run:
  assumes "update_fetch_state refuses src res now d = (Inr u, d')"
  shows "fetch_state_at d' = (fetch_state_at d)(src \<mapsto> fetch_state_of src res now)"
    and "records d' = records d" and "change_events d' = change_events d" and "uuid_supply d' = uuid_supply d"
proof -
  let ?row = "fetch_state_of src res now"
  have d': "d' = d\<lparr>source_fetch_states := (if fetch_state_at d src = None then source_fetch_states d @ [?row]
      else map (\<lambda>s. if state_source_id s = src then ?row else s) (source_fetch_states d))\<rparr>"
    using assms by (auto simp: update_fetch_state_def thenP_eq_Inr Let_def fetch_state_of_def fetch_state_at_def)
  then show "records d' = records d" and "change_events d' = change_events d" and "uuid_supply d' = uuid_supply d"
    by simp_all
  have row: "state_source_id ?row = src" by (simp add: fetch_state_of_def)
  have "fetch_state_at d' s = ((fetch_state_at d)(src \<mapsto> ?row)) s" for s
  proof (cases "fetch_state_at d src")
    case None
    then show ?thesis using row unfolding d' by (auto simp: fetch_state_at_def find_append split: option.splits)
  next
    case (Some x)
    have "fetch_state_at d' s = map_option (\<lambda>s. if state_source_id s = src then ?row else s) (fetch_state_at d s)"
      using Some row unfolding d' by (auto simp: fetch_state_at_def intro!: find_map_same)
    moreover have "state_source_id y = s" if "fetch_state_at d s = Some y" for y
      using that by (auto simp: fetch_state_at_def find_Some_iff)
    ultimately show ?thesis using Some by (cases "fetch_state_at d s") auto
  qed
  then show "fetch_state_at d' = (fetch_state_at d)(src \<mapsto> ?row)" by auto
qed

text \<open>One completed collection.\<close>

text \<open>The reconciliation of a source, seen from the table and the notifications.\<close>

lemma reconcile_source_run:
  assumes r: "mapP (reconcile_record obs) (filter (\<lambda>r. rec_source_id r = src \<and> is_active r) (records d)) d = (Inr vs, d')"
    and d: "db_ok d"
  shows "db_ok d'" and "source_fetch_states d' = source_fetch_states d"
    and "table d' k = (if fst k = src \<and> (\<exists>e. table d k = Some e \<and> e_active e) \<and> snd k \<notin> obs
      then map_option missed (table d k) else table d k)"
    and "history d' k = history d k @ (if fst k = src \<and> (\<exists>e. table d k = Some e \<and> e_active e) \<and> snd k \<notin> obs
      then missed_events (table d k) else [])"
proof -
  let ?rs = "filter (\<lambda>r. rec_source_id r = src \<and> is_active r) (records d)"
  have "distinct (map rec_key ?rs)" using d distinct_map_filter by (auto simp: db_ok_def)
  moreover have "list_all (\<lambda>r. row_at d (rec_key r) = Some r \<and> is_active r) ?rs"
    using row_at_iff [OF d] by (auto simp: list_all_iff)
  ultimately have r1: "db_ok d' \<and> source_fetch_states d' = source_fetch_states d \<and>
    table d' = (\<lambda>k. if k \<in> rec_key ` set ?rs \<and> snd k \<notin> obs then map_option missed (table d k) else table d k) \<and>
    (\<forall>k. history d' k = history d k @ (if k \<in> rec_key ` set ?rs \<and> snd k \<notin> obs then missed_events (table d k) else []))"
    using reconcile_run [OF r d] by blast
  have sel: "k \<in> rec_key ` set ?rs \<longleftrightarrow> fst k = src \<and> (\<exists>e. table d k = Some e \<and> e_active e)" for k
    using row_at_iff [OF d, of k] by (auto simp: table_def entry_of_def rec_key_def image_iff)
  show "db_ok d'" "source_fetch_states d' = source_fetch_states d" using r1 by blast+
  show "table d' k = (if fst k = src \<and> (\<exists>e. table d k = Some e \<and> e_active e) \<and> snd k \<notin> obs
      then map_option missed (table d k) else table d k)"
    using r1 unfolding sel by simp
  show "history d' k = history d k @ (if fst k = src \<and> (\<exists>e. table d k = Some e \<and> e_active e) \<and> snd k \<notin> obs
      then missed_events (table d k) else [])"
    using r1 unfolding sel by (simp del: split_paired_All)
qed

lemma persist_run:
  assumes p: "persist_collection refuses now src res d = (Inr u, d')" and d: "db_ok d"
  shows "db_ok d'" and "table d' = persisted now src (result_items res) (table d)"
    and "history d' k = history d k @ expected_events now src (result_items res) (table d) k"
    and "fetch_state_at d' = (fetch_state_at d)(src \<mapsto> fetch_state_of src res now)"
proof -
  let ?its = "result_items res" and ?obs = "set (map external_id (result_items res))"
  from p obtain us d1 u2 d2 vs where m: "mapP (persist_item refuses now src) ?its d = (Inr us, d1)"
    and f: "update_fetch_state refuses src res now d1 = (Inr u2, d2)"
    and r: "mapP (reconcile_record ?obs) (filter (\<lambda>r. rec_source_id r = src \<and> is_active r) (records d2)) d2 = (Inr vs, d')"
    by (auto simp: persist_collection_def reconcile_missing_def thenP_eq_Inr bindP_eq_Inr)
  note fs = update_fetch_state_run [OF f] and m1 = persist_items_run [OF m d]
  have ra: "row_at d2 = row_at d1" using fs by (simp add: row_at_def fun_eq_iff)
  have ok2: "db_ok d2" using m1 fs by (simp add: db_ok_def)
  have t2: "table d2 = table d1" using ra by (simp add: table_def fun_eq_iff)
  have h2: "history d2 = history d1" by (rule ext) (simp add: history_def ra fs(3) split: option.split)
  note r1 = reconcile_source_run [OF r ok2]
  have none: "find (\<lambda>i. external_id i = snd k) (rev ?its) = None \<longleftrightarrow> snd k \<notin> ?obs" for k :: "string \<times> string"
    by (auto simp: find_None_iff image_iff)
  have t1: "table d2 k = (if fst k \<noteq> src then table d k else case find (\<lambda>i. external_id i = snd k) (rev ?its) of
       Some i \<Rightarrow> Some (entry_of_item now i) | None \<Rightarrow> table d k)" for k
    using m1 t2 by simp
  have h1: "history d2 k = history d k @
      (if fst k = src then item_events now (table d k) (filter (\<lambda>i. external_id i = snd k) ?its) else [])"
    using m1 h2 by (simp del: split_paired_All)
  have n: "find (\<lambda>i. external_id i = snd k) (rev ?its) = None" "filter (\<lambda>i. external_id i = snd k) ?its = []"
    if "snd k \<notin> ?obs" for k :: "string \<times> string"
    using none [of k] that by (auto simp: filter_empty_conv image_iff)
  have "table d' k = persisted now src ?its (table d) k" for k
    using r1(3) [of k] t1 [of k] none [of k]
    by (cases "table d k") (auto simp: persisted_def missed_def split: option.splits)
  then show "table d' = persisted now src ?its (table d)" by (rule ext)
  show "history d' k = history d k @ expected_events now src ?its (table d) k"
  proof (cases "fst k = src \<and> snd k \<notin> ?obs")
    case True
    then show ?thesis using h1 r1(4) [of k] t1 [of k] n [of k]
      by (cases "table d k") (auto simp: expected_events_def missed_events_def)
  next
    case False
    then show ?thesis using h1 r1(4) [of k] by (auto simp: expected_events_def)
  qed
  show "db_ok d'" by (rule r1(1))
  have "fetch_state_at d1 = fetch_state_at d" using m1 by (simp add: fetch_state_at_def fun_eq_iff)
  moreover have "fetch_state_at d' = fetch_state_at d2" using r1(2) by (simp add: fetch_state_at_def fun_eq_iff)
  ultimately show "fetch_state_at d' = (fetch_state_at d)(src \<mapsto> fetch_state_of src res now)" using fs(1) by simp
qed

subsection \<open>Transactions\<close>

abbreviation collect :: "(db \<Rightarrow> exn option) \<Rightarrow> datetime \<Rightarrow> string \<Rightarrow> AdapterResult \<Rightarrow> (db, unit) py" where
  "collect refuses now src res \<equiv> in_transaction refuses (persist_collection refuses now src res)"

lemma in_transaction_Inl: "in_transaction refuses m d = (Inl e, d') \<Longrightarrow> d' = d"
  by (auto simp: in_transaction_def split: prod.splits sum.splits)

lemma collect_Inr:
  assumes "collect refuses now src res d = (Inr u, d')"
  obtains d1 where "persist_collection refuses now src res d = (Inr u, d1)" "d' = d1\<lparr>advisory_locks := advisory_locks d\<rparr>"
  using assms by (auto simp: in_transaction_def thenP_eq_Inr bindP_eq_Inr split: prod.splits sum.splits)

lemma fetch_state_locks [simp]: "fetch_state_at (d\<lparr>advisory_locks := ls\<rparr>) = fetch_state_at d"
  by (simp add: fetch_state_at_def fun_eq_iff)

lemma collect_run:
  assumes "collect refuses now src res d = (Inr u, d')" and "db_ok d"
  shows "db_ok d'" and "table d' = persisted now src (result_items res) (table d)"
    and "history d' k = history d k @ expected_events now src (result_items res) (table d) k"
    and "fetch_state_at d' = (fetch_state_at d)(src \<mapsto> fetch_state_of src res now)"
  using assms(1)
  by (elim collect_Inr, simp add: persist_run [OF _ assms(2)])+

text \<open>A history of collections, of any sources, some of which the database refuses.\<close>

record collection =
  c_refuses :: "db \<Rightarrow> exn option"
  c_now :: datetime
  c_source :: string
  c_result :: AdapterResult

definition run_collection :: "collection \<Rightarrow> (db, unit) py" where
  "run_collection c = collect (c_refuses c) (c_now c) (c_source c) (c_result c)"

primrec run_collections :: "collection list \<Rightarrow> db \<Rightarrow> db" where
  "run_collections [] d = d"
| "run_collections (c # cs) d = run_collections cs (snd (run_collection c d))"

text \<open>The completed collections of a source in such a history.\<close>

primrec completed :: "string \<Rightarrow> collection list \<Rightarrow> db \<Rightarrow> nat" where
  "completed src [] d = 0"
| "completed src (c # cs) d = (case run_collection c d of
      (Inr _, d') \<Rightarrow> (if c_source c = src then 1 else 0) + completed src cs d'
    | (Inl _, d') \<Rightarrow> completed src cs d')"

definition aged :: "nat \<Rightarrow> entry \<Rightarrow> entry" where
  "aged n e = e\<lparr>e_missing := int (min n 3), e_active := n < 3\<rparr>"

lemma missed_aged: "missed (aged n e) = aged (Suc n) e"
  by (auto simp: missed_def aged_def min_def)

lemma absent_persisted:
  assumes "e \<notin> external_id ` set its"
  shows "persisted now src its T (src, e) = map_option missed (T (src, e))"
    and "expected_events now src its T (src, e) = missed_events (T (src, e))"
proof -
  have "find (\<lambda>i. external_id i = e) (rev its) = None" using assms by (auto simp: find_None_iff)
  then show "persisted now src its T (src, e) = map_option missed (T (src, e))" by (simp add: persisted_def)
  show "expected_events now src its T (src, e) = missed_events (T (src, e))"
    using assms by (simp add: expected_events_def)
qed

lemma absences_run:
  assumes "db_ok d" and "table d (src, e) = Some (aged m x)"
    and "list_all (\<lambda>c. c_source c = src \<longrightarrow> e \<notin> external_id ` set (result_items (c_result c))) cs"
  shows "table (run_collections cs d) (src, e) = Some (aged (m + completed src cs d) x) \<and>
    history (run_collections cs d) (src, e) = history d (src, e) @
      (if m < 3 \<and> 3 \<le> m + completed src cs d then [(''inactive'', e_payload x)] else [])"
  using assms
proof (induction cs arbitrary: d m)
  case (Cons c cs)
  show ?case
  proof (cases "run_collection c d")
    case (Pair r d')
    show ?thesis
    proof (cases r)
      case (Inl e')
      then have "d' = d" using Pair in_transaction_Inl unfolding run_collection_def by metis
      then show ?thesis using Cons Pair Inl by simp
    next
      case (Inr u)
      note c = Pair [unfolded run_collection_def Inr]
      note st = collect_run [OF c Cons.prems(1)]
      show ?thesis
      proof (cases "c_source c = src")
        case False
        then have "table d' (src, e) = Some (aged m x)" "history d' (src, e) = history d (src, e)"
          using st(2,3) Cons.prems(2) by (simp_all add: persisted_def expected_events_def)
        then show ?thesis using Cons.IH [OF st(1), of m] Cons.prems(3) Pair Inr False by simp
      next
        case True
        have "e \<notin> external_id ` set (result_items (c_result c))" using Cons.prems(3) True by simp
        then have "table d' (src, e) = Some (aged (Suc m) x)"
            "history d' (src, e) = history d (src, e) @ missed_events (Some (aged m x))"
          using st(2,3) Cons.prems(2) True absent_persisted [of e] by (simp_all add: missed_aged)
        moreover have "missed_events (Some (aged m x)) = (if m = 2 then [(''inactive'', e_payload x)] else [])"
          by (auto simp: missed_events_def aged_def)
        ultimately show ?thesis using Cons.IH [OF st(1), of "Suc m"] Cons.prems(3) Pair Inr True by auto
      qed
    qed
  qed
qed simp

lemma distinct_singleton_list: "distinct xs \<Longrightarrow> set xs = {x} \<Longrightarrow> xs = [x]"
  by (cases xs; cases "tl xs") auto

subsection \<open>The properties\<close>

text \<open>
  C5: a completed collection changes exactly what it says. In the table of entries, the last item of each
  external id replaces the entry, entries of the source that were not delivered age by one absence, and
  the entries of every other source are untouched; the response validators of the source are replaced.
\<close>

theorem collection_refines_table:
  assumes "in_transaction refuses (persist_collection refuses now src res) d = (Inr u, d')" and "db_ok d"
  shows "table d' = persisted now src (result_items res) (table d) \<and>
    fetch_state_at d' = (fetch_state_at d)(src \<mapsto> fetch_state_of src res now)"
  using collect_run [OF assms] by blast

text \<open>
  C6: the change notifications are the changes. The history of every record grows by exactly the expected
  events: \<open>created\<close> for a new record, \<open>updated\<close> when the business fingerprint differs from the stored one,
  \<open>inactive\<close> at the third absence, and nothing for records of other sources or unchanged data.
\<close>

theorem change_events_are_the_changes:
  assumes "in_transaction refuses (persist_collection refuses now src res) d = (Inr u, d')" and "db_ok d"
  shows "history d' k = history d k @ expected_events now src (result_items res) (table d) k"
  using collect_run(3) [OF assms] .

text \<open>
  C7: the tables stay well-formed, whatever the database answers: one row per source and external id,
  unique keys, every event of an existing row, and in every row the hash is the fingerprint of the payload
  and the record is active exactly while it has fewer than three absences.
\<close>

theorem collection_keeps_tables_wellformed:
  assumes "db_ok d"
  shows "db_ok (snd (in_transaction refuses (persist_collection refuses now src res) d))"
proof (cases "collect refuses now src res d")
  case (Pair r d')
  then show ?thesis using assms in_transaction_Inl collect_run(1) [OF _ assms] by (cases r) fastforce+
qed

text \<open>
  C8: a record becomes inactive at the third completed collection of its source that lacks it, and is
  reported inactive once. Failed collections and those of other sources do not count.
\<close>

theorem inactive_after_three_absences:
  assumes "db_ok d" and "table d (src, e) = Some x" and "e_active x" and "e_missing x = 0"
    and "list_all (\<lambda>c. c_source c = src \<longrightarrow> e \<notin> external_id ` set (result_items (c_result c))) cs"
  shows "(\<exists>y. table (run_collections cs d) (src, e) = Some y \<and> (e_active y \<longleftrightarrow> completed src cs d < 3)) \<and>
    history (run_collections cs d) (src, e) = history d (src, e) @
      (if 3 \<le> completed src cs d then [(''inactive'', e_payload x)] else [])"
proof -
  have "aged 0 x = x" using assms(3,4) by (simp add: aged_def)
  then show ?thesis using absences_run [of d src e 0 x cs] assms(1,2,5) by (auto simp: aged_def)
qed

text \<open>
  delivery is idempotent. A result that is delivered again, whose external ids are distinct, adds no
  notification for the records it contains, and leaves their business data and activity as they were.
\<close>

theorem redelivery_is_silent:
  assumes "in_transaction refuses (persist_collection refuses now src res) d = (Inr u, d1)" and "db_ok d"
    and "in_transaction refuses' (persist_collection refuses' now' src res) d1 = (Inr v, d2)"
    and "distinct (map external_id (result_items res))" and "i \<in> set (result_items res)"
  shows "history d2 (src, external_id i) = history d1 (src, external_id i) \<and>
    table d1 (src, external_id i) = Some (entry_of_item now i) \<and> table d2 (src, external_id i) = Some (entry_of_item now' i)"
proof -
  let ?its = "result_items res" and ?k = "(src, external_id i)"
  have eq: "j = i" if "j \<in> set ?its" "external_id j = external_id i" for j
    using distinct_map_eq [OF assms(4), of j i] assms(5) that by simp
  have "find (\<lambda>j. external_id j = external_id i) (rev ?its) = Some i"
  proof (cases "find (\<lambda>j. external_id j = external_id i) (rev ?its)")
    case None
    then show ?thesis using assms(5) by (auto simp: find_None_iff)
  next
    case (Some j)
    then have "j \<in> set ?its" "external_id j = external_id i"
      using nth_mem [of _ "rev ?its"] by (auto simp: find_Some_iff)
    then show ?thesis using Some eq by simp
  qed
  then have p: "persisted t src ?its T ?k = Some (entry_of_item t i)" for t T by (simp add: persisted_def)
  have "set (filter (\<lambda>j. external_id j = external_id i) ?its) = {i}" using assms(5) eq by auto
  moreover have "distinct (filter (\<lambda>j. external_id j = external_id i) ?its)"
    using assms(4) by (simp add: distinct_map)
  ultimately have f: "filter (\<lambda>j. external_id j = external_id i) ?its = [i]"
    by (metis distinct_singleton_list)
  note c1 = collect_run [OF assms(1,2)]
  note c2 = collect_run [OF assms(3) c1(1)]
  have "table d1 ?k = Some (entry_of_item now i)" using c1(2) p by simp
  moreover have "expected_events now' src ?its (table d1) ?k = []"
    using calculation assms(5) f by (simp add: expected_events_def entry_of_item_def)
  ultimately show ?thesis using c2(2) c2(3) [of ?k] p by simp
qed

subsection \<open>Completion\<close>

lemma persist_item_total:
  assumes "json_compatible (PDict (item_data i))"
  shows "\<exists>u d'. persist_item (\<lambda>_. None) now src i d = (Inr u, d')"
proof -
  have st: "statement (\<lambda>_. None) = ret ()" by (simp add: fun_eq_iff statement_def)
  obtain h where "fingerprint_business_data (PDict (item_data i)) = Inr h" using assms fingerprint_total by auto
  then show ?thesis
    by (auto simp: persist_item_def lock_record_key_def select_record_def add_record_def event_def update_record_def
        st thenP_def bindP_def split: option.split)
qed

lemma reconcile_record_total: "\<exists>u d'. reconcile_record obs r d = (Inr u, d')"
  by (auto simp: reconcile_record_def update_record_def event_def thenP_def bindP_def)

lemma collection_completes_helper:
  assumes "list_all (\<lambda>i. json_compatible (PDict (item_data i))) (result_items res)"
  shows "\<exists>d'. in_transaction (\<lambda>_. None) (persist_collection (\<lambda>_. None) now src res) d = (Inr (), d')"
proof -
  have st: "statement (\<lambda>_. None) = ret ()" by (simp add: fun_eq_iff statement_def)
  obtain us d1 where m: "mapP (persist_item (\<lambda>_. None) now src) (result_items res) d = (Inr us, d1)"
    using mapP_total [of "result_items res" "persist_item (\<lambda>_. None) now src" d] persist_item_total assms
    by (auto simp: list_all_iff)
  obtain u d2 where f: "update_fetch_state (\<lambda>_. None) src res now d1 = (Inr u, d2)"
    by (simp add: update_fetch_state_def st thenP_def bindP_def Let_def)
  obtain vs d3 where r: "reconcile_missing (\<lambda>_. None) src (set (map external_id (result_items res))) d2 = (Inr vs, d3)"
    using mapP_total [of "filter (\<lambda>r. rec_source_id r = src \<and> is_active r) (records d2)"
        "reconcile_record (set (map external_id (result_items res)))" d2] reconcile_record_total
    by (auto simp: reconcile_missing_def st thenP_def bindP_def)
  show ?thesis using m f r by (simp add: in_transaction_def persist_collection_def st)
qed

text \<open>
  A collection of JSON items completes. When the database refuses no statement, \<open>persist_collection\<close>
  returns, with the transaction committed; nothing else in it raises.
\<close>

theorem collection_completes:
  assumes "list_all (\<lambda>i. json_compatible (PDict (item_data i))) (result_items res)"
  shows "\<exists>d'. in_transaction (\<lambda>_. None) (persist_collection (\<lambda>_. None) now src res) d = (Inr (), d')"
  using collection_completes_helper [OF assms] .

definition db0 :: db where
  "db0 = \<lparr>records = [], change_events = [], source_fetch_states = [], advisory_locks = [], uuid_supply = 0\<rparr>"

lemma db0_ok: "db_ok db0" and db0_empty: "table db0 k = None" "history db0 k = []"
  by (simp_all add: db_ok_def db0_def table_def row_at_def history_def)

definition result_of :: "string list \<Rightarrow> AdapterResult" where
  "result_of ids = \<lparr>response = \<lparr>body = [], etag = None, last_modified = None\<rparr>,
     result_items = map (\<lambda>e. \<lparr>external_id = e, item_data = []\<rparr>) ids, raw_response_hash = []\<rparr>"

lemma result_of_ids [simp]: "list_all (\<lambda>i. json_compatible (PDict (item_data i))) (result_items (result_of ids))"
  "map external_id (result_items (result_of ids)) = ids"
  by (auto simp: result_of_def list_all_iff o_def)

theorem collection_completes_witness:
  "\<exists>d'. in_transaction (\<lambda>_. None) (persist_collection (\<lambda>_. None) (naive 0) ''s'' (result_of [''a''])) db0 = (Inr (), d')"
  by (rule collection_completes) (rule result_of_ids)

subsection \<open>Witnesses\<close>

abbreviation run0 :: "string list \<Rightarrow> (db, unit) py" where
  "run0 ids \<equiv> in_transaction (\<lambda>_. None) (persist_collection (\<lambda>_. None) (naive 0) ''s'' (result_of ids))"

lemma run0_total: obtains d' where "run0 ids d = (Inr (), d')"
  using collection_completes_helper [OF result_of_ids(1)] by blast

lemma table_of_result: "persisted (naive 0) ''s'' (result_items (result_of [''a''])) T (''s'', ''a'') =
    Some (entry_of_item (naive 0) \<lparr>external_id = ''a'', item_data = []\<rparr>)"
  by (simp add: persisted_def result_of_def)

theorem collection_refines_table_witness:
  "\<exists>d'. run0 [''a''] db0 = (Inr (), d') \<and> (\<exists>e. table d' (''s'', ''a'') = Some e \<and> e_active e)"
proof -
  obtain d' where r: "run0 [''a''] db0 = (Inr (), d')" by (rule run0_total)
  show ?thesis using r collection_refines_table [OF r db0_ok] by (simp add: table_of_result entry_of_item_def)
qed

theorem change_events_are_the_changes_witness:
  "\<exists>d'. run0 [''a''] db0 = (Inr (), d') \<and> history d' (''s'', ''a'') = [(''created'', [])]"
proof -
  obtain d' where r: "run0 [''a''] db0 = (Inr (), d')" by (rule run0_total)
  show ?thesis using r change_events_are_the_changes [OF r db0_ok, of "(''s'', ''a'')"]
    by (simp add: db0_empty expected_events_def result_of_def)
qed

theorem collection_keeps_tables_wellformed_witness: "db_ok (snd (run0 [''a''] db0))"
  by (rule collection_keeps_tables_wellformed) (rule db0_ok)

theorem inactive_after_three_absences_witness:
  "\<exists>d c. (\<exists>y. table (run_collections [c, c, c] d) (''s'', ''a'') = Some y \<and> \<not> e_active y) \<and>
     history (run_collections [c, c, c] d) (''s'', ''a'') = [(''created'', []), (''inactive'', [])]"
proof -
  let ?k = "(''s'', ''a'')"
  define c where "c = \<lparr>c_refuses = \<lambda>_. None, c_now = naive 0, c_source = ''s'', c_result = result_of []\<rparr>"
  have c: "run_collection c = run0 []" by (simp add: c_def run_collection_def)
  obtain d where r: "run0 [''a''] db0 = (Inr (), d)" by (rule run0_total)
  note d = collect_run [OF r db0_ok]
  obtain d1 where 1: "run0 [] d = (Inr (), d1)" by (rule run0_total)
  obtain d2 where 2: "run0 [] d1 = (Inr (), d2)" by (rule run0_total)
  obtain d3 where 3: "run0 [] d2 = (Inr (), d3)" by (rule run0_total)
  have n: "completed ''s'' [c, c, c] d = 3" using 1 2 3 by (simp add: c) (simp add: c_def)
  have t: "table d ?k = Some (entry_of_item (naive 0) \<lparr>external_id = ''a'', item_data = []\<rparr>)"
    using d(2) by (simp add: table_of_result)
  have h: "history d ?k = [(''created'', [])]"
    using d(3) [of ?k] by (simp add: db0_empty expected_events_def result_of_def)
  have "(\<exists>y. table (run_collections [c, c, c] d) ?k = Some y \<and> (e_active y \<longleftrightarrow> completed ''s'' [c, c, c] d < 3)) \<and>
    history (run_collections [c, c, c] d) ?k = history d ?k @ (if 3 \<le> completed ''s'' [c, c, c] d then [(''inactive'', [])] else [])"
    using inactive_after_three_absences [OF d(1) t, of "[c, c, c]"] by (simp add: entry_of_item_def c_def result_of_def)
  then show ?thesis unfolding n h by (intro exI [of _ d] exI [of _ c]) simp
qed

theorem redelivery_is_silent_witness:
  "\<exists>d1 d2. run0 [''a''] db0 = (Inr (), d1) \<and> run0 [''a''] d1 = (Inr (), d2) \<and>
     history d2 (''s'', ''a'') = history d1 (''s'', ''a'')"
proof -
  obtain d1 where 1: "run0 [''a''] db0 = (Inr (), d1)" by (rule run0_total)
  obtain d2 where 2: "run0 [''a''] d1 = (Inr (), d2)" by (rule run0_total)
  have "history d2 (''s'', external_id \<lparr>external_id = ''a'', item_data = []\<rparr>) =
      history d1 (''s'', external_id \<lparr>external_id = ''a'', item_data = []\<rparr>)"
    using redelivery_is_silent [OF 1 db0_ok 2, of "\<lparr>external_id = ''a'', item_data = []\<rparr>"]
    by (simp add: result_of_def)
  then show ?thesis using 1 2 by auto
qed

end
