(* ===== verification/FailureSnapshots.thy ===== *)
theory FailureSnapshots
  imports Observability Hashing Files
begin

section \<open>Failure snapshots (\<open>failure_snapshots.py\<close>)\<close>

text \<open>
  The writer of redacted response snapshots and the cleanup of expired ones, over the file system
  interface of \<open>Files\<close>. The lemmas: a snapshot changes one file, directly below the validated root and
  within the size limit, and its text holds only allowed headers and a redacted body; the cleanup deletes
  exactly the expired files below the root, and what it reports is their number.
\<close>

definition header_allowlist :: "string list" where
  "header_allowlist = [''content-type'', ''etag'', ''last-modified'']"

record SnapshotRequest =
  snap_source_id :: string
  snap_crawl_run_id :: string
  snap_headers :: "(string \<times> string) list"
  snap_body :: pyval

record FailureSnapshotWriter =
  fw_root :: fpath
  fw_max_bytes :: int

record CrawlRun =
  snapshot_path :: "string option"

definition external_root :: "path_ops \<Rightarrow> string \<Rightarrow> string \<Rightarrow> fpath result" where
  "external_root paths base repository_root =
     (if \<not> is_absolute paths base then Inl (SnapshotConfigurationError ''snapshot root must be an absolute path'')
      else if is_relative_to (resolve paths base) (resolve paths repository_root)
      then Inl (SnapshotConfigurationError ''snapshot root must be outside the repository root'')
      else Inr (resolve paths base))"

definition FailureSnapshotWriter :: "'s file_ops \<Rightarrow> path_ops \<Rightarrow> string \<Rightarrow> string \<Rightarrow> int \<Rightarrow>
    ('s, FailureSnapshotWriter) py" where
  "FailureSnapshotWriter ops paths base repository_root max_size =
     (if max_size \<le> 0 then raise (SnapshotConfigurationError ''max_bytes must be positive'')
      else bindP (liftR (external_root paths base repository_root)) (\<lambda>r.
        thenP (f_mkdir ops r) (ret \<lparr>fw_root = r, fw_max_bytes = max_size\<rparr>)))"

definition snapshot_payload :: "(string \<Rightarrow> bool) \<Rightarrow> SnapshotRequest \<Rightarrow> pyval result" where
  "snapshot_payload bracket_ok req = bindR (redact_value bracket_ok None (snap_body req)) (\<lambda>b.
     Inr (PDict [(''headers'', PDict (map (\<lambda>(k, v). (k, PStr v))
        (filter (\<lambda>(k, v). lower k \<in> set header_allowlist) (snap_headers req)))), (''body'', b)]))"

definition snapshot_name :: "SnapshotRequest \<Rightarrow> string" where
  "snapshot_name req = snap_source_id req @ ''_'' @ snap_crawl_run_id req @ ''_response.json''"

definition snapshot_write :: "'s file_ops \<Rightarrow> (string \<Rightarrow> bool) \<Rightarrow> FailureSnapshotWriter \<Rightarrow> SnapshotRequest \<Rightarrow>
    ('s, fpath) py" where
  "snapshot_write ops bracket_ok w req =
     (if \<not> source_id_match (snap_source_id req) then raise (ValueError ''source_id must match [a-z0-9_-]+'')
      else bindP (liftR (snapshot_payload bracket_ok req)) (\<lambda>p.
        bindP (liftR (dumps sorted_style p)) (\<lambda>t.
        let encoded = utf8 t; target = fw_root w @ [snapshot_name req] in
        if fw_max_bytes w < int (length encoded)
        then raise (ValueError ''redacted snapshot exceeds configured maximum size'')
        else thenP (f_write ops target encoded) (ret target))))"

text \<open>\<open>str(path)\<close> is the host's.\<close>

definition attach_snapshot_path :: "(fpath \<Rightarrow> string) \<Rightarrow> CrawlRun \<Rightarrow> fpath \<Rightarrow> CrawlRun" where
  "attach_snapshot_path str_path crawl_run artifact = crawl_run\<lparr>snapshot_path := Some (str_path artifact)\<rparr>"

text \<open>\<open>rglob\<close> is taken as the list of entries at the start of the loop.\<close>

fun cleanup_loop :: "'s file_ops \<Rightarrow> rat \<Rightarrow> fpath list \<Rightarrow> int \<Rightarrow> ('s, int) py" where
  "cleanup_loop ops cutoff [] removed = ret removed"
| "cleanup_loop ops cutoff (c # cs) removed = bindP (f_is_file ops c) (\<lambda>b.
     if \<not> b then cleanup_loop ops cutoff cs removed
     else bindP (f_mtime ops c) (\<lambda>m.
       if m < cutoff then thenP (f_unlink ops c) (cleanup_loop ops cutoff cs (removed + 1))
       else cleanup_loop ops cutoff cs removed))"

definition cleanup_expired_snapshots :: "'s file_ops \<Rightarrow> path_ops \<Rightarrow> zone_db \<Rightarrow> (int \<Rightarrow> int) \<Rightarrow> string \<Rightarrow> datetime \<Rightarrow>
    string \<Rightarrow> ('s, int) py" where
  "cleanup_expired_snapshots ops paths zone local base cutoff repository_root =
     bindP (liftR (external_root paths base repository_root)) (\<lambda>r.
     bindP (f_exists ops r) (\<lambda>e.
     if \<not> e then ret 0
     else bindP (f_rglob ops r) (\<lambda>cs. cleanup_loop ops (py_timestamp zone local cutoff) cs 0)))"

subsection \<open>What the loop does\<close>

text \<open>The files that the cleanup has to delete.\<close>

definition expired :: "(fpath \<Rightarrow> (string \<times> rat) option) \<Rightarrow> rat \<Rightarrow> fpath \<Rightarrow> bool" where
  "expired fs cutoff p \<longleftrightarrow> (case fs p of Some (c, m) \<Rightarrow> m < cutoff | None \<Rightarrow> False)"

context file_store
begin

lemma cleanup_loop_step:
  assumes "cleanup_loop ops cutoff (c # cs) n s = (r, t)"
  shows "(\<exists>e. r = Inl e) \<and> files t = files s \<or>
    (\<exists>s1. cleanup_loop ops cutoff cs (if expired (files s) cutoff c then n + 1 else n) s1 = (r, t) \<and>
      files s1 = (if expired (files s) cutoff c then (files s)(c := None) else files s))"
proof -
  obtain b s1 where f: "f_is_file ops c s = (b, s1)" by (cases "f_is_file ops c s")
  note f' = is_file_files [OF f]
  show ?thesis
  proof (cases "b = Inr True")
    case False
    then show ?thesis
      using assms f f' is_file_Inr [of c s False s1] by (cases b; cases "files s c") (auto simp: bindP_def expired_def)
  next
    case True
    obtain m s2 where m: "f_mtime ops c s1 = (m, s2)" by (cases "f_mtime ops c s1")
    note m' = mtime_files [OF m]
    show ?thesis
    proof (cases m)
      case (Inl e)
      then show ?thesis using assms f f' m m' True by (auto simp: bindP_def)
    next
      case (Inr x)
      have late: "expired (files s) cutoff c \<longleftrightarrow> x < cutoff"
        using is_file_Inr [of c s True s1] mtime_Inr [of c s1 x s2] f f' m True Inr
        by (cases "files s c") (auto simp: expired_def)
      obtain u s3 where u: "f_unlink ops c s2 = (u, s3)" by (cases "f_unlink ops c s2")
      then have "u = Inr () \<Longrightarrow> files s3 = (files s)(c := None)" "u = Inl e \<Longrightarrow> files s3 = files s" for e
        using unlink_Inr [of c s2 "()" s3] unlink_Inl [of c s2 e s3] f' m' by auto
      then show ?thesis using assms f f' m m' True Inr u late
        by (cases u) (auto simp: bindP_def thenP_def split: if_splits)
    qed
  qed
qed

lemma cleanup_loop_only_expired:
  "cleanup_loop ops cutoff cs n s = (r, t) \<Longrightarrow> files t p = files s p \<or> p \<in> set cs \<and> expired (files s) cutoff p \<and> files t p = None"
proof (induction cs arbitrary: n s)
  case (Cons c cs)
  from cleanup_loop_step [OF Cons.prems] show ?case
  proof (elim disjE exE conjE)
    fix s1
    assume l: "cleanup_loop ops cutoff cs (if expired (files s) cutoff c then n + 1 else n) s1 = (r, t)"
      and f: "files s1 = (if expired (files s) cutoff c then (files s)(c := None) else files s)"
    show ?case using Cons.IH [OF l] f by (auto simp: expired_def split: if_splits)
  qed auto
qed simp

lemma cleanup_loop_Inr:
  "cleanup_loop ops cutoff cs n s = (Inr k, t) \<Longrightarrow> distinct cs \<Longrightarrow>
    files t = (\<lambda>p. if p \<in> set cs \<and> expired (files s) cutoff p then None else files s p) \<and>
    k = n + int (length (filter (expired (files s) cutoff) cs))"
proof (induction cs arbitrary: n s)
  case (Cons c cs)
  from cleanup_loop_step [OF Cons.prems(1)] obtain s1
    where l: "cleanup_loop ops cutoff cs (if expired (files s) cutoff c then n + 1 else n) s1 = (Inr k, t)"
      and f: "files s1 = (if expired (files s) cutoff c then (files s)(c := None) else files s)" by auto
  have e: "expired (files s1) cutoff p = expired (files s) cutoff p" if "p \<noteq> c" for p
    using f that by (simp add: expired_def)
  have "filter (expired (files s1) cutoff) cs = filter (expired (files s) cutoff) cs"
    by (rule filter_cong [OF refl], subst e) (use Cons.prems(2) in auto)
  moreover have "files t p = (if p \<in> set (c # cs) \<and> expired (files s) cutoff p then None else files s p)" for p
    using fun_cong [OF conjunct1 [OF Cons.IH [OF l]], of p] Cons.prems(2) f e [of p]
    by (cases "p = c") (auto split: if_splits)
  ultimately show ?case using Cons.IH [OF l] Cons.prems(2) by auto
qed simp

end

subsection \<open>The properties\<close>


definition demo_request :: SnapshotRequest where
  "demo_request = \<lparr>snap_source_id = ''a'', snap_crawl_run_id = ''1'', snap_headers = [(''ETag'', ''x''), (''Cookie'', ''s'')],
     snap_body = PDict [(''token'', PStr ''s'')]\<rparr>"

definition demo_disk :: disk where
  "demo_disk = \<lparr>disk_files = [([''s'', ''old''], ''1'', 5), ([''s'', ''new''], ''2'', 50), ([''t''], ''3'', 5)],
     disk_dirs = [[''s'']], disk_now = 60, disk_locked = False\<rparr>"


text \<open>
  the writer's root is outside the repository. A writer exists only for an absolute path that does
  not resolve to the repository root or below it, and a positive size limit; creating it changes no file.
\<close>

theorem snapshot_root_is_external:
  assumes "file_store ops files" and "FailureSnapshotWriter ops paths base repo max_size s = (Inr w, t)"
  shows "is_absolute paths base \<and> fw_root w = resolve paths base \<and> (\<nexists>rest. fw_root w = resolve paths repo @ rest) \<and>
    0 < fw_max_bytes w \<and> files t = files s"
  using assms(2) file_store.mkdir_files [OF assms(1)]
  by (auto simp: FailureSnapshotWriter_def external_root_def bindP_liftR thenP_eq_Inr is_relative_to_def starts_with_iff
      split: if_splits)

text \<open>
  C38: cleanup deletes exactly the expired files. When it returns, every file below the root that was
  modified before the cutoff is gone, every other file is unchanged, and the result is the number of
  deleted files; when it raises, still nothing but expired files below the root is gone.
\<close>

theorem cleanup_deletes_exactly_expired:
  assumes "file_store ops files" and "external_root paths base repo = Inr r"
    and "cleanup_expired_snapshots ops paths zone local base cutoff repo s = (x, t)"
  shows "(\<forall>p. files t p = files s p \<or> below r p \<and> expired (files s) (py_timestamp zone local cutoff) p \<and> files t p = None) \<and>
    (\<forall>n. x = Inr n \<longrightarrow> n = int (card {p. below r p \<and> expired (files s) (py_timestamp zone local cutoff) p}) \<and>
      (\<forall>p. below r p \<and> expired (files s) (py_timestamp zone local cutoff) p \<longrightarrow> files t p = None))"
proof -
  let ?c = "py_timestamp zone local cutoff"
  obtain e s1 where e: "f_exists ops r s = (e, s1)" by (cases "f_exists ops r s")
  note k1 = file_store.exists_files [OF assms(1) e]
  consider (stop) "files t = files s" "\<nexists>n. x = Inr n" | (none) "e = Inr False" "x = Inr 0" "t = s1"
    | (loop) cs s2 where "f_rglob ops r s1 = (Inr cs, s2)" "cleanup_loop ops ?c cs 0 s2 = (x, t)"
    using assms(2,3) e k1 file_store.rglob_files [OF assms(1), of r s1]
    by (cases e; cases "f_rglob ops r s1"; cases "fst (f_rglob ops r s1)")
      (auto simp: cleanup_expired_snapshots_def bindP_def split: if_splits)
  then show ?thesis
  proof cases
    case stop
    then show ?thesis by auto
  next
    case none
    have "files s p = None" if "below r p" for p
      using file_store.exists_Inr [OF assms(1) e [unfolded none(1)]] that by (simp add: below_def)
    then have n: "\<not> (below r p \<and> expired (files s) ?c p)" for p by (auto simp: expired_def split: option.splits)
    have "{p. below r p \<and> expired (files s) ?c p} = {}" using n by blast
    then show ?thesis using none k1 n by (simp only:) auto
  next
    case loop
    note k2 = file_store.rglob_files [OF assms(1) loop(1)]
    have cs: "distinct cs" "\<forall>q \<in> set cs. below r q" "\<forall>q. below r q \<and> files s q \<noteq> None \<longrightarrow> q \<in> set cs"
      using file_store.rglob_Inr [OF assms(1) loop(1)] k1 by auto
    have sub: "\<forall>p. files t p = files s p \<or> below r p \<and> expired (files s) ?c p \<and> files t p = None"
      using file_store.cleanup_loop_only_expired [OF assms(1) loop(2)] cs(2) k1 k2 by metis
    have "n = int (card {p. below r p \<and> expired (files s) ?c p}) \<and>
        (\<forall>p. below r p \<and> expired (files s) ?c p \<longrightarrow> files t p = None)" if n: "x = Inr n" for n
    proof -
      have e: "below r p \<and> expired (files s) ?c p \<longleftrightarrow> p \<in> set cs \<and> expired (files s) ?c p" for p
        using cs(2,3) by (auto simp: expired_def split: option.splits)
      have "n = int (length (filter (expired (files s) ?c) cs))" and
        f: "files t = (\<lambda>p. if p \<in> set cs \<and> expired (files s) ?c p then None else files s p)"
        using file_store.cleanup_loop_Inr [OF assms(1) loop(2) [unfolded n] cs(1)] unfolding k2 k1 by simp_all
      moreover have "length (filter (expired (files s) ?c) cs) = card (set (filter (expired (files s) ?c) cs))"
        by (metis cs(1) distinct_card distinct_filter)
      ultimately show ?thesis using e by simp
    qed
    then show ?thesis using sub by blast
  qed
qed

theorem snapshot_root_is_external_witness:
  "\<exists>w t. FailureSnapshotWriter disk_ops demo_paths ''/s'' ''/r'' 10 demo_disk = (Inr w, t) \<and>
     fw_root w = [''/'', ''s''] \<and> disk_at t = disk_at demo_disk"
proof -
  have e: "external_root demo_paths ''/s'' ''/r'' = Inr [''/'', ''s'']" by code_simp
  obtain w t where w: "FailureSnapshotWriter disk_ops demo_paths ''/s'' ''/r'' 10 demo_disk = (Inr w, t)"
    by (auto simp: FailureSnapshotWriter_def e disk_ops_def disk_do_def demo_disk_def thenP_def bindP_def)
  show ?thesis using snapshot_root_is_external [OF disk.file_store_axioms w] w by (simp add: demo_paths_def)
qed

theorem cleanup_deletes_exactly_expired_witness:
  "\<exists>x t. cleanup_expired_snapshots disk_ops demo_paths demo_zone (\<lambda>_. 0) ''/s'' (naive (719162 * us_per_day + 10000000)) ''/r''
      (demo_disk\<lparr>disk_files := [([''/'', ''s'', ''old''], ''1'', 5), ([''/'', ''s'', ''new''], ''2'', 50)]\<rparr>) = (Inr x, t) \<and>
     disk_at t [''/'', ''s'', ''old''] = None"
proof -
  let ?d = "demo_disk\<lparr>disk_files := [([''/'', ''s'', ''old''], ''1'', 5), ([''/'', ''s'', ''new''], ''2'', 50)]\<rparr>"
  let ?cut = "naive (719162 * us_per_day + 10000000)"
  have e: "external_root demo_paths ''/s'' ''/r'' = Inr [''/'', ''s'']" by code_simp
  have c: "py_timestamp demo_zone (\<lambda>_. 0) ?cut = 10" by (simp add: py_timestamp_def naive_def utcoffset_def)
  obtain x t where r: "cleanup_expired_snapshots disk_ops demo_paths demo_zone (\<lambda>_. 0) ''/s'' ?cut ''/r'' ?d = (Inr x, t)"
    unfolding cleanup_expired_snapshots_def e c
    by (auto simp: disk_ops_def disk_do_def disk_need_def disk_at_def demo_disk_def
        thenP_def bindP_def below_def)
  have "below [''/'', ''s''] [''/'', ''s'', ''old''] \<and> expired (disk_at ?d) 10 [''/'', ''s'', ''old'']"
    by (simp add: below_def expired_def disk_at_def)
  then show ?thesis
    using cleanup_deletes_exactly_expired [OF disk.file_store_axioms e r] r unfolding c by blast
qed

end
