(* ===== verification/BrowserSession.thy ===== *)
theory BrowserSession
  imports Scheduler Observability
begin

section \<open>Browser session state (\<open>browser_session.py\<close>, \<open>browser_session_cli.py\<close>)\<close>

text \<open>
  \<open>BrowserSessionManager\<close> keeps one JSON document per browser profile in the store it is given: what an
  operator's refresh or an adapter's observation last said. Each method is one definition over \<open>kv_ops\<close>
  (\<open>SessionStateStore\<close> has the operations of \<open>SchedulerStore\<close>), and the command line on top of it.

  The contract is an abstract map from profiles to what \<open>get_state\<close> answers. The lemmas: an observation
  reads back as it was recorded and raises exactly when an operator has to act, a stored document of any
  shape never makes \<open>get_state\<close> raise, profiles do not affect each other, and a manual refresh does not
  read back: its time is stored with a fixed offset, which the reader's check of the time zone refuses.
\<close>

subsection \<open>Vocabulary\<close>

definition BEIJING :: tzinfo where
  "BEIJING = ZoneInfo ''Asia/Shanghai''"

definition profile_reference_match :: "string \<Rightarrow> bool" where
  "profile_reference_match s \<longleftrightarrow> s \<noteq> [] \<and>
     list_all (\<lambda>c. is_lower_az c \<or> is_ascii_digit c \<or> c = CHR ''_'') s"

datatype BrowserSessionStatus = UNKNOWN | READY | LOGIN_REQUIRED | ACCESS_DENIED | CAPTCHA

fun status_value :: "BrowserSessionStatus \<Rightarrow> string" where
  "status_value UNKNOWN = ''unknown''"
| "status_value READY = ''ready''"
| "status_value LOGIN_REQUIRED = ''login_required''"
| "status_value ACCESS_DENIED = ''access_denied''"
| "status_value CAPTCHA = ''captcha''"

text \<open>\<open>BrowserSessionStatus(value)\<close>: any value that is not one of the texts is a \<open>ValueError\<close>.\<close>

definition status_of :: "pyval \<Rightarrow> BrowserSessionStatus result" where
  "status_of v = (case find (\<lambda>st. v = PStr (status_value st)) [UNKNOWN, READY, LOGIN_REQUIRED, ACCESS_DENIED, CAPTCHA] of
       Some st \<Rightarrow> Inr st
     | None \<Rightarrow> Inl (ValueError ''not a valid BrowserSessionStatus''))"

datatype BrowserSessionObservation = OBS_READY | OBS_LOGIN_REQUIRED | OBS_UNAUTHORIZED | OBS_FORBIDDEN
  | OBS_CAPTCHA | OBS_ACCESS_CONTROL

record BrowserSessionState =
  bs_profile :: string
  bs_status :: BrowserSessionStatus
  bs_refresh :: "datetime option"
  bs_reason :: "string option"

definition session_required :: "BrowserSessionState \<Rightarrow> exn" where
  "session_required st = BrowserSessionRequiredError (bs_profile st) (status_value (bs_status st)) (bs_reason st)"

definition session_key :: "string \<Rightarrow> string" where
  "session_key profile = ''browser-session:'' @ profile"

definition unknown_state :: "string \<Rightarrow> BrowserSessionState" where
  "unknown_state profile = \<lparr>bs_profile = profile, bs_status = UNKNOWN, bs_refresh = None, bs_reason = None\<rparr>"

definition observation_state :: "BrowserSessionObservation \<Rightarrow> BrowserSessionStatus \<times> string option" where
  "observation_state obs =
     (if obs = OBS_READY then (READY, None)
      else if obs = OBS_LOGIN_REQUIRED then (LOGIN_REQUIRED, Some ''login_required'')
      else if obs = OBS_CAPTCHA then (CAPTCHA, Some ''captcha'')
      else if obs = OBS_UNAUTHORIZED then (ACCESS_DENIED, Some ''unauthorized'')
      else if obs = OBS_FORBIDDEN then (ACCESS_DENIED, Some ''forbidden'')
      else (ACCESS_DENIED, Some ''access_control''))"

definition validate_profile_reference :: "string \<Rightarrow> unit result" where
  "validate_profile_reference profile = (if profile_reference_match profile then Inr ()
     else Inl (ValueError ''profile reference must match [a-z0-9_]+''))"

definition validate_beijing_datetime :: "datetime \<Rightarrow> unit result" where
  "validate_beijing_datetime value = (if tz value \<noteq> Some BEIJING
     then Inl (ValueError ''timestamp must be timezone-aware Beijing time'') else Inr ())"

subsection \<open>The document\<close>

definition opt_str :: "string option \<Rightarrow> pyval" where
  "opt_str x = (case x of None \<Rightarrow> PNone | Some t \<Rightarrow> PStr t)"

definition state_doc :: "zone_db \<Rightarrow> BrowserSessionState \<Rightarrow> pyval" where
  "state_doc zone st = PDict [(''profile_reference'', PStr (bs_profile st)), (''status'', PStr (status_value (bs_status st))),
     (''last_manual_refresh_at'', opt_str (map_option (isoformat zone) (bs_refresh st))), (''reason'', opt_str (bs_reason st))]"

text \<open>\<open>payload.get(name)\<close>: \<open>None\<close> for an absent name.\<close>

definition dict_get :: "(string \<times> pyval) list \<Rightarrow> string \<Rightarrow> pyval" where
  "dict_get kvs name = (case map_of kvs name of Some v \<Rightarrow> v | None \<Rightarrow> PNone)"

definition read_reason :: "pyval \<Rightarrow> string option result" where
  "read_reason v = (case v of PNone \<Rightarrow> Inr None | PStr r \<Rightarrow> Inr (Some r)
     | _ \<Rightarrow> Inl (ValueError ''reason must be a string''))"

definition read_refresh :: "pyval \<Rightarrow> datetime option result" where
  "read_refresh v = (case v of
       PNone \<Rightarrow> Inr None
     | PStr t \<Rightarrow> bindR (fromisoformat t) (\<lambda>d. bindR (validate_beijing_datetime d) (\<lambda>_. Inr (Some d)))
     | _ \<Rightarrow> Inl (ValueError ''refresh time must be a string''))"

text \<open>The body of the \<open>try\<close> of \<open>_deserialize_state\<close>.\<close>

definition parse_state :: "string \<Rightarrow> string \<Rightarrow> BrowserSessionState result" where
  "parse_state profile value = bindR (json_loads value) (\<lambda>payload. case payload of
       PDict kvs \<Rightarrow>
         if dict_get kvs ''profile_reference'' \<noteq> PStr profile then Inl (ValueError ''profile reference mismatch'')
         else bindR (bindR (py_getitem payload ''status'') status_of) (\<lambda>status.
           bindR (read_reason (dict_get kvs ''reason'')) (\<lambda>reason.
           bindR (read_refresh (dict_get kvs ''last_manual_refresh_at'')) (\<lambda>refresh.
           Inr \<lparr>bs_profile = profile, bs_status = status, bs_refresh = refresh, bs_reason = reason\<rparr>)))
     | _ \<Rightarrow> Inl (ValueError ''state must be a mapping''))"

text \<open>The exceptions that \<open>_deserialize_state\<close> answers with the unknown state.\<close>

definition state_error :: "exn \<Rightarrow> bool" where
  "state_error e \<longleftrightarrow> is_ValueError e \<or> (\<exists>m. e = KeyError m) \<or> (\<exists>m. e = TypeError m)"

definition deserialize_state :: "string \<Rightarrow> string \<Rightarrow> BrowserSessionState result" where
  "deserialize_state profile value = (case parse_state profile value of
       Inl e \<Rightarrow> if state_error e then Inr (unknown_state profile) else Inl e
     | Inr st \<Rightarrow> Inr st)"

subsection \<open>The manager\<close>

definition session_get_state :: "'s kv_ops \<Rightarrow> string \<Rightarrow> ('s, BrowserSessionState) py" where
  "session_get_state ops profile =
     bindP (liftR (validate_profile_reference profile)) (\<lambda>_.
     bindP (kv_get ops (session_key profile)) (\<lambda>value. case value of
         None \<Rightarrow> ret (unknown_state profile)
       | Some t \<Rightarrow> liftR (deserialize_state profile t)))"

definition session_save :: "'s kv_ops \<Rightarrow> zone_db \<Rightarrow> BrowserSessionState \<Rightarrow> ('s, unit) py" where
  "session_save ops zone st = bindP (liftR (dumps compact_style (state_doc zone st)))
     (\<lambda>t. kv_set ops (session_key (bs_profile st)) t)"

definition record_manual_refresh :: "'s kv_ops \<Rightarrow> zone_db \<Rightarrow> string \<Rightarrow> datetime \<Rightarrow> ('s, BrowserSessionState) py" where
  "record_manual_refresh ops zone profile current =
     bindP (liftR (validate_profile_reference profile)) (\<lambda>_.
     bindP (liftR (validate_beijing_datetime current)) (\<lambda>_.
     let st = \<lparr>bs_profile = profile, bs_status = READY, bs_refresh = Some current, bs_reason = None\<rparr> in
     thenP (session_save ops zone st) (ret st)))"

definition record_observation :: "'s kv_ops \<Rightarrow> zone_db \<Rightarrow> string \<Rightarrow> BrowserSessionObservation \<Rightarrow> datetime \<Rightarrow>
    ('s, BrowserSessionState) py" where
  "record_observation ops zone profile obs current =
     bindP (liftR (validate_profile_reference profile)) (\<lambda>_.
     bindP (liftR (validate_beijing_datetime current)) (\<lambda>_.
     let (status, reason) = observation_state obs;
         st = \<lparr>bs_profile = profile, bs_status = status, bs_refresh = None, bs_reason = reason\<rparr> in
     thenP (session_save ops zone st) (if status \<noteq> READY then raise (session_required st) else ret st)))"

subsection \<open>The command line\<close>

definition record_refresh_from_environment :: "'s kv_ops \<Rightarrow> zone_db \<Rightarrow> (string \<Rightarrow> string option) \<Rightarrow> datetime \<Rightarrow>
    ('s, BrowserSessionState) py" where
  "record_refresh_from_environment ops zone environ current =
     (let profile = strip (environ_get environ ''BROWSER_PROFILE_REFERENCE'' []) in
      if profile = [] then raise (BrowserSessionConfigurationError ''BROWSER_PROFILE_REFERENCE is required'')
      else tryP (record_manual_refresh ops zone profile current) (\<lambda>e. if is_ValueError e
        then Some (raise (BrowserSessionConfigurationError ''BROWSER_PROFILE_REFERENCE is invalid'')) else None))"

definition format_refresh_result :: "zone_db \<Rightarrow> BrowserSessionState \<Rightarrow> string result" where
  "format_refresh_result zone st = (case bs_refresh st of
       None \<Rightarrow> Inl (RuntimeError ''manual refresh did not produce a timestamp'')
     | Some d \<Rightarrow> Inr (''profile_reference='' @ bs_profile st @ '' status='' @ status_value (bs_status st) @
         '' refreshed_at='' @ isoformat zone d))"

text \<open>What the process ends with: a printed line, or an exit status with a message. \<open>parse_args\<close> is \<open>argparse\<close>
  on the command line (it may exit by itself), \<open>connect\<close> is \<open>Redis.from_url\<close>, \<open>is_RedisError\<close> the class of
  the client's errors.\<close>

datatype cli_end = Printed string | Exited int string

definition cli_parse :: "(string list \<Rightarrow> string result) \<Rightarrow> string list \<Rightarrow> unit result" where
  "cli_parse parse_args argv = bindR (parse_args argv) (\<lambda>command.
     if command \<noteq> ''record-refresh'' then Inl (RuntimeError ''unsupported command'') else Inr ())"

definition browser_session_main :: "(string list \<Rightarrow> string result) \<Rightarrow> (string \<Rightarrow> ('s, unit) py) \<Rightarrow> (exn \<Rightarrow> bool) \<Rightarrow>
    's kv_ops \<Rightarrow> zone_db \<Rightarrow> string list \<Rightarrow> (string \<Rightarrow> string option) \<Rightarrow> ('s, datetime) py \<Rightarrow> ('s, cli_end) py" where
  "browser_session_main parse_args connect is_RedisError ops zone argv environ now =
     bindP (liftR (cli_parse parse_args argv)) (\<lambda>_.
     let redis_url = strip (environ_get environ ''REDIS_URL'' []) in
     if redis_url = [] then raise (BrowserSessionConfigurationError ''REDIS_URL is required'')
     else bindP (tryP
         (thenP (connect redis_url)
           (bindP now (\<lambda>current.
            bindP (record_refresh_from_environment ops zone environ current) (\<lambda>st. ret (Inr st)))))
         (\<lambda>e. case e of
             BrowserSessionConfigurationError m \<Rightarrow>
               Some (ret (Inl (Exited 2 (''browser session configuration error: '' @ m @ [CHR 0x0A]))))
           | _ \<Rightarrow> if is_RedisError e
               then Some (ret (Inl (Exited 1 (''browser session refresh storage is unavailable'' @ [CHR 0x0A]))))
               else None))
       (\<lambda>x. case x of
           Inl exited \<Rightarrow> ret exited
         | Inr st \<Rightarrow> bindP (liftR (format_refresh_result zone st)) (\<lambda>line. ret (Printed line))))"

subsection \<open>Documents\<close>

lemma find_status [simp]: "status_of (PStr (status_value st)) = Inr st"
  by (cases st) (simp_all add: status_of_def)

lemma status_of_Inl: "status_of v = Inl e \<Longrightarrow> is_ValueError e"
  by (auto simp: status_of_def split: option.splits)

text \<open>What \<open>fromisoformat\<close> reads has no zone or a fixed offset.\<close>

lemma mk_datetime_tz: "mk_datetime ymd hms z = Some d \<Longrightarrow> tz d = z"
  by (auto simp: mk_datetime_def Let_def split: prod.splits if_splits)

lemma p_time_tz: "p_time t = Some (hms, z) \<Longrightarrow> z \<noteq> Some (ZoneInfo k)"
  by (auto simp: p_time_def p_zone_def bind_eq_Some_conv split: prod.splits option.splits if_splits)

lemma fromisoformat_tz:
  assumes "fromisoformat t = Inr d"
  shows "tz d \<noteq> Some (ZoneInfo k)"
proof -
  from assms obtain ymd r where "p_date t = Some (ymd, r)"
    "(case r of [] \<Rightarrow> mk_datetime ymd (0, 0, 0, 0) None
        | c # u \<Rightarrow> if u = [] then mk_datetime ymd (0, 0, 0, 0) None
            else Option.bind (p_time u) (\<lambda>(hms, z). mk_datetime ymd hms z)) = Some d"
    by (auto simp: fromisoformat_def bind_eq_Some_conv split: option.splits prod.splits)
  from this(2) show ?thesis
    by (cases r) (auto simp: bind_eq_Some_conv split: if_splits dest!: mk_datetime_tz dest: p_time_tz)
qed

lemma fromisoformat_Inl: "fromisoformat t = Inl e \<Longrightarrow> is_ValueError e"
  by (auto simp: fromisoformat_def split: option.splits)

lemma beijing_read: "fromisoformat t = Inr d \<Longrightarrow> \<exists>m. validate_beijing_datetime d = Inl (ValueError m)"
  using fromisoformat_tz by (auto simp: validate_beijing_datetime_def BEIJING_def)

lemma read_refresh_Inr: "read_refresh v = Inr x \<Longrightarrow> x = None"
proof (cases v)
  case (PStr t)
  assume r: "read_refresh v = Inr x"
  show ?thesis
  proof (cases "fromisoformat t")
    case (Inr d)
    then show ?thesis using r PStr beijing_read [OF Inr] by (auto simp: read_refresh_def)
  qed (use r PStr in \<open>simp add: read_refresh_def\<close>)
qed (simp_all add: read_refresh_def)

lemma read_refresh_Inl: "read_refresh v = Inl e \<Longrightarrow> is_ValueError e"
proof (cases v)
  case (PStr t)
  assume r: "read_refresh v = Inl e"
  show ?thesis
  proof (cases "fromisoformat t")
    case (Inl e')
    then show ?thesis using r PStr fromisoformat_Inl [OF Inl] by (simp add: read_refresh_def)
  next
    case (Inr d)
    then show ?thesis using r PStr beijing_read [OF Inr] by (auto simp: read_refresh_def)
  qed
qed (auto simp: read_refresh_def)

lemma read_reason_Inl: "read_reason v = Inl e \<Longrightarrow> is_ValueError e"
  by (auto simp: read_reason_def split: pyval.splits)

lemma py_getitem_Inl: "py_getitem (PDict kvs) k = Inl e \<Longrightarrow> e = KeyError k"
  by (auto simp: py_getitem_def split: option.splits)

lemma parse_state_Inr:
  assumes "parse_state profile value = Inr st"
  shows "bs_profile st = profile \<and> bs_refresh st = None"
proof -
  obtain v where v: "json_loads value = Inr v" using assms by (auto simp: parse_state_def)
  show ?thesis
  proof (cases v)
    case (PDict kvs)
    then show ?thesis using assms v by (auto simp: parse_state_def dest: read_refresh_Inr split: if_splits)
  qed (use assms v in \<open>auto simp: parse_state_def\<close>)
qed

lemma parse_state_Inl:
  assumes "parse_state profile value = Inl e"
  shows "state_error e"
proof (cases "json_loads value")
  case (Inl e')
  then show ?thesis using assms by (auto simp: parse_state_def state_error_def json_loads_def split: option.splits)
next
  case (Inr v)
  show ?thesis
  proof (cases v)
    case (PDict kvs)
    then show ?thesis using assms Inr
      by (auto simp: parse_state_def state_error_def bindR_Inl_iff split: if_splits
          dest: status_of_Inl read_reason_Inl read_refresh_Inl py_getitem_Inl)
  qed (use assms Inr in \<open>auto simp: parse_state_def state_error_def\<close>)
qed

text \<open>A stored document of any shape is answered, and never with a refresh time.\<close>

lemma deserialize_total:
  obtains st where "deserialize_state profile value = Inr st" "bs_profile st = profile" "bs_refresh st = None"
proof (cases "parse_state profile value")
  case (Inl e)
  then show thesis using that [of "unknown_state profile"] parse_state_Inl [OF Inl]
    by (simp add: deserialize_state_def unknown_state_def)
next
  case (Inr st)
  then show thesis using that [of st] parse_state_Inr [OF Inr] by (simp add: deserialize_state_def)
qed

definition state_text :: "zone_db \<Rightarrow> BrowserSessionState \<Rightarrow> string" where
  "state_text zone st = (case dumps compact_style (state_doc zone st) of Inr t \<Rightarrow> t | Inl _ \<Rightarrow> [])"

lemma dumps_state: "dumps compact_style (state_doc zone st) = Inr (state_text zone st)"
proof -
  have "jsonable (state_doc zone st)" by (simp add: state_doc_def opt_str_def split: option.split)
  then obtain t where "dumps compact_style (state_doc zone st) = Inr t" using dumps_styles_total(2) by blast
  then show ?thesis by (simp add: state_text_def)
qed

lemma loads_state: "json_loads (state_text zone st) = Inr (state_doc zone st)"
proof -
  have "json_wf (state_doc zone st)" by (simp add: state_doc_def opt_str_def split: option.split)
  from loads_dumps [OF style_ok_styles(2) this dumps_state] show ?thesis
    by (simp add: json_loads_def state_doc_def opt_str_def compact_style_def default_style_def split: option.splits)
qed

lemma state_doc_fields:
  "dict_get [(''profile_reference'', a), (''status'', b), (''last_manual_refresh_at'', c), (''reason'', d)] ''profile_reference'' = a"
  "dict_get [(''profile_reference'', a), (''status'', b), (''last_manual_refresh_at'', c), (''reason'', d)] ''last_manual_refresh_at'' = c"
  "dict_get [(''profile_reference'', a), (''status'', b), (''last_manual_refresh_at'', c), (''reason'', d)] ''reason'' = d"
  "py_getitem (PDict [(''profile_reference'', a), (''status'', b), (''last_manual_refresh_at'', c), (''reason'', d)]) ''status'' = Inr b"
  by (simp_all add: dict_get_def py_getitem_def)

lemma deserialize_saved:
  "bs_refresh st = None \<Longrightarrow> deserialize_state (bs_profile st) (state_text zone st) = Inr st"
  by (cases "bs_reason st")
     (simp_all add: deserialize_state_def parse_state_def loads_state state_doc_def state_doc_fields opt_str_def
      read_reason_def read_refresh_def)

lemma deserialize_refreshed:
  assumes "bs_refresh st = Some d" and "wall_ok (wall d)" and "\<forall>x. utcoffset zone d = Some x \<longrightarrow> \<bar>x\<bar> < 86400"
  shows "deserialize_state (bs_profile st) (state_text zone st) = Inr (unknown_state (bs_profile st))"
proof -
  note f = fromisoformat_isoformat [OF assms(2,3)]
  obtain m where "validate_beijing_datetime \<lparr>wall = wall d, tz = map_option FixedTz (utcoffset zone d)\<rparr> = Inl (ValueError m)"
    using beijing_read [OF f] by blast
  then show ?thesis using assms(1)
    by (cases "bs_reason st") (simp_all add: deserialize_state_def parse_state_def loads_state state_doc_def
        state_doc_fields opt_str_def f state_error_def read_reason_def read_refresh_def)
qed
subsection \<open>The abstract map\<close>

definition session_map :: "(string \<Rightarrow> string option) \<Rightarrow> string \<Rightarrow> BrowserSessionState" where
  "session_map view profile = (case view (session_key profile) of
       None \<Rightarrow> unknown_state profile
     | Some t \<Rightarrow> (case deserialize_state profile t of Inr st \<Rightarrow> st | Inl _ \<Rightarrow> unknown_state profile))"

definition observed :: "string \<Rightarrow> BrowserSessionObservation \<Rightarrow> BrowserSessionState" where
  "observed profile obs = \<lparr>bs_profile = profile, bs_status = fst (observation_state obs), bs_refresh = None,
     bs_reason = snd (observation_state obs)\<rparr>"

lemma session_key_inj [simp]: "session_key a = session_key b \<longleftrightarrow> a = b"
  by (simp add: session_key_def)

lemma session_map_fields: "bs_profile (session_map v profile) = profile" "bs_refresh (session_map v profile) = None"
proof -
  have "bs_profile (session_map v profile) = profile \<and> bs_refresh (session_map v profile) = None"
  proof (cases "v (session_key profile)")
    case (Some t)
    obtain st where "deserialize_state profile t = Inr st" "bs_profile st = profile" "bs_refresh st = None"
      by (rule deserialize_total)
    then show ?thesis using Some by (simp add: session_map_def)
  qed (simp add: session_map_def unknown_state_def)
  then show "bs_profile (session_map v profile) = profile" "bs_refresh (session_map v profile) = None" by simp_all
qed

lemma session_map_saved: "bs_refresh st = None \<Longrightarrow>
    session_map (v(session_key (bs_profile st) \<mapsto> state_text zone st)) = (session_map v)(bs_profile st := st)"
  by (auto simp: fun_eq_iff session_map_def deserialize_saved)

context kv_store
begin

lemma session_get_up:
  assumes "up s" and "profile_reference_match profile"
  shows "\<exists>t. session_get_state ops profile s = (Inr (session_map (view s) profile), t) \<and> view t = view s \<and> up t"
proof -
  obtain t where t: "kv_get ops (session_key profile) s = (Inr (view s (session_key profile)), t)" "view t = view s" "up t"
    by (rule get_upE [OF assms(1)])
  show ?thesis
  proof (cases "view s (session_key profile)")
    case None
    then show ?thesis using t assms(2)
      by (simp add: session_get_state_def validate_profile_reference_def session_map_def)
  next
    case (Some v)
    obtain st where "deserialize_state profile v = Inr st" by (rule deserialize_total)
    then show ?thesis using t assms(2) Some
      by (simp add: session_get_state_def validate_profile_reference_def session_map_def)
  qed
qed

lemma session_save_up:
  assumes "up s"
  shows "\<exists>t. session_save ops zone st s = (Inr (), t) \<and> up t \<and>
    view t = (view s)(session_key (bs_profile st) \<mapsto> state_text zone st)"
proof -
  obtain t where "kv_set ops (session_key (bs_profile st)) (state_text zone st) s = (Inr (), t)"
    "view t = (view s)(session_key (bs_profile st) \<mapsto> state_text zone st)" "up t"
    by (rule set_upE [OF assms])
  then show ?thesis by (simp add: session_save_def dumps_state)
qed

lemma observation_up:
  assumes "up s" and "profile_reference_match profile" and "tz current = Some BEIJING"
  shows "\<exists>t. record_observation ops zone profile obs current s =
      ((if obs = OBS_READY then Inr (observed profile obs) else Inl (session_required (observed profile obs))), t) \<and>
    up t \<and> session_map (view t) = (session_map (view s))(profile := observed profile obs)"
proof -
  obtain t where t: "session_save ops zone (observed profile obs) s = (Inr (), t)" "up t"
    "view t = (view s)(session_key profile \<mapsto> state_text zone (observed profile obs))"
    using session_save_up [OF assms(1), of zone "observed profile obs"] by (auto simp: observed_def)
  have "session_map (view t) = (session_map (view s))(profile := observed profile obs)"
    using session_map_saved [of "observed profile obs" "view s" zone] t(3) by (simp add: observed_def)
  then show ?thesis using t assms(2,3)
    by (cases obs) (simp_all add: record_observation_def validate_profile_reference_def validate_beijing_datetime_def
        observed_def observation_state_def Let_def)
qed

lemma refresh_up:
  assumes "up s" and "profile_reference_match profile" and "tz current = Some BEIJING"
  shows "\<exists>t. record_manual_refresh ops zone profile current s =
      (Inr \<lparr>bs_profile = profile, bs_status = READY, bs_refresh = Some current, bs_reason = None\<rparr>, t) \<and> up t \<and>
    view t = (view s)(session_key profile \<mapsto> state_text zone
      \<lparr>bs_profile = profile, bs_status = READY, bs_refresh = Some current, bs_reason = None\<rparr>)"
  using session_save_up [OF assms(1), of zone "\<lparr>bs_profile = profile, bs_status = READY, bs_refresh = Some current, bs_reason = None\<rparr>"]
    assms(2,3)
  by (auto simp: record_manual_refresh_def validate_profile_reference_def validate_beijing_datetime_def Let_def)

end



text \<open>A manual refresh does not read back. \<open>record_manual_refresh\<close> stores and returns a ready state with its
  time, and the next \<open>get_state\<close> answers that the state is unknown: \<open>fromisoformat\<close> reads the stored time
  with a fixed offset, which is not the Beijing zone that the reader asks for.\<close>

theorem manual_refresh_reads_unknown:
  assumes "kv_store ops view up" and "up s" and "profile_reference_match profile"
    and "tz current = Some BEIJING" and "wall_ok (wall current)" and "\<bar>zone ''Asia/Shanghai'' (wall current)\<bar> < 86400"
  shows "\<exists>st t u. record_manual_refresh ops zone profile current s = (Inr st, t) \<and> bs_status st = READY \<and>
    bs_refresh st = Some current \<and> session_get_state ops profile t = (Inr (unknown_state profile), u)"
proof -
  let ?st = "\<lparr>bs_profile = profile, bs_status = READY, bs_refresh = Some current, bs_reason = None\<rparr>"
  obtain t where t: "record_manual_refresh ops zone profile current s = (Inr ?st, t)" "up t"
    "view t = (view s)(session_key profile \<mapsto> state_text zone ?st)"
    using kv_store.refresh_up [OF assms(1-4)] by blast
  have "deserialize_state profile (state_text zone ?st) = Inr (unknown_state profile)"
    using deserialize_refreshed [of ?st current zone] assms(4-6) by (simp add: utcoffset_def BEIJING_def)
  then have "session_map (view t) profile = unknown_state profile" by (simp add: session_map_def t(3))
  then show ?thesis using t kv_store.session_get_up [OF assms(1) t(2) assms(3)] by fastforce
qed

theorem manual_refresh_reads_unknown_witness:
  "\<exists>st t u. record_manual_refresh redis_kv demo_zone ''p1'' \<lparr>wall = 0, tz = Some BEIJING\<rparr> redis0 = (Inr st, t) \<and>
    bs_status st = READY \<and> session_get_state redis_kv ''p1'' t = (Inr (unknown_state ''p1''), u)"
proof -
  have p: "profile_reference_match ''p1''"
    by (simp add: profile_reference_match_def is_lower_az_def is_ascii_digit_def ord_def)
  have u: "redis_up redis0" by (simp add: redis_up_def redis0_def)
  show ?thesis
    using manual_refresh_reads_unknown [OF redis_kv.kv_store_axioms u p, of "\<lparr>wall = 0, tz = Some BEIJING\<rparr>" demo_zone]
    by (auto simp: wall_ok_def demo_zone_def)
qed

end
