(* ===== verification/BrowserArtifacts.thy ===== *)
theory BrowserArtifacts
  imports Files Hashing "HOL-Library.Sublist"
begin

section \<open>Browser failure artifacts (\<open>browser_artifacts.py\<close>)\<close>

text \<open>
  \<open>BrowserArtifactWriter\<close> persists a table fragment after \<open>_SingleTableRootValidator\<close> accepted it and
  \<open>_SafeFragmentSanitizer\<close> rewrote it. Both are subclasses of \<open>HTMLParser\<close>, whose tokenizer is a parameter
  (\<open>tokens\<close>): it turns a text into the sequence of handler calls, one constructor of \<open>html_event\<close> each.
  The two classes are the states of their attributes and what each handler does to them.

  The lemmas: the validator accepts exactly the event sequences of one table element with balanced content,
  by a grammar that does not mention its stack; what the sanitizer writes, for any event sequence, is a
  subsequence of the cleaned events and holds no removed tag or attribute; a removed tag without an end tag
  swallows what follows it; and a failure writes its files below the output directory only.
\<close>

subsection \<open>Events\<close>

type_synonym html_attrs = "(string \<times> string option) list"

datatype html_event =
    StartTag string html_attrs
  | EndTag string
  | StartEndTag string html_attrs
  | Data string
  | EntityRef string
  | CharRef string
  | Comment string
  | Decl string
  | UnknownDecl string
  | ProcInst string

definition REMOVED_ATTRIBUTES :: "string list" where
  "REMOVED_ATTRIBUTES = [''authorization'', ''cookie'', ''password'', ''token'']"

definition REMOVED_TAGS :: "string list" where
  "REMOVED_TAGS = [''button'', ''form'', ''input'', ''option'', ''script'', ''select'', ''style'', ''textarea'']"

definition VOID_TAGS :: "string list" where
  "VOID_TAGS = [''br'', ''hr'', ''img'', ''input'', ''meta'', ''link'']"

subsection \<open>The validator\<close>

text \<open>The top of the stack is the head of the list.\<close>

record validator =
  root_seen :: bool
  tag_stack :: "string list"
  still_valid :: bool

definition validator0 :: validator where
  "validator0 = \<lparr>root_seen = False, tag_stack = [], still_valid = True\<rparr>"

definition validate_start :: "string \<Rightarrow> validator \<Rightarrow> validator" where
  "validate_start tag v = (let t = lower tag in
     if tag_stack v = [] \<and> (root_seen v \<or> t \<noteq> ''table'') then v\<lparr>still_valid := False\<rparr>
     else let v1 = (if tag_stack v = [] then v\<lparr>root_seen := True\<rparr> else v) in
       if t \<notin> set VOID_TAGS then v1\<lparr>tag_stack := t # tag_stack v1\<rparr> else v1)"

definition validate_end :: "string \<Rightarrow> validator \<Rightarrow> validator" where
  "validate_end tag v = (case tag_stack v of
       [] \<Rightarrow> v\<lparr>still_valid := False\<rparr>
     | outer # rest \<Rightarrow> if outer \<noteq> lower tag then v\<lparr>still_valid := False\<rparr> else v\<lparr>tag_stack := rest\<rparr>)"

definition invalid_outside :: "validator \<Rightarrow> validator" where
  "invalid_outside v = (if tag_stack v = [] then v\<lparr>still_valid := False\<rparr> else v)"

fun validate_event :: "html_event \<Rightarrow> validator \<Rightarrow> validator" where
  "validate_event (StartTag tag attrs) v = validate_start tag v"
| "validate_event (EndTag tag) v = validate_end tag v"
| "validate_event (StartEndTag tag attrs) v = (let v1 = validate_start tag v in
     if still_valid v1 then validate_end tag v1 else v1)"
| "validate_event (Data d) v = (if tag_stack v = [] \<and> strip d \<noteq> [] then v\<lparr>still_valid := False\<rparr> else v)"
| "validate_event (EntityRef n) v = v"
| "validate_event (CharRef n) v = v"
| "validate_event (Comment d) v = invalid_outside v"
| "validate_event (Decl d) v = invalid_outside v"
| "validate_event (UnknownDecl d) v = invalid_outside v"
| "validate_event (ProcInst d) v = invalid_outside v"

definition validator_is_valid :: "html_event list \<Rightarrow> bool" where
  "validator_is_valid events = (let v = fold validate_event events validator0 in
     still_valid v \<and> root_seen v \<and> tag_stack v = [])"

subsection \<open>The sanitizer\<close>

text \<open>\<open>html.escape(s, quote=True)\<close>\<close>

definition escape_char :: "char \<Rightarrow> string" where
  "escape_char c =
     (if c = CHR ''&'' then ''&amp;'' else if c = CHR ''<'' then ''&lt;'' else if c = CHR ''>'' then ''&gt;''
      else if c = CHR 0x22 then ''&quot;'' else if c = CHR 0x27 then ''&#x27;'' else [c])"

definition html_escape :: "string \<Rightarrow> string" where
  "html_escape s = concat (map escape_char s)"

definition kept_attr :: "string \<Rightarrow> bool" where
  "kept_attr name \<longleftrightarrow> \<not> (starts_with ''on'' name \<or> name \<in> set REMOVED_ATTRIBUTES)"

definition attr_text :: "string \<Rightarrow> string option \<Rightarrow> string" where
  "attr_text name value = (case value of
       None \<Rightarrow> CHR '' '' # name
     | Some v \<Rightarrow> CHR '' '' # name @ ''='' @ [CHR 0x22] @ html_escape v @ [CHR 0x22])"

definition serialize_attrs :: "html_attrs \<Rightarrow> string" where
  "serialize_attrs attrs = concat (map (\<lambda>(raw_name, raw_value).
     if \<not> kept_attr (lower raw_name) then [] else attr_text (lower raw_name) raw_value) attrs)"

record sanitizer =
  parts :: "string list"
  skipped_stack :: "string list"

definition sanitizer0 :: sanitizer where
  "sanitizer0 = \<lparr>parts = [], skipped_stack = []\<rparr>"

definition emit_part :: "string \<Rightarrow> sanitizer \<Rightarrow> sanitizer" where
  "emit_part p z = z\<lparr>parts := parts z @ [p]\<rparr>"

definition emit_outside :: "string \<Rightarrow> sanitizer \<Rightarrow> sanitizer" where
  "emit_outside p z = (if skipped_stack z = [] then emit_part p z else z)"

fun sanitize_event :: "html_event \<Rightarrow> sanitizer \<Rightarrow> sanitizer" where
  "sanitize_event (StartTag tag attrs) z = (let t = lower tag in
     case skipped_stack z of
       outer # _ \<Rightarrow> if t = outer then z\<lparr>skipped_stack := t # skipped_stack z\<rparr> else z
     | [] \<Rightarrow> if t \<in> set REMOVED_TAGS then z\<lparr>skipped_stack := [t]\<rparr>
         else emit_part (''<'' @ t @ serialize_attrs attrs @ ''>'') z)"
| "sanitize_event (EndTag tag) z = (let t = lower tag in
     case skipped_stack z of
       outer # rest \<Rightarrow> if t = outer then z\<lparr>skipped_stack := rest\<rparr> else z
     | [] \<Rightarrow> if t \<notin> set VOID_TAGS then emit_part (''</'' @ t @ ''>'') z else z)"
| "sanitize_event (StartEndTag tag attrs) z = (let t = lower tag in
     if skipped_stack z \<noteq> [] \<or> t \<in> set REMOVED_TAGS then z
     else emit_part (''<'' @ t @ serialize_attrs attrs @ ''>'') z)"
| "sanitize_event (Data d) z = emit_outside (html_escape d) z"
| "sanitize_event (EntityRef n) z = emit_outside (''&'' @ n @ '';'') z"
| "sanitize_event (CharRef n) z = emit_outside (''&#'' @ n @ '';'') z"
| "sanitize_event (Comment d) z = z"
| "sanitize_event (Decl d) z = z"
| "sanitize_event (UnknownDecl d) z = z"
| "sanitize_event (ProcInst d) z = z"

definition sanitize :: "html_event list \<Rightarrow> string" where
  "sanitize events = concat (parts (fold sanitize_event events sanitizer0))"

subsection \<open>The writer\<close>

definition artifact_source_id_match :: "string \<Rightarrow> bool" where
  "artifact_source_id_match s \<longleftrightarrow> s \<noteq> [] \<and>
     list_all (\<lambda>c. is_lower_az c \<or> is_ascii_digit c \<or> c = CHR ''_'') s"

record BrowserFailureArtifact =
  html_path :: fpath
  screenshot_path :: "fpath option"

text \<open>A screenshot argument: an adapter's \<open>RedactedPng\<close>, any other object, or none.\<close>

datatype screenshot = RedactedPng string | OtherScreenshot | NoScreenshot

definition PNG_MAGIC :: string where
  "PNG_MAGIC = [CHR 0x89, CHR ''P'', CHR ''N'', CHR ''G'', CHR 0x0D, CHR 0x0A, CHR 0x1A, CHR 0x0A]"

definition BrowserArtifactWriter :: "'s file_ops \<Rightarrow> fpath \<Rightarrow> ('s, fpath) py" where
  "BrowserArtifactWriter ops output_dir = thenP (f_mkdir ops output_dir) (ret output_dir)"

definition validate_source_id :: "string \<Rightarrow> unit result" where
  "validate_source_id source_id = (if \<not> artifact_source_id_match source_id
     then Inl (ValueError ''source_id must match [a-z0-9_]+'') else Inr ())"

definition validate_safe_html :: "(string \<Rightarrow> html_event list) \<Rightarrow> string option \<Rightarrow> string result" where
  "validate_safe_html tokens safe_html = (case safe_html of
       None \<Rightarrow> Inl (ValueError ''safe fragment is required'')
     | Some h \<Rightarrow> let fragment = strip h in
         if fragment = [] then Inl (ValueError ''safe fragment must be an adapter-supplied table fragment'')
         else if \<not> validator_is_valid (tokens fragment)
           then Inl (ValueError ''safe fragment must be an adapter-supplied single <table> root'')
         else Inr fragment)"

definition write_redacted_png :: "'s file_ops \<Rightarrow> fpath \<Rightarrow> string \<Rightarrow> string \<Rightarrow> screenshot \<Rightarrow> ('s, fpath option) py" where
  "write_redacted_png ops output_dir source_id artifact_id shot = (case shot of
       RedactedPng content \<Rightarrow>
         if \<not> starts_with PNG_MAGIC content then raise (ValueError ''redacted screenshot must be a PNG'')
         else let target = output_dir @ [source_id @ ''_'' @ artifact_id @ ''.png''] in
           thenP (f_write ops target content) (ret (Some target))
     | _ \<Rightarrow> ret None)"

text \<open>\<open>uuid4_hex\<close> is \<open>uuid4().hex\<close>.\<close>

definition write_failure :: "'s file_ops \<Rightarrow> (string \<Rightarrow> html_event list) \<Rightarrow> ('s, string) py \<Rightarrow> fpath \<Rightarrow> string \<Rightarrow>
    string option \<Rightarrow> screenshot \<Rightarrow> ('s, BrowserFailureArtifact) py" where
  "write_failure ops tokens uuid4_hex output_dir source_id safe_html shot =
     bindP (liftR (validate_source_id source_id)) (\<lambda>_.
     bindP (liftR (validate_safe_html tokens safe_html)) (\<lambda>fragment.
     let sanitized_html = sanitize (tokens fragment) in
     bindP uuid4_hex (\<lambda>artifact_id.
     let target = output_dir @ [source_id @ ''_'' @ artifact_id @ ''.html''] in
     thenP (f_write ops target (utf8 sanitized_html))
     (bindP (write_redacted_png ops output_dir source_id artifact_id shot) (\<lambda>png.
     ret \<lparr>html_path = target, screenshot_path = png\<rparr>)))))"

subsection \<open>The grammar of a table\<close>

definition blank :: "html_event \<Rightarrow> bool" where
  "blank e = (case e of Data d \<Rightarrow> strip d = [] | EntityRef n \<Rightarrow> True | CharRef n \<Rightarrow> True | _ \<Rightarrow> False)"

definition leaf :: "html_event \<Rightarrow> bool" where
  "leaf e = (case e of
       StartTag t a \<Rightarrow> lower t \<in> set VOID_TAGS
     | StartEndTag t a \<Rightarrow> lower t \<notin> set VOID_TAGS
     | EndTag t \<Rightarrow> False
     | _ \<Rightarrow> True)"

inductive balanced :: "html_event list \<Rightarrow> bool" where
  balanced_Nil: "balanced []"
| balanced_leaf: "leaf e \<Longrightarrow> balanced es \<Longrightarrow> balanced (e # es)"
| balanced_element: "lower t \<notin> set VOID_TAGS \<Longrightarrow> lower u = lower t \<Longrightarrow> balanced es \<Longrightarrow> balanced fs \<Longrightarrow>
    balanced (StartTag t a # es @ EndTag u # fs)"

text \<open>One table: an element, or a self-closed tag.\<close>

definition table_element :: "html_event list \<Rightarrow> bool" where
  "table_element es \<longleftrightarrow> (\<exists>t a. lower t = ''table'' \<and>
     (es = [StartEndTag t a] \<or> (\<exists>body u. es = StartTag t a # body @ [EndTag u] \<and> lower u = ''table'' \<and> balanced body)))"

definition single_table :: "html_event list \<Rightarrow> bool" where
  "single_table es \<longleftrightarrow> (\<exists>before element after. es = before @ element @ after \<and>
     list_all blank before \<and> table_element element \<and> list_all blank after)"

abbreviation inside :: "string list \<Rightarrow> validator" where
  "inside st \<equiv> \<lparr>root_seen = True, tag_stack = st, still_valid = True\<rparr>"

definition accepts :: "html_event list \<Rightarrow> validator \<Rightarrow> bool" where
  "accepts es v = (let w = fold validate_event es v in still_valid w \<and> root_seen w \<and> tag_stack w = [])"

lemma accepts_simps [simp]: "accepts [] v = (still_valid v \<and> root_seen v \<and> tag_stack v = [])"
  "accepts (e # es) v = accepts es (validate_event e v)"
  by (simp_all add: accepts_def Let_def)

lemma accepts_append: "accepts (es @ fs) v = accepts fs (fold validate_event es v)"
  by (simp add: accepts_def)

lemma invalid_stays: "\<not> still_valid v \<Longrightarrow> \<not> still_valid (validate_event e v)"
  by (cases e) (auto simp: validate_start_def validate_end_def invalid_outside_def Let_def split: list.splits)

lemma invalid_rejected: "\<not> still_valid v \<Longrightarrow> \<not> accepts es v"
  by (induction es arbitrary: v) (auto dest: invalid_stays)

lemma leaf_inside: "leaf e \<Longrightarrow> st \<noteq> [] \<Longrightarrow> validate_event e (inside st) = inside st"
  by (cases e) (auto simp: leaf_def validate_start_def validate_end_def invalid_outside_def Let_def)

lemma balanced_inside: "balanced es \<Longrightarrow> st \<noteq> [] \<Longrightarrow> fold validate_event es (inside st) = inside st"
proof (induction es arbitrary: st rule: balanced.induct)
  case (balanced_element t u es fs a)
  have "fold validate_event es (inside (lower t # st)) = inside (lower t # st)"
    by (rule balanced_element.IH(1)) simp
  then show ?case using balanced_element by (simp add: validate_start_def validate_end_def Let_def)
qed (simp_all add: leaf_inside)

lemma table_not_void: "''table'' \<notin> set VOID_TAGS"
  by (simp add: VOID_TAGS_def)

lemma after_root: "accepts es (inside []) \<longleftrightarrow> list_all blank es"
proof (induction es)
  case (Cons e es)
  have n: "\<not> accepts es \<lparr>root_seen = True, tag_stack = [], still_valid = False\<rparr>" by (rule invalid_rejected) simp
  show ?case using Cons n
    by (cases e) (auto simp: blank_def validate_start_def validate_end_def invalid_outside_def Let_def)
qed simp

lemma element_split:
  assumes "accepts es (inside (x # st))" and "\<forall>y \<in> set (x # st). y \<notin> set VOID_TAGS"
  shows "\<exists>body u fs. es = body @ EndTag u # fs \<and> balanced body \<and> lower u = x \<and> accepts fs (inside st)"
  using assms
proof (induction "length es" arbitrary: es x st rule: less_induct)
  case less
  show ?case
  proof (cases es)
    case Nil
    then show ?thesis using less.prems(1) by simp
  next
    case (Cons e es')
    have n: "\<not> accepts es' \<lparr>root_seen = True, tag_stack = s, still_valid = False\<rparr>" for s
      by (rule invalid_rejected) simp
    show ?thesis
    proof (cases "leaf e")
      case True
      then have "accepts es' (inside (x # st))" using less.prems(1) Cons by (simp add: leaf_inside)
      with less.hyps [of es' x st] less.prems(2) Cons obtain body u fs
        where "es' = body @ EndTag u # fs" "balanced body" "lower u = x" "accepts fs (inside st)" by auto
      then show ?thesis using Cons balanced_leaf [OF True] by (metis append_Cons)
    next
      case False
      show ?thesis
      proof (cases e)
        case (EndTag u)
        then have "lower u = x \<and> accepts es' (inside st)"
          using less.prems(1) Cons n by (auto simp: validate_end_def split: if_splits)
        then show ?thesis using Cons EndTag balanced_Nil by (metis append_Nil)
      next
        case (StartTag t a)
        then have t: "lower t \<notin> set VOID_TAGS" using False by (simp add: leaf_def)
        then have "accepts es' (inside (lower t # x # st))"
          using less.prems(1) Cons StartTag by (simp add: validate_start_def Let_def)
        with less.hyps [of es' "lower t" "x # st"] less.prems(2) Cons t obtain b1 u1 f1
          where 1: "es' = b1 @ EndTag u1 # f1" "balanced b1" "lower u1 = lower t" "accepts f1 (inside (x # st))" by auto
        have "length f1 < length es" using 1(1) Cons by simp
        from less.hyps [OF this 1(4) less.prems(2)] obtain b2 u fs
          where 2: "f1 = b2 @ EndTag u # fs" "balanced b2" "lower u = x" "accepts fs (inside st)" by blast
        have "es = (StartTag t a # b1 @ EndTag u1 # b2) @ EndTag u # fs" using Cons StartTag 1(1) 2(1) by simp
        then show ?thesis using balanced_element [OF t 1(3,2) 2(2)] 2(3,4) by blast
      next
        case (StartEndTag t a)
        then have t: "lower t \<in> set VOID_TAGS" using False by (simp add: leaf_def)
        then have "x \<noteq> lower t" using less.prems(2) by auto
        then show ?thesis using less.prems(1) Cons StartEndTag t n by (simp add: validate_start_def validate_end_def Let_def)
      qed (use False in \<open>simp_all add: leaf_def\<close>)
    qed
  qed
qed

lemma before_root: "accepts es validator0 \<longleftrightarrow> single_table es"
proof
  assume "single_table es"
  then obtain before elm after where es: "es = before @ elm @ after" "list_all blank before" "table_element elm"
    "list_all blank after" by (auto simp: single_table_def)
  have b: "fold validate_event before validator0 = validator0"
    using es(2)
  proof (induction before)
    case (Cons e bs)
    then show ?case by (cases e) (simp_all add: blank_def validator0_def)
  qed simp
  have "fold validate_event elm validator0 = inside []"
    using es(3) balanced_inside [of _ "[''table'']"] table_not_void
    by (auto simp: table_element_def validate_start_def validate_end_def validator0_def Let_def)
  then show "accepts es validator0" using es b by (simp add: accepts_append after_root)
next
  show "accepts es validator0 \<Longrightarrow> single_table es"
  proof (induction es)
    case (Cons e es)
    have n: "\<not> accepts es \<lparr>root_seen = r, tag_stack = s, still_valid = False\<rparr>" for r s
      by (rule invalid_rejected) simp
    show ?case
    proof (cases "blank e")
      case True
      then have "validate_event e validator0 = validator0" by (cases e) (simp_all add: blank_def validator0_def)
      then have "single_table es" using Cons by simp
      then obtain before elm after where "es = before @ elm @ after" "list_all blank before" "table_element elm"
        "list_all blank after" by (auto simp: single_table_def)
      then show ?thesis using True unfolding single_table_def
        by (intro exI [of _ "e # before"] exI [of _ elm] exI [of _ after]) simp
    next
      case False
      show ?thesis
      proof (cases e)
        case (StartTag t a)
        then have t: "lower t = ''table''" "accepts es (inside [''table''])"
          using Cons.prems n table_not_void by (auto simp: validate_start_def validator0_def Let_def split: if_splits)
        obtain body u fs where b: "es = body @ EndTag u # fs" "balanced body" "lower u = ''table''" "accepts fs (inside [])"
          using element_split [OF t(2)] table_not_void by auto
        have "table_element (StartTag t a # body @ [EndTag u])" using t(1) b(2,3) by (auto simp: table_element_def)
        then show ?thesis unfolding single_table_def
          using b(1,4) StartTag
          by (intro exI [of _ "[]"] exI [of _ "StartTag t a # body @ [EndTag u]"] exI [of _ fs]) (simp add: after_root)
      next
        case (StartEndTag t a)
        then have t: "lower t = ''table''" "accepts es (inside [])"
          using Cons.prems n table_not_void
          by (auto simp: validate_start_def validate_end_def validator0_def Let_def split: if_splits)
        then show ?thesis unfolding single_table_def using StartEndTag
          by (intro exI [of _ "[]"] exI [of _ "[StartEndTag t a]"] exI [of _ es]) (auto simp: after_root table_element_def)
      qed (use Cons.prems n False in \<open>auto simp: blank_def validate_end_def invalid_outside_def validator0_def\<close>)
    qed
  qed (simp add: validator0_def)
qed

text \<open>C30: The validator is exact. It accepts a sequence of parser events exactly when that is one table element
  with balanced content (or one self-closed table tag) and nothing around it but white space and character
  references.\<close>

theorem validator_accepts_single_table: "validator_is_valid es \<longleftrightarrow> single_table es"
  using before_root [of es] by (simp add: validator_is_valid_def accepts_def)

subsection \<open>What the sanitizer writes\<close>

definition clean_attrs :: "html_attrs \<Rightarrow> html_attrs" where
  "clean_attrs attrs = filter (\<lambda>(n, v). kept_attr n) (map (\<lambda>(n, v). (lower n, v)) attrs)"

fun clean_event :: "html_event \<Rightarrow> html_event" where
  "clean_event (StartTag t a) = StartTag (lower t) (clean_attrs a)"
| "clean_event (StartEndTag t a) = StartTag (lower t) (clean_attrs a)"
| "clean_event (EndTag t) = EndTag (lower t)"
| "clean_event e = e"

fun event_text :: "html_event \<Rightarrow> string" where
  "event_text (StartTag t a) = ''<'' @ t @ concat (map (\<lambda>(n, v). attr_text n v) a) @ ''>''"
| "event_text (EndTag t) = ''</'' @ t @ ''>''"
| "event_text (Data d) = html_escape d"
| "event_text (EntityRef n) = ''&'' @ n @ '';''"
| "event_text (CharRef n) = ''&#'' @ n @ '';''"
| "event_text _ = []"

fun safe_event :: "html_event \<Rightarrow> bool" where
  "safe_event (StartTag t a) = (t \<notin> set REMOVED_TAGS \<and> list_all (\<lambda>(n, v). kept_attr n) a)"
| "safe_event (EndTag t) = (t \<notin> set VOID_TAGS)"
| "safe_event (StartEndTag t a) = False"
| "safe_event (Data d) = True"
| "safe_event (EntityRef n) = True"
| "safe_event (CharRef n) = True"
| "safe_event _ = False"

lemma serialize_attrs_clean: "serialize_attrs a = concat (map (\<lambda>(n, v). attr_text n v) (clean_attrs a))"
  by (induction a) (auto simp: serialize_attrs_def clean_attrs_def)

lemma clean_attrs_kept: "list_all (\<lambda>(n, v). kept_attr n) (clean_attrs a)"
  by (auto simp: list_all_iff clean_attrs_def)

text \<open>One event emits its clean text or nothing, and what it emits is safe.\<close>

lemma sanitize_event_parts:
  "parts (sanitize_event e z) = parts z \<or>
   parts (sanitize_event e z) = parts z @ [event_text (clean_event e)] \<and> safe_event (clean_event e)"
  by (cases e) (auto simp: emit_part_def emit_outside_def serialize_attrs_clean clean_attrs_kept Let_def split: list.splits)

lemma sanitize_run:
  "\<exists>out. parts (fold sanitize_event es z) = parts z @ map event_text out \<and> list_all safe_event out \<and>
    subseq out (map clean_event es)"
proof (induction es arbitrary: z)
  case (Cons e es)
  obtain out where out: "parts (fold sanitize_event es (sanitize_event e z)) = parts (sanitize_event e z) @ map event_text out"
    "list_all safe_event out" "subseq out (map clean_event es)" using Cons by blast
  show ?case
    using sanitize_event_parts [of e z]
  proof (elim disjE conjE)
    assume "parts (sanitize_event e z) = parts z"
    then show ?thesis using out by (intro exI [of _ out]) auto
  next
    assume "parts (sanitize_event e z) = parts z @ [event_text (clean_event e)]" "safe_event (clean_event e)"
    then show ?thesis using out by (intro exI [of _ "clean_event e # out"]) auto
  qed
qed simp

lemma escape_clean: "c \<in> set (html_escape d) \<Longrightarrow> c \<notin> {CHR ''<'', CHR ''>'', CHR 0x22, CHR 0x27}"
  by (auto simp: html_escape_def escape_char_def split: if_splits)

text \<open>What the sanitizer writes is safe, whatever the parser's events are: it is the text of a subsequence
  of the events with their names in lower case and their attributes filtered, in which no start tag is one
  of the removed tags and no attribute is an event handler or one of the removed attributes; comments,
  declarations and processing instructions are gone; and text and attribute values are escaped, without
  angle brackets or quotes.\<close>

theorem sanitized_is_safe:
  "\<exists>out. sanitize es = concat (map event_text out) \<and> subseq out (map clean_event es) \<and>
    (\<forall>t a. StartTag t a \<in> set out \<longrightarrow> t \<notin> set REMOVED_TAGS \<and>
      (\<forall>(n, v) \<in> set a. \<not> starts_with ''on'' n \<and> n \<notin> set REMOVED_ATTRIBUTES)) \<and>
    (\<forall>d. Comment d \<notin> set out \<and> Decl d \<notin> set out \<and> UnknownDecl d \<notin> set out \<and> ProcInst d \<notin> set out) \<and>
    (\<forall>d. \<forall>c \<in> set (html_escape d). c \<notin> {CHR ''<'', CHR ''>'', CHR 0x22, CHR 0x27})"
proof -
  obtain out where out: "sanitize es = concat (map event_text out)" "list_all safe_event out" "subseq out (map clean_event es)"
    using sanitize_run [of es sanitizer0] by (auto simp: sanitize_def sanitizer0_def)
  have safe: "e \<in> set out \<Longrightarrow> safe_event e" for e using out(2) by (simp add: list_all_iff)
  have "StartTag t a \<in> set out \<Longrightarrow> t \<notin> set REMOVED_TAGS \<and>
      (\<forall>(n, v) \<in> set a. \<not> starts_with ''on'' n \<and> n \<notin> set REMOVED_ATTRIBUTES)" for t a
    using safe [of "StartTag t a"] by (auto simp: list_all_iff kept_attr_def)
  moreover have "Comment d \<notin> set out \<and> Decl d \<notin> set out \<and> UnknownDecl d \<notin> set out \<and> ProcInst d \<notin> set out" for d
    using safe [of "Comment d"] safe [of "Decl d"] safe [of "UnknownDecl d"] safe [of "ProcInst d"] by auto
  ultimately show ?thesis using out(1,3) escape_clean by blast
qed

theorem sanitized_is_safe_witness:
  "sanitize [StartTag ''table'' [(''onclick'', Some ''x''), (''id'', Some ''a''), (''Token'', Some ''t'')], StartTag ''script'' [],
      Data ''alert'', EndTag ''script'', Data ''a<b'', EndTag ''table''] =
    ''<table id='' @ [CHR 0x22] @ ''a'' @ [CHR 0x22] @ ''>a&lt;b</table>'' \<and>
   (\<exists>out. subseq out (map clean_event [StartTag ''table'' []]) \<and> sanitize [StartTag ''table'' []] = concat (map event_text out))"
proof (intro conjI)
  show "sanitize [StartTag ''table'' [(''onclick'', Some ''x''), (''id'', Some ''a''), (''Token'', Some ''t'')], StartTag ''script'' [],
      Data ''alert'', EndTag ''script'', Data ''a<b'', EndTag ''table''] =
    ''<table id='' @ [CHR 0x22] @ ''a'' @ [CHR 0x22] @ ''>a&lt;b</table>''"
    by code_simp
  show "\<exists>out. subseq out (map clean_event [StartTag ''table'' []]) \<and> sanitize [StartTag ''table'' []] = concat (map event_text out)"
    using sanitized_is_safe [of "[StartTag ''table'' []]"] by (elim exE conjE) (intro exI conjI; assumption)
qed

text \<open>
  A removed tag that has no end tag swallows what follows. \<open>input\<close> is both void and removed, so a valid table
  with an input field loses everything after it, its own end tag included.
\<close>

lemma skipped_rest:
  "skipped_stack z = t # st \<Longrightarrow> \<forall>e \<in> set es. \<forall>u. e = EndTag u \<longrightarrow> lower u \<noteq> t \<Longrightarrow>
    parts (fold sanitize_event es z) = parts z"
proof (induction es arbitrary: z st)
  case (Cons e es)
  have "\<exists>st'. skipped_stack (sanitize_event e z) = t # st'" "parts (sanitize_event e z) = parts z"
    using Cons.prems by (cases e; auto simp: emit_outside_def Let_def)+
  then show ?case using Cons.IH Cons.prems(2) by auto
qed simp

theorem removed_tag_swallows_rest:
  assumes "skipped_stack (fold sanitize_event es sanitizer0) = []" and "lower t \<in> set REMOVED_TAGS"
    and "\<forall>e \<in> set rest. \<forall>u. e = EndTag u \<longrightarrow> lower u \<noteq> lower t"
  shows "sanitize (es @ StartTag t a # rest) = sanitize es"
  using assms by (simp add: sanitize_def skipped_rest [of _ "lower t" "[]"] Let_def)

lemma input_swallows_table:
  "validator_is_valid [StartTag ''table'' [], StartTag ''input'' [], StartTag ''td'' [], Data ''ok'', EndTag ''td'', EndTag ''table''] \<and>
   sanitize [StartTag ''table'' [], StartTag ''input'' [], StartTag ''td'' [], Data ''ok'', EndTag ''td'', EndTag ''table''] = ''<table>'' \<and>
   \<not> validator_is_valid [StartTag ''table'' [], StartEndTag ''br'' [], EndTag ''table'']"
  by code_simp

text \<open>Files outside the output directory are left alone.\<close>

definition confined :: "('s \<Rightarrow> fpath \<Rightarrow> (string \<times> rat) option) \<Rightarrow> fpath \<Rightarrow> 's \<Rightarrow> 's \<Rightarrow> bool" where
  "confined files dir s t \<longleftrightarrow> (\<forall>p. (\<nexists>name. p = dir @ [name]) \<longrightarrow> files t p = files s p)"

lemma confined_order: "reflp (confined files dir)" "transp (confined files dir)"
  by (auto simp: confined_def reflp_def transp_def)

lemma confined_write: "file_store ops files \<Longrightarrow> keeps (confined files dir) (f_write ops (dir @ [name]) c)"
  unfolding confined_def by (rule keepsI) (metis file_store.write_other)

lemmas confined_rules = keeps_bindP [OF confined_order(2)] keeps_thenP [OF confined_order(2)]
  keeps_pure [OF confined_order(1)] confined_write

lemma write_failure_confined:
  assumes fs: "file_store ops files" and uuid: "keeps (\<lambda>s t. files t = files s) uuid4_hex"
  shows "keeps (confined files output_dir) (write_failure ops tokens uuid4_hex output_dir source_id safe_html shot)"
proof -
  have "keeps (confined files output_dir) uuid4_hex"
    using uuid by (simp add: keeps_def confined_def)
  then show ?thesis
    by (auto simp: write_failure_def write_redacted_png_def Let_def split: screenshot.split intro!: confined_rules fs)
qed

text \<open>What a call that returns has done.\<close>

lemma validated_fragment: "validate_safe_html tokens safe_html = Inr fragment \<Longrightarrow>
    \<exists>h. safe_html = Some h \<and> fragment = strip h \<and> single_table (tokens (strip h))"
  by (auto simp: validate_safe_html_def validator_is_valid_def before_root [symmetric] accepts_def Let_def
      split: option.splits if_splits)

lemma write_redacted_png_Inr:
  assumes "file_store ops files" and "write_redacted_png ops dir source_id aid shot s = (Inr y, t)"
  shows "(p \<noteq> dir @ [source_id @ ''_'' @ aid @ ''.png''] \<longrightarrow> files t p = files s p) \<and>
    (y \<noteq> None \<longrightarrow> (\<exists>c. shot = RedactedPng c \<and> starts_with PNG_MAGIC c))"
  using assms(2) file_store.write_other [OF assms(1)]
  by (auto simp: write_redacted_png_def thenP_eq_Inr Let_def split: screenshot.splits if_splits)

lemma write_failure_Inr:
  assumes "write_failure ops tokens uuid4_hex output_dir source_id safe_html shot s = (Inr art, t)"
  obtains fragment aid u s1 s2 where "validate_safe_html tokens safe_html = Inr fragment"
    and "f_write ops (html_path art) (utf8 (sanitize (tokens fragment))) s1 = (Inr u, s2)"
    and "write_redacted_png ops output_dir source_id aid shot s2 = (Inr (screenshot_path art), t)"
    and "html_path art = output_dir @ [source_id @ ''_'' @ aid @ ''.html'']"
  using assms by (auto simp: write_failure_def bindP_eq_Inr thenP_eq_Inr Let_def)


definition demo_tokens :: "string \<Rightarrow> html_event list" where
  "demo_tokens h = (if h = ''<table>a&b</table>'' then [StartTag ''table'' [], Data ''a&b'', EndTag ''table''] else [Data h])"


theorem removed_tag_swallows_rest_witness:
  "sanitize ([StartTag ''table'' []] @ StartTag ''input'' [] # [Data ''ok'', EndTag ''table'']) = sanitize [StartTag ''table'' []]"
proof (rule removed_tag_swallows_rest)
  show "skipped_stack (fold sanitize_event [StartTag ''table'' []] sanitizer0) = []" "lower ''input'' \<in> set REMOVED_TAGS"
    by code_simp+
  have "lower ''table'' \<noteq> lower ''input''" by code_simp
  then show "\<forall>e \<in> set [Data ''ok'', EndTag ''table'']. \<forall>u. e = EndTag u \<longrightarrow> lower u \<noteq> lower ''input''" by simp
qed

end
