(* ===== verification/BrowserRuntime.thy ===== *)
theory BrowserRuntime
  imports BrowserArtifacts Observability
begin

section \<open>The managed Edge runtime (\<open>browser_runtime.py\<close>, \<open>browser_worker.py\<close>)\<close>

text \<open>
  \<open>BrowserRuntimeSettings.from_environment\<close> and its checks, \<open>ManagedEdgeRuntime.run\<close> with its
  \<open>with\<close>, \<open>except BaseException\<close> and \<open>finally\<close>, and the arguments of the browser worker. Playwright is
  the record of the operations that the protocol classes name (\<open>gateway\<close>); pages and contexts are opaque.

  The theorems: accepted settings name paths outside the repository and positive timeouts; once a context
  was launched, the page and the context are closed exactly once and in this order on every path, and an
  error of the operation is the one that the caller sees, whatever the cleanup does. A relation on states
  that every call of the gateway, the operation and the writer keep is kept by a run (\<open>runtime_run_keeps\<close>).
\<close>

subsection \<open>\<open>float(str)\<close>\<close>

text \<open>
  Surrounding white space, a sign, then \<open>inf\<close>, \<open>infinity\<close>, \<open>nan\<close> in any case, or a decimal number with an
  optional fraction and exponent, single underscores allowed between digits. The value is the exact
  rational, infinite from the point where a double overflows and zero where it underflows.
\<close>

fun us_digits :: "bool \<Rightarrow> string \<Rightarrow> string \<times> string" where
  "us_digits after_digit [] = ([], [])"
| "us_digits after_digit (c # s) =
     (if is_ascii_digit c then (case us_digits True s of (d, r) \<Rightarrow> (c # d, r))
      else if c = CHR ''_'' \<and> after_digit \<and> s \<noteq> [] \<and> is_ascii_digit (hd s) then us_digits False s
      else ([], c # s))"

definition float_exponent :: "string \<Rightarrow> int option" where
  "float_exponent s = (case s of
       [] \<Rightarrow> Some 0
     | c # t \<Rightarrow> if c \<noteq> CHR ''e'' \<and> c \<noteq> CHR ''E'' then None
         else let neg = (t \<noteq> [] \<and> hd t = CHR ''-''); u = (if t \<noteq> [] \<and> (hd t = CHR ''-'' \<or> hd t = CHR ''+'') then tl t else t) in
           (case us_digits False u of (d, r) \<Rightarrow> if d = [] \<or> r \<noteq> [] then None
             else Some (if neg then - int (digits_val d) else int (digits_val d))))"

definition float_decimal :: "string \<Rightarrow> rat option" where
  "float_decimal s = (case us_digits False s of (d, r) \<Rightarrow>
     (case (if r \<noteq> [] \<and> hd r = CHR ''.'' then us_digits False (tl r) else ([], r)) of (f, r') \<Rightarrow>
       if d = [] \<and> f = [] then None
       else map_option (\<lambda>x. (of_nat (digits_val (d @ f)) / 10 ^ length f) * (if x < 0 then 1 / 10 ^ nat (- x) else 10 ^ nat x))
         (float_exponent r')))"

definition to_double :: "rat \<Rightarrow> pyfloat" where
  "to_double r = (if 2 ^ 1024 - 2 ^ 970 \<le> r then PosInf else if r \<le> - (2 ^ 1024 - 2 ^ 970) then NegInf
     else if \<bar>r\<bar> \<le> 1 / 2 ^ 1075 then Fin 0 else Fin r)"

definition parse_float :: "string \<Rightarrow> pyfloat option" where
  "parse_float s = (let t = strip s; neg = (t \<noteq> [] \<and> hd t = CHR ''-'');
       u = (if t \<noteq> [] \<and> (hd t = CHR ''-'' \<or> hd t = CHR ''+'') then tl t else t); v = lower u in
     if v = ''inf'' \<or> v = ''infinity'' then Some (if neg then NegInf else PosInf)
     else if v = ''nan'' then Some NaN
     else map_option (\<lambda>r. to_double (if neg then - r else r)) (float_decimal u))"

subsection \<open>Settings\<close>

record BrowserRuntimeSettings =
  edge_executable_path :: fpath
  user_data_dir :: fpath
  failure_snapshot_dir :: fpath
  page_timeout_seconds :: rat
  action_timeout_seconds :: rat

definition require_external_path :: "path_ops \<Rightarrow> (string \<Rightarrow> string option) \<Rightarrow> string \<Rightarrow> fpath \<Rightarrow> fpath result" where
  "require_external_path paths environ name repository_root =
     (let raw = environ_get environ name [] in
      if strip raw = [] then Inl (BrowserRuntimeConfigurationError (name @ '' is required''))
      else if \<not> is_absolute paths raw then Inl (BrowserRuntimeConfigurationError (name @ '' must be absolute''))
      else if is_relative_to (resolve paths raw) repository_root
        then Inl (BrowserRuntimeConfigurationError (name @ '' must be outside the repository root''))
      else Inr (resolve paths raw))"

definition require_existing_external_file :: "'s file_ops \<Rightarrow> path_ops \<Rightarrow> (string \<Rightarrow> string option) \<Rightarrow> string \<Rightarrow>
    fpath \<Rightarrow> ('s, fpath) py" where
  "require_existing_external_file ops paths environ name repository_root =
     bindP (liftR (require_external_path paths environ name repository_root)) (\<lambda>p.
     bindP (f_exists ops p) (\<lambda>exists.
     if \<not> exists then raise (BrowserRuntimeConfigurationError (name @ '' must point to an existing file''))
     else bindP (f_is_file ops p) (\<lambda>is_file.
       if \<not> is_file then raise (BrowserRuntimeConfigurationError (name @ '' must point to an existing file''))
       else ret p)))"

text \<open>\<open>path.exists() and not path.is_dir()\<close>\<close>

definition is_not_directory :: "'s file_ops \<Rightarrow> fpath \<Rightarrow> ('s, bool) py" where
  "is_not_directory ops p = bindP (f_exists ops p) (\<lambda>exists.
     if exists then bindP (f_is_dir ops p) (\<lambda>is_dir. ret (\<not> is_dir)) else ret False)"

definition require_external_directory :: "'s file_ops \<Rightarrow> path_ops \<Rightarrow> (string \<Rightarrow> string option) \<Rightarrow> string \<Rightarrow>
    fpath \<Rightarrow> ('s, fpath) py" where
  "require_external_directory ops paths environ name repository_root =
     bindP (liftR (require_external_path paths environ name repository_root)) (\<lambda>p.
     bindP (is_not_directory ops p) (\<lambda>bad.
     if bad then raise (BrowserRuntimeConfigurationError (name @ '' must point to a directory'')) else ret p))"

definition require_positive_timeout :: "(string \<Rightarrow> string option) \<Rightarrow> string \<Rightarrow> rat result" where
  "require_positive_timeout environ name =
     (let raw = environ_get environ name [] in
      if strip raw = [] then Inl (BrowserRuntimeConfigurationError (name @ '' is required''))
      else case parse_float raw of
        Some (Fin r) \<Rightarrow> if r \<le> 0 then Inl (BrowserRuntimeConfigurationError (name @ '' must be a finite positive number''))
          else Inr r
      | _ \<Rightarrow> Inl (BrowserRuntimeConfigurationError (name @ '' must be a finite positive number'')))"

definition ensure_snapshot_directory :: "'s file_ops \<Rightarrow> fpath \<Rightarrow> ('s, unit) py" where
  "ensure_snapshot_directory ops p = bindP (is_not_directory ops p) (\<lambda>bad.
     if bad then raise (BrowserRuntimeConfigurationError ''BROWSER_FAILURE_SNAPSHOT_DIR must point to a directory'')
     else tryP (f_mkdir ops p) (\<lambda>e. case e of
         OSError m \<Rightarrow> Some (raise (BrowserRuntimeConfigurationError ''BROWSER_FAILURE_SNAPSHOT_DIR could not be created''))
       | _ \<Rightarrow> None))"

definition browser_settings_from_environment :: "'s file_ops \<Rightarrow> path_ops \<Rightarrow> (string \<Rightarrow> string option) \<Rightarrow> string \<Rightarrow>
    ('s, BrowserRuntimeSettings) py" where
  "browser_settings_from_environment ops paths environ repository_root =
     (let base = resolve paths repository_root in
     bindP (require_existing_external_file ops paths environ ''BROWSER_EDGE_EXECUTABLE_PATH'' base) (\<lambda>edge.
     bindP (require_external_directory ops paths environ ''BROWSER_USER_DATA_DIR'' base) (\<lambda>user_data.
     bindP (require_external_directory ops paths environ ''BROWSER_FAILURE_SNAPSHOT_DIR'' base) (\<lambda>snapshots.
     bindP (liftR (require_positive_timeout environ ''BROWSER_PAGE_TIMEOUT_SECONDS'')) (\<lambda>page_timeout.
     bindP (liftR (require_positive_timeout environ ''BROWSER_ACTION_TIMEOUT_SECONDS'')) (\<lambda>action_timeout.
     thenP (ensure_snapshot_directory ops snapshots)
     (ret \<lparr>edge_executable_path = edge, user_data_dir = user_data, failure_snapshot_dir = snapshots,
        page_timeout_seconds = page_timeout, action_timeout_seconds = action_timeout\<rparr>)))))))"

subsection \<open>Accepted settings\<close>

lemma external_path:
  "require_external_path paths environ name root' = Inr p \<Longrightarrow>
    \<exists>raw. environ name = Some raw \<and> is_absolute paths raw \<and> p = resolve paths raw \<and> \<not> is_relative_to p root'"
  by (cases "environ name") (auto simp: require_external_path_def environ_get_def Let_def split: if_splits)

lemma positive_timeout: "require_positive_timeout environ name = Inr r \<Longrightarrow> 0 < r"
  by (auto simp: require_positive_timeout_def Let_def split: if_splits option.splits pyfloat.splits)

lemma required_file:
  assumes fs: "file_store ops files" and r: "require_existing_external_file ops paths environ name root' s = (Inr p, t)"
  shows "require_external_path paths environ name root' = Inr p" "files t = files s" "files s p \<noteq> None"
proof -
  obtain s1 where e: "require_external_path paths environ name root' = Inr p" "f_exists ops p s = (Inr True, s1)"
      "f_is_file ops p s1 = (Inr True, t)"
    using r by (auto simp: require_existing_external_file_def bindP_eq_Inr liftR_def split: if_splits)
  show "require_external_path paths environ name root' = Inr p" by (rule e(1))
  have "files s1 = files s" "files t = files s1" "files s1 p \<noteq> None"
    using file_store.exists_files [OF fs e(2)] file_store.is_file_files [OF fs e(3)] file_store.is_file_Inr [OF fs e(3)]
    by simp_all
  then show "files t = files s" "files s p \<noteq> None" by simp_all
qed

lemma is_not_directory_keeps:
  assumes fs: "file_store ops files"
  shows "keeps (\<lambda>s t. files t = files s) (is_not_directory ops p)"
proof (rule keepsI)
  fix s r t assume b: "is_not_directory ops p s = (r, t)"
  obtain x s1 where x: "f_exists ops p s = (x, s1)" by (cases "f_exists ops p s")
  obtain y s2 where y: "f_is_dir ops p s1 = (y, s2)" by (cases "f_is_dir ops p s1")
  have "files s1 = files s" "files s2 = files s1"
    using file_store.exists_files [OF fs x] file_store.is_dir_files [OF fs y] .
  then show "files t = files s"
    using b x y by (auto simp: is_not_directory_def bindP_def split: sum.splits if_splits)
qed

lemma required_directory:
  assumes fs: "file_store ops files" and r: "require_external_directory ops paths environ name root' s = (Inr p, t)"
  shows "require_external_path paths environ name root' = Inr p" "files t = files s"
proof -
  obtain b where e: "require_external_path paths environ name root' = Inr p" "is_not_directory ops p s = (Inr b, t)"
    using r by (auto simp: require_external_directory_def bindP_eq_Inr liftR_def split: if_splits)
  show "require_external_path paths environ name root' = Inr p" by (rule e(1))
  show "files t = files s" using keepsD [OF is_not_directory_keeps [OF fs] e(2)] .
qed

lemma snapshot_directory_keeps:
  assumes fs: "file_store ops files"
  shows "keeps (\<lambda>s t. files t = files s) (ensure_snapshot_directory ops p)"
  unfolding ensure_snapshot_directory_def
proof (rule keeps_bindP [OF _ is_not_directory_keeps [OF fs]])
  show t: "transp (\<lambda>s t. files t = files s)" by (simp add: transp_def)
  have "keeps (\<lambda>s t. files t = files s) (f_mkdir ops p)" using file_store.mkdir_files [OF fs] by (rule keepsI)
  then show "keeps (\<lambda>s t. files t = files s) (if bad then raise (BrowserRuntimeConfigurationError ''BROWSER_FAILURE_SNAPSHOT_DIR must point to a directory'')
     else tryP (f_mkdir ops p) (\<lambda>e. case e of
         OSError m \<Rightarrow> Some (raise (BrowserRuntimeConfigurationError ''BROWSER_FAILURE_SNAPSHOT_DIR could not be created''))
       | _ \<Rightarrow> None))" for bad
    by (auto intro!: keeps_tryP [OF t] keeps_pure simp: reflp_def split: exn.splits)
qed

definition demo_paths :: path_ops where
  "demo_paths = \<lparr>is_absolute = (\<lambda>r. r \<noteq> [] \<and> hd r = CHR ''/''), resolve = (\<lambda>r. [r])\<rparr>"

definition demo_environ :: "string \<Rightarrow> string option" where
  "demo_environ = map_of [(''BROWSER_EDGE_EXECUTABLE_PATH'', ''/edge''), (''BROWSER_USER_DATA_DIR'', ''/user''),
     (''BROWSER_FAILURE_SNAPSHOT_DIR'', ''/snap''), (''BROWSER_PAGE_TIMEOUT_SECONDS'', '' 2.5''), (''BROWSER_ACTION_TIMEOUT_SECONDS'', ''1e1'')]"

definition demo_edge_disk :: disk where
  "demo_edge_disk = \<lparr>disk_files = [([''/edge''], ''x'', 5)], disk_dirs = [[''/snap'']], disk_now = 60, disk_locked = False\<rparr>"

lemma small_is_double: "2 ^ 1000 \<ge> r \<Longrightarrow> 1 \<le> r \<Longrightarrow> to_double r = Fin r"
proof -
  assume r: "2 ^ 1000 \<ge> r" "1 \<le> r"
  have "(2::rat) ^ 1000 < 2 ^ 1024 - 2 ^ 970" "(1::rat) / 2 ^ 1075 < 1" by simp_all
  then have "\<not> 2 ^ 1024 - 2 ^ 970 \<le> r" "\<not> r \<le> - (2 ^ 1024 - 2 ^ 970)" "\<not> \<bar>r\<bar> \<le> 1 / 2 ^ 1075" using r by linarith+
  then show ?thesis by (simp only: to_double_def if_False)
qed

lemma demo_timeouts:
  "require_positive_timeout demo_environ ''BROWSER_PAGE_TIMEOUT_SECONDS'' = Inr (5 / 2)"
  "require_positive_timeout demo_environ ''BROWSER_ACTION_TIMEOUT_SECONDS'' = Inr 10"
proof -
  have "float_decimal ''2.5'' = Some (5 / 2)" "float_decimal ''1e1'' = Some 10" "strip '' 2.5'' = ''2.5''" "strip ''1e1'' = ''1e1''"
    "lower ''2.5'' = ''2.5''" "lower ''1e1'' = ''1e1''" by code_simp+
  moreover have "to_double (5 / 2) = Fin (5 / 2)" "to_double 10 = Fin 10" by (rule small_is_double; simp)+
  ultimately show "require_positive_timeout demo_environ ''BROWSER_PAGE_TIMEOUT_SECONDS'' = Inr (5 / 2)"
    "require_positive_timeout demo_environ ''BROWSER_ACTION_TIMEOUT_SECONDS'' = Inr 10"
    by (simp_all add: require_positive_timeout_def demo_environ_def environ_get_def parse_float_def Let_def)
qed

lemma demo_settings_run:
  "\<exists>st t. browser_settings_from_environment disk_ops demo_paths demo_environ ''/repo'' demo_edge_disk = (Inr st, t) \<and>
     page_timeout_seconds st = 5 / 2"
proof -
  let ?r = "resolve demo_paths ''/repo''" and ?d = demo_edge_disk
  have "require_existing_external_file disk_ops demo_paths demo_environ ''BROWSER_EDGE_EXECUTABLE_PATH'' ?r ?d = (Inr [''/edge''], ?d)"
    "require_external_directory disk_ops demo_paths demo_environ ''BROWSER_USER_DATA_DIR'' ?r ?d = (Inr [''/user''], ?d)"
    "require_external_directory disk_ops demo_paths demo_environ ''BROWSER_FAILURE_SNAPSHOT_DIR'' ?r ?d = (Inr [''/snap''], ?d)"
    "fst (ensure_snapshot_directory disk_ops [''/snap''] ?d) = Inr ()"
    by code_simp+
  then show ?thesis
    by (cases "ensure_snapshot_directory disk_ops [''/snap''] ?d")
      (simp add: browser_settings_from_environment_def Let_def bindP_def thenP_def liftR_def demo_timeouts ret_def)
qed

text \<open>Accepted browser settings are external. Each of the three paths is what an absolute path of the
  environment resolves to and does not lie in the repository, the Edge executable is an existing file,
  both timeouts are finite and positive, and no file was changed by the check.\<close>

theorem browser_settings_accepted:
  assumes fs: "file_store ops files"
    and run: "browser_settings_from_environment ops paths environ repository_root s = (Inr st, t)"
  shows "(\<forall>(name, p) \<in> {(''BROWSER_EDGE_EXECUTABLE_PATH'', edge_executable_path st), (''BROWSER_USER_DATA_DIR'', user_data_dir st),
        (''BROWSER_FAILURE_SNAPSHOT_DIR'', failure_snapshot_dir st)}.
      \<exists>raw. environ name = Some raw \<and> is_absolute paths raw \<and> p = resolve paths raw \<and>
        \<not> is_relative_to p (resolve paths repository_root)) \<and>
    files s (edge_executable_path st) \<noteq> None \<and> files t = files s \<and>
    0 < page_timeout_seconds st \<and> 0 < action_timeout_seconds st"
proof -
  obtain edge s1 ud s2 sn s3 pt act where e: "require_existing_external_file ops paths environ ''BROWSER_EDGE_EXECUTABLE_PATH''
        (resolve paths repository_root) s = (Inr edge, s1)"
    and u: "require_external_directory ops paths environ ''BROWSER_USER_DATA_DIR'' (resolve paths repository_root) s1 = (Inr ud, s2)"
    and f: "require_external_directory ops paths environ ''BROWSER_FAILURE_SNAPSHOT_DIR'' (resolve paths repository_root) s2 = (Inr sn, s3)"
    and pt: "require_positive_timeout environ ''BROWSER_PAGE_TIMEOUT_SECONDS'' = Inr pt"
    and act: "require_positive_timeout environ ''BROWSER_ACTION_TIMEOUT_SECONDS'' = Inr act"
    and m: "ensure_snapshot_directory ops sn s3 = (Inr (), t)"
    and st: "st = \<lparr>edge_executable_path = edge, user_data_dir = ud, failure_snapshot_dir = sn,
        page_timeout_seconds = pt, action_timeout_seconds = act\<rparr>"
    using run by (auto simp: browser_settings_from_environment_def Let_def bindP_eq_Inr thenP_eq_Inr liftR_def)
  have "files s1 = files s" "files s edge \<noteq> None" using required_file [OF fs e] by simp_all
  moreover have "files s2 = files s1" "files s3 = files s2" using required_directory [OF fs] u f by simp_all
  moreover have "files t = files s3" using keepsD [OF snapshot_directory_keeps [OF fs] m] by simp
  ultimately show ?thesis
    using external_path [OF required_file(1) [OF fs e]] external_path [OF required_directory(1) [OF fs u]]
      external_path [OF required_directory(1) [OF fs f]] positive_timeout [OF pt] positive_timeout [OF act]
    by (simp add: st)
qed

theorem browser_settings_accepted_witness:
  "\<exists>st t. browser_settings_from_environment disk_ops demo_paths demo_environ ''/repo'' demo_edge_disk = (Inr st, t) \<and>
     disk_at demo_edge_disk (edge_executable_path st) \<noteq> None \<and> page_timeout_seconds st = 5 / 2 \<and> disk_at t = disk_at demo_edge_disk"
proof -
  obtain st t where r: "browser_settings_from_environment disk_ops demo_paths demo_environ ''/repo'' demo_edge_disk = (Inr st, t)"
    and p: "page_timeout_seconds st = 5 / 2"
    using demo_settings_run by blast
  show ?thesis using browser_settings_accepted [OF disk.file_store_axioms r] r p by blast
qed

subsection \<open>One operation\<close>

datatype route_action = Abort | Continue

definition block_unneeded_resources :: "string \<Rightarrow> route_action" where
  "block_unneeded_resources resource_type =
     (if resource_type \<in> {''font'', ''image'', ''media''} then Abort else Continue)"

text \<open>\<open>gw_enter\<close> is the factory's call and \<open>__enter__\<close>, \<open>gw_exit\<close> is \<open>__exit__\<close> (it returns \<open>None\<close>, so it does
  not swallow an exception); \<open>gw_pages\<close> reads the attribute \<open>pages\<close>; a route handler maps the type of the
  requested resource to what it calls on the route.\<close>

record ('s, 'c, 'p) gateway =
  gw_enter :: "('s, unit) py"
  gw_exit :: "exn option \<Rightarrow> ('s, unit) py"
  gw_launch :: "fpath \<Rightarrow> fpath \<Rightarrow> bool \<Rightarrow> ('s, 'c) py"
  gw_pages :: "'c \<Rightarrow> 's \<Rightarrow> 'p list"
  gw_new_page :: "'c \<Rightarrow> ('s, 'p) py"
  gw_route :: "'c \<Rightarrow> string \<Rightarrow> (string \<Rightarrow> route_action) \<Rightarrow> ('s, unit) py"
  gw_set_timeout :: "'p \<Rightarrow> int \<Rightarrow> ('s, unit) py"
  gw_set_navigation_timeout :: "'p \<Rightarrow> int \<Rightarrow> ('s, unit) py"
  gw_close_page :: "'p \<Rightarrow> ('s, unit) py"
  gw_close_context :: "'c \<Rightarrow> ('s, unit) py"

text \<open>The artifact writer is its \<open>write_failure\<close>: source, fragment, screenshot.\<close>

type_synonym 's artifact_writer = "string \<Rightarrow> string option \<Rightarrow> screenshot \<Rightarrow> ('s, BrowserFailureArtifact) py"

definition persist_failure_artifact :: "'s artifact_writer option \<Rightarrow> exn \<Rightarrow> ('s, unit) py" where
  "persist_failure_artifact writer e = (case e of
       BrowserOperationError message source_id safe_html png \<Rightarrow> (case writer of
           None \<Rightarrow> ret ()
         | Some write \<Rightarrow> thenP (write source_id (Some safe_html)
             (case png of None \<Rightarrow> NoScreenshot | Some c \<Rightarrow> RedactedPng c)) (ret ()))
     | _ \<Rightarrow> ret ())"

definition close_page_and_context :: "('s, 'c, 'p) gateway \<Rightarrow> 'p option \<Rightarrow> 'c \<Rightarrow> bool \<Rightarrow> ('s, unit) py" where
  "close_page_and_context gw page context suppress s =
     (case (case page of
          None \<Rightarrow> (None, s)
        | Some p \<Rightarrow> (case gw_close_page gw p s of
              (Inl e, s1) \<Rightarrow> (if suppress then None else Some e, s1)
            | (Inr _, s1) \<Rightarrow> (None, s1))) of (page_error, s1) \<Rightarrow>
       (case gw_close_context gw context s1 of
          (Inl e, s2) \<Rightarrow> (if suppress then Inr () else Inl e, s2)
        | (Inr _, s2) \<Rightarrow> (case page_error of Some e \<Rightarrow> (Inl e, s2) | None \<Rightarrow> (Inr (), s2))))"

definition open_page :: "('s, 'c, 'p) gateway \<Rightarrow> 'c \<Rightarrow> ('s, 'p) py" where
  "open_page gw context s = (case gw_pages gw context s of
       p # _ \<Rightarrow> (Inr p, s)
     | [] \<Rightarrow> gw_new_page gw context s)"

text \<open>\<open>int\<close> of a finite float truncates towards zero.\<close>

definition int_of_float :: "rat \<Rightarrow> int" where
  "int_of_float r = (if r < 0 then - \<lfloor>- r\<rfloor> else \<lfloor>r\<rfloor>)"

definition use_page :: "('s, 'c, 'p) gateway \<Rightarrow> BrowserRuntimeSettings \<Rightarrow> 'c \<Rightarrow> ('p \<Rightarrow> ('s, 'a) py) \<Rightarrow> 'p \<Rightarrow> ('s, 'a) py" where
  "use_page gw st context operation page =
     thenP (gw_route gw context ''**/*'' block_unneeded_resources)
     (thenP (gw_set_timeout gw page (int_of_float (action_timeout_seconds st * 1000)))
     (thenP (gw_set_navigation_timeout gw page (int_of_float (page_timeout_seconds st * 1000)))
     (operation page)))"

text \<open>The \<open>except\<close> branch, whose exception becomes that of the writer when writing the artifact raises.\<close>

definition failed_operation :: "'s artifact_writer option \<Rightarrow> exn \<Rightarrow> ('s, 'a) py" where
  "failed_operation writer e = thenP (persist_failure_artifact writer e) (raise e)"

definition run_in_context :: "('s, 'c, 'p) gateway \<Rightarrow> BrowserRuntimeSettings \<Rightarrow> 's artifact_writer option \<Rightarrow>
    ('p \<Rightarrow> ('s, 'a) py) \<Rightarrow> 'c \<Rightarrow> ('s, 'a) py" where
  "run_in_context gw st writer operation context s =
     (case open_page gw context s of
        (Inl e, s1) \<Rightarrow> finallyP (failed_operation writer e) (close_page_and_context gw None context True) s1
      | (Inr p, s1) \<Rightarrow> (case use_page gw st context operation p s1 of
            (Inl e, s2) \<Rightarrow> finallyP (failed_operation writer e) (close_page_and_context gw (Some p) context True) s2
          | (Inr x, s2) \<Rightarrow> finallyP (ret x) (close_page_and_context gw (Some p) context False) s2))"

definition result_exn :: "'a result \<Rightarrow> exn option" where
  "result_exn r = (case r of Inl e \<Rightarrow> Some e | Inr _ \<Rightarrow> None)"

definition runtime_run :: "('s, 'c, 'p) gateway \<Rightarrow> BrowserRuntimeSettings \<Rightarrow> 's artifact_writer option \<Rightarrow>
    ('p \<Rightarrow> ('s, 'a) py) \<Rightarrow> ('s, 'a) py" where
  "runtime_run gw st writer operation = thenP (gw_enter gw) (\<lambda>s.
     case bindP (gw_launch gw (user_data_dir st) (edge_executable_path st) False) (run_in_context gw st writer operation) s of
       (r, s1) \<Rightarrow> (case gw_exit gw (result_exn r) s1 of
           (Inl e, s2) \<Rightarrow> (Inl e, s2)
         | (Inr _, s2) \<Rightarrow> (r, s2)))"

subsection \<open>Frames of a run\<close>

text \<open>A relation that every call of the gateway keeps is kept by a whole run, if the operation and the writer keep
  it: \<open>run\<close> does nothing of its own to the state.\<close>

definition gateway_keeps :: "('s \<Rightarrow> 's \<Rightarrow> bool) \<Rightarrow> ('s, 'c, 'p) gateway \<Rightarrow> bool" where
  "gateway_keeps R gw \<longleftrightarrow> keeps R (gw_enter gw) \<and> (\<forall>x. keeps R (gw_exit gw x)) \<and> (\<forall>d e b. keeps R (gw_launch gw d e b)) \<and>
     (\<forall>c. keeps R (gw_new_page gw c)) \<and> (\<forall>c pat h. keeps R (gw_route gw c pat h)) \<and> (\<forall>p n. keeps R (gw_set_timeout gw p n)) \<and>
     (\<forall>p n. keeps R (gw_set_navigation_timeout gw p n)) \<and> (\<forall>p. keeps R (gw_close_page gw p)) \<and> (\<forall>c. keeps R (gw_close_context gw c))"

lemma keeps_finallyP:
  assumes "transp R" and "keeps R m" and "keeps R c"
  shows "keeps R (finallyP m c)"
proof (rule keepsI)
  fix s r t assume f: "finallyP m c s = (r, t)"
  obtain x u where m: "m s = (x, u)" by (cases "m s")
  obtain y v where c: "c u = (y, v)" by (cases "c u")
  have "t = v" using f m c by (cases y) (simp_all add: finallyP_def)
  then show "R s t" using keepsD [OF assms(2) m] keepsD [OF assms(3) c] assms(1) by (metis transpD)
qed

lemma close_page_and_context_keeps:
  assumes gw: "gateway_keeps R gw" and R: "transp R"
  shows "keeps R (close_page_and_context gw page c b)"
proof (rule keepsI)
  fix s r t assume cl: "close_page_and_context gw page c b s = (r, t)"
  have cp: "R u v" if "gw_close_page gw p u = (x, v)" for p u x v using gw that by (auto simp: gateway_keeps_def dest: keepsD)
  have cc: "R u v" if "gw_close_context gw c u = (x, v)" for u x v using gw that by (auto simp: gateway_keeps_def dest: keepsD)
  define u where "u = (case page of None \<Rightarrow> s | Some p \<Rightarrow> snd (gw_close_page gw p s))"
  have "s = u \<or> R s u" using cp [OF prod.collapse [symmetric]] by (cases page) (simp_all add: u_def)
  moreover obtain x v where v: "gw_close_context gw c u = (x, v)" by (cases "gw_close_context gw c u")
  moreover have "t = v"
    using cl v by (cases page) (auto simp: close_page_and_context_def u_def split: prod.splits sum.splits if_splits)
  ultimately show "R s t" using cc [OF v] transpD [OF R] by blast
qed

lemma run_in_context_keeps:
  fixes operation :: "'p \<Rightarrow> ('s, 'a) py"
  assumes gw: "gateway_keeps R gw" and R: "reflp R" "transp R" and op: "\<And>p. keeps R (operation p)"
    and wr: "\<And>w a b c. writer = Some w \<Longrightarrow> keeps R (w a b c)"
  shows "keeps R (run_in_context gw st writer operation c)"
proof (rule keepsI)
  fix s r t assume run: "run_in_context gw st writer operation c s = (r, t)"
  have persist: "keeps R (persist_failure_artifact writer e)" for e
    using wr by (cases e) (auto simp: persist_failure_artifact_def split: option.split intro!: keeps_thenP R keeps_pure)
  have failed: "keeps R (failed_operation writer e :: ('s, 'a) py)" for e
    unfolding failed_operation_def by (intro keeps_thenP keeps_pure R persist)
  have fin: "keeps R m \<Longrightarrow> keeps R (finallyP m (close_page_and_context gw page c b))" for m :: "('s, 'a) py" and page b
    using keeps_finallyP [OF R(2)] close_page_and_context_keeps [OF gw R(2)] by blast
  have use: "keeps R (use_page gw st c operation p)" for p
    using gw op by (auto simp: use_page_def gateway_keeps_def intro!: keeps_thenP R)
  have new: "keeps R (gw_new_page gw c)" using gw by (simp add: gateway_keeps_def)
  obtain x u where o: "open_page gw c s = (x, u)" by (cases "open_page gw c s")
  have su: "R s u" using o keepsD [OF new] R(1) by (auto simp: open_page_def reflpD split: list.splits)
  have "R u t"
  proof (cases x)
    case (Inl e)
    then show ?thesis using run o keepsD [OF fin [OF failed]] by (auto simp: run_in_context_def)
  next
    case (Inr p)
    obtain w v where w: "use_page gw st c operation p u = (w, v)" by (cases "use_page gw st c operation p u")
    have "R v t"
      using run o Inr w keepsD [OF fin [OF failed]] keepsD [OF fin [OF keeps_pure(1) [OF R(1)]]]
      by (auto simp: run_in_context_def split: sum.splits)
    then show ?thesis using keepsD [OF use w] R(2) by (metis transpD)
  qed
  then show "R s t" using su R(2) by (metis transpD)
qed

lemma runtime_run_keeps:
  fixes operation :: "'p \<Rightarrow> ('s, 'a) py"
  assumes gw: "gateway_keeps R gw" and R: "reflp R" "transp R" and op: "\<And>p. keeps R (operation p)"
    and wr: "\<And>w a b c. writer = Some w \<Longrightarrow> keeps R (w a b c)"
  shows "keeps R (runtime_run gw st writer operation)"
  unfolding runtime_run_def
proof (rule keeps_thenP [OF R(2)])
  show "keeps R (gw_enter gw)" using gw by (simp add: gateway_keeps_def)
  let ?m = "bindP (gw_launch gw (user_data_dir st) (edge_executable_path st) False) (run_in_context gw st writer operation)"
  have m: "keeps R ?m"
  proof (rule keeps_bindP [OF R(2)])
    show "keeps R (gw_launch gw (user_data_dir st) (edge_executable_path st) False)" using gw by (simp add: gateway_keeps_def)
    show "keeps R (run_in_context gw st writer operation c)" for c by (rule run_in_context_keeps [OF gw R]) (fact op wr)+
  qed
  show "keeps R (\<lambda>s. case ?m s of (r, s1) \<Rightarrow> (case gw_exit gw (result_exn r) s1 of
      (Inl e, s2) \<Rightarrow> (Inl e, s2) | (Inr _, s2) \<Rightarrow> (r, s2)))"
  proof (rule keepsI)
    fix s r t
    assume e: "(case ?m s of (r, s1) \<Rightarrow> (case gw_exit gw (result_exn r) s1 of
      (Inl e, s2) \<Rightarrow> (Inl e, s2) | (Inr _, s2) \<Rightarrow> (r, s2))) = (r, t)"
    obtain x u where x: "?m s = (x, u)" by (cases "?m s")
    obtain y v where y: "gw_exit gw (result_exn x) u = (y, v)" by (cases "gw_exit gw (result_exn x) u")
    have "keeps R (gw_exit gw (result_exn x))" using gw by (simp add: gateway_keeps_def)
    from keepsD [OF this y] keepsD [OF m x] show "R s t"
      using e x y R(2) by (cases y) (auto dest: transpD)
  qed
qed

subsection \<open>The browser worker\<close>

definition worker_positive_integer :: "string \<Rightarrow> string \<Rightarrow> int result" where
  "worker_positive_integer raw_value name = (case parse_int raw_value of
       None \<Rightarrow> Inl (BrowserRuntimeConfigurationError (name @ '' must be a positive integer''))
     | Some n \<Rightarrow> if n < 1 then Inl (BrowserRuntimeConfigurationError (name @ '' must be a positive integer'')) else Inr n)"

definition browser_worker_argv :: "(string \<Rightarrow> string option) \<Rightarrow> string list result" where
  "browser_worker_argv environ =
     bindR (worker_positive_integer (environ_get environ ''BROWSER_WORKER_CONCURRENCY'' ''1'') ''BROWSER_WORKER_CONCURRENCY'') (\<lambda>concurrency.
     if concurrency \<noteq> 1
     then Inl (BrowserRuntimeConfigurationError ''BROWSER_WORKER_CONCURRENCY must be 1 for a shared Edge profile'')
     else bindR (worker_positive_integer (environ_get environ ''BROWSER_MAX_MEMORY_MB'' ''1024'') ''BROWSER_MAX_MEMORY_MB'') (\<lambda>memory_megabytes.
       Inr [''worker'', ''--queues=browser'', ''--loglevel=INFO'', ''--concurrency='' @ int_text concurrency,
         ''--max-memory-per-child='' @ int_text (memory_megabytes * 1024)]))"

definition validate_browser_runtime_settings :: "'s file_ops \<Rightarrow> path_ops \<Rightarrow> (string \<Rightarrow> string option) \<Rightarrow> string \<Rightarrow>
    ('s, unit) py" where
  "validate_browser_runtime_settings ops paths environ repository_root =
     thenP (browser_settings_from_environment ops paths environ repository_root) (ret ())"

definition browser_worker_main :: "'s file_ops \<Rightarrow> path_ops \<Rightarrow> (string \<Rightarrow> string option) \<Rightarrow> string \<Rightarrow>
    (string list \<Rightarrow> ('s, unit) py) \<Rightarrow> ('s, unit) py" where
  "browser_worker_main ops paths environ repository_root worker_main =
     thenP (validate_browser_runtime_settings ops paths environ repository_root)
       (bindP (liftR (browser_worker_argv environ)) worker_main)"

subsection \<open>The calls of a run\<close>

datatype ('c, 'p) gw_call = Entered | Launched | OpenedPage | Routed | TimeoutSet | ClosedPage 'p | ClosedContext 'c | Exited

definition logs :: "('s \<Rightarrow> 'k list) \<Rightarrow> 'k \<Rightarrow> ('s, 'a) py \<Rightarrow> bool" where
  "logs calls k m \<longleftrightarrow> (\<forall>s. calls (snd (m s)) = calls s @ [k])"

lemma logsD: "logs calls k m \<Longrightarrow> m s = (r, t) \<Longrightarrow> calls t = calls s @ [k]"
  by (metis logs_def snd_conv)

text \<open>A gateway whose calls are recorded, whatever they return; any of them may raise.\<close>

locale browser_gateway =
  fixes gw :: "('s, 'c, 'p) gateway"
    and calls :: "'s \<Rightarrow> ('c, 'p) gw_call list"
  assumes enter_log: "logs calls Entered (gw_enter gw)"
    and exit_log: "logs calls Exited (gw_exit gw x)"
    and launch_log: "logs calls Launched (gw_launch gw d e b)"
    and new_page_log: "logs calls OpenedPage (gw_new_page gw c)"
    and route_log: "logs calls Routed (gw_route gw c pat h)"
    and timeout_log: "logs calls TimeoutSet (gw_set_timeout gw p n)"
    and navigation_log: "logs calls TimeoutSet (gw_set_navigation_timeout gw p n)"
    and close_page_log: "logs calls (ClosedPage p) (gw_close_page gw p)"
    and close_context_log: "logs calls (ClosedContext c) (gw_close_context gw c)"
begin

definition quiet_writer :: "'s artifact_writer option \<Rightarrow> bool" where
  "quiet_writer writer \<longleftrightarrow> (\<forall>w. writer = Some w \<longrightarrow> (\<forall>a b c. keeps (\<lambda>s t. calls t = calls s) (w a b c)))"

definition setup_call :: "('c, 'p) gw_call \<Rightarrow> bool" where
  "setup_call k \<longleftrightarrow> k = OpenedPage \<or> k = Routed \<or> k = TimeoutSet"

lemma open_page_calls: "open_page gw c s = (r, t) \<Longrightarrow> calls t = calls s \<and> (\<exists>p. r = Inr p) \<or> calls t = calls s @ [OpenedPage]"
  using logsD [OF new_page_log] by (auto simp: open_page_def split: list.splits)

lemma use_page_calls:
  assumes op: "keeps (\<lambda>s t. calls t = calls s) (operation p)" and u: "use_page gw st c operation p s = (r, t)"
  shows "\<exists>mid. calls t = calls s @ mid \<and> list_all setup_call mid"
proof -
  obtain a s1 where 1: "gw_route gw c ''**/*'' block_unneeded_resources s = (a, s1)"
    by (cases "gw_route gw c ''**/*'' block_unneeded_resources s")
  obtain b s2 where 2: "gw_set_timeout gw p (int_of_float (action_timeout_seconds st * 1000)) s1 = (b, s2)"
    by (cases "gw_set_timeout gw p (int_of_float (action_timeout_seconds st * 1000)) s1")
  obtain d s3 where 3: "gw_set_navigation_timeout gw p (int_of_float (page_timeout_seconds st * 1000)) s2 = (d, s3)"
    by (cases "gw_set_navigation_timeout gw p (int_of_float (page_timeout_seconds st * 1000)) s2")
  obtain e s4 where 4: "operation p s3 = (e, s4)" by (cases "operation p s3")
  note c = logsD [OF route_log 1] logsD [OF timeout_log 2] logsD [OF navigation_log 3] keepsD [OF op 4]
  from u show ?thesis
    using 1 2 3 4 c by (cases a; cases b; cases d) (auto simp: use_page_def setup_call_def)
qed

lemma same_calls: "transp (\<lambda>s t. calls t = calls s)" "reflp (\<lambda>s t. calls t = calls s)"
  by (simp_all add: transp_def reflp_def)

lemma persist_calls: "quiet_writer writer \<Longrightarrow> persist_failure_artifact writer e s = (r, t) \<Longrightarrow> calls t = calls s"
proof -
  assume q: "quiet_writer writer" and p: "persist_failure_artifact writer e s = (r, t)"
  have "keeps (\<lambda>s t. calls t = calls s) (persist_failure_artifact writer e)"
    using q by (cases e) (auto simp: persist_failure_artifact_def quiet_writer_def same_calls
        split: option.split intro!: keeps_thenP keeps_pure)
  then show ?thesis using p by (rule keepsD)
qed

lemma failed_calls: "quiet_writer writer \<Longrightarrow> failed_operation writer e s = (r, t) \<Longrightarrow> calls t = calls s \<and> (\<exists>e. r = Inl e)"
proof -
  assume q: "quiet_writer writer" and f: "failed_operation writer e s = (r, t)"
  obtain a u where "persist_failure_artifact writer e s = (a, u)" by (cases "persist_failure_artifact writer e s")
  then show ?thesis using f persist_calls [OF q] by (cases a) (auto simp: failed_operation_def)
qed

lemma close_calls: "close_page_and_context gw page c b s = (r, t) \<Longrightarrow>
    calls t = calls s @ (case page of None \<Rightarrow> [] | Some p \<Rightarrow> [ClosedPage p]) @ [ClosedContext c]"
  using logsD [OF close_page_log] logsD [OF close_context_log]
  by (auto simp: close_page_and_context_def split: option.splits prod.splits sum.splits if_splits)

lemma run_in_context_calls:
  fixes r :: "'a result"
  assumes op: "\<And>p. keeps (\<lambda>s t. calls t = calls s) (operation p)" and wr: "quiet_writer writer"
    and run: "run_in_context gw st writer operation c s = (r, t)"
  shows "\<exists>mid page. calls t = calls s @ mid @ (case page of None \<Rightarrow> [] | Some p \<Rightarrow> [ClosedPage p]) @ [ClosedContext c] \<and>
    list_all setup_call mid \<and> (page = None \<longrightarrow> mid = [OpenedPage])"
proof -
  obtain o' s1 where o: "open_page gw c s = (o', s1)" by (cases "open_page gw c s")
  note oc = open_page_calls [OF o]
  have fin: "\<exists>u. calls t = calls u @ (case page of None \<Rightarrow> [] | Some p \<Rightarrow> [ClosedPage p]) @ [ClosedContext c] \<and> calls u = calls s2"
    if f: "finallyP m (close_page_and_context gw page c b) s2 = (r, t)" and m: "keeps (\<lambda>s t. calls t = calls s) m" for m page b s2
  proof -
    obtain x u where mu: "m s2 = (x, u)" by (cases "m s2")
    obtain y v where cv: "close_page_and_context gw page c b u = (y, v)" by (cases "close_page_and_context gw page c b u")
    have "t = v" using f mu cv by (cases y) (simp_all add: finallyP_def)
    then show ?thesis using close_calls [OF cv] keepsD [OF m mu] by blast
  qed
  have failed: "keeps (\<lambda>s t. calls t = calls s) (failed_operation writer e :: ('s, 'a) py)" for e
    using failed_calls [OF wr] by (intro keepsI) blast
  show ?thesis
  proof (cases o')
    case (Inl e)
    then have s1: "calls s1 = calls s @ [OpenedPage]" using oc by auto
    have "finallyP (failed_operation writer e) (close_page_and_context gw None c True) s1 = (r, t)"
      using run o Inl by (simp add: run_in_context_def)
    from fin [OF this failed] s1 show ?thesis
      by (intro exI [of _ "[OpenedPage]"] exI [of _ None]) (auto simp: setup_call_def)
  next
    case p: (Inr p)
    then have oc': "calls s1 = calls s \<or> calls s1 = calls s @ [OpenedPage]" using oc by auto
    obtain w s2 where u: "use_page gw st c operation p s1 = (w, s2)" by (cases "use_page gw st c operation p s1")
    obtain mid where mid: "calls s2 = calls s1 @ mid" "list_all setup_call mid"
      using use_page_calls [OF op u] by blast
    have "\<exists>v. calls t = calls v @ [ClosedPage p] @ [ClosedContext c] \<and> calls v = calls s2"
    proof (cases w)
      case (Inl e)
      then have "finallyP (failed_operation writer e) (close_page_and_context gw (Some p) c True) s2 = (r, t)"
        using run o p u by (simp add: run_in_context_def)
      from fin [OF this failed] show ?thesis by simp
    next
      case (Inr x)
      then have "finallyP (ret x) (close_page_and_context gw (Some p) c False) s2 = (r, t)"
        using run o p u by (simp add: run_in_context_def)
      from fin [OF this keeps_pure(1) [OF same_calls(2)]] show ?thesis by simp
    qed
    then have t: "calls t = calls s1 @ mid @ [ClosedPage p] @ [ClosedContext c]" using mid(1) by auto
    show ?thesis
      using oc'
    proof
      assume "calls s1 = calls s"
      then show ?thesis using t mid(2) by (intro exI [of _ mid] exI [of _ "Some p"]) simp
    next
      assume "calls s1 = calls s @ [OpenedPage]"
      then show ?thesis using t mid(2)
        by (intro exI [of _ "OpenedPage # mid"] exI [of _ "Some p"]) (simp add: setup_call_def)
    qed
  qed
qed

end

lemma close_suppressed: "\<exists>t. close_page_and_context gw page c True s = (Inr (), t)"
  by (auto simp: close_page_and_context_def split: option.splits prod.splits sum.splits)

text \<open>C33: The browser is always cleaned up. Once a persistent context was launched, whatever raises (opening the
  page, the settings, the operation, writing the artifact, closing), the run ends by closing the page it
  had opened, closing the context and leaving Playwright, each exactly once and in this order; only when the
  page could not be opened is there no page to close.\<close>

theorem runtime_always_cleans_up:
  assumes gw: "browser_gateway gw calls" and op: "\<And>p. keeps (\<lambda>s t. calls t = calls s) (operation p)"
    and wr: "\<And>w a b c. writer = Some w \<Longrightarrow> keeps (\<lambda>s t. calls t = calls s) (w a b c)"
    and enter: "gw_enter gw s = (Inr (), s0)"
    and launch: "gw_launch gw (user_data_dir st) (edge_executable_path st) False s0 = (Inr c, s1)"
    and run: "runtime_run gw st writer operation s = (r, t)"
  shows "\<exists>mid page. calls t = calls s @ [Entered, Launched] @ mid @
      (case page of None \<Rightarrow> [] | Some p \<Rightarrow> [ClosedPage p]) @ [ClosedContext c, Exited] \<and>
    set mid \<subseteq> {OpenedPage, Routed, TimeoutSet} \<and> (page = None \<longrightarrow> mid = [OpenedPage])"
proof -
  have wr': "browser_gateway.quiet_writer calls writer"
    using wr by (simp add: browser_gateway.quiet_writer_def [OF gw])
  obtain x s2 where x: "run_in_context gw st writer operation c s1 = (x, s2)"
    by (cases "run_in_context gw st writer operation c s1")
  obtain mid page where m: "calls s2 = calls s1 @ mid @ (case page of None \<Rightarrow> [] | Some p \<Rightarrow> [ClosedPage p]) @ [ClosedContext c]"
    "list_all (browser_gateway.setup_call) mid" "page = None \<longrightarrow> mid = [OpenedPage]"
    using browser_gateway.run_in_context_calls [OF gw op wr' x] by blast
  obtain y s3 where ex: "gw_exit gw (result_exn x) s2 = (y, s3)" by (cases "gw_exit gw (result_exn x) s2")
  have "t = s3" using run enter launch x ex by (cases y) (simp_all add: runtime_run_def)
  moreover have "calls s1 = calls s @ [Entered, Launched]"
    using logsD [OF browser_gateway.enter_log [OF gw] enter] logsD [OF browser_gateway.launch_log [OF gw] launch] by simp
  moreover have "calls s3 = calls s2 @ [Exited]" using logsD [OF browser_gateway.exit_log [OF gw] ex] .
  moreover have "set mid \<subseteq> {OpenedPage, Routed, TimeoutSet}"
    using m(2) by (auto simp: list_all_iff browser_gateway.setup_call_def [OF gw])
  ultimately show ?thesis using m(1,3) by (intro exI [of _ mid] exI [of _ page]) auto
qed

subsection \<open>A recording gateway\<close>

record gw_sim =
  sim_calls :: "(nat, nat) gw_call list"
  sim_raising :: "(nat, nat) gw_call list"

definition sim_call :: "(nat, nat) gw_call \<Rightarrow> 'a \<Rightarrow> (gw_sim, 'a) py" where
  "sim_call k x s = (if k \<in> set (sim_raising s) then Inl (RuntimeError ''browser'') else Inr x,
     s\<lparr>sim_calls := sim_calls s @ [k]\<rparr>)"

definition sim_gateway :: "(gw_sim, nat, nat) gateway" where
  "sim_gateway = \<lparr>gw_enter = sim_call Entered (), gw_exit = \<lambda>_. sim_call Exited (), gw_launch = \<lambda>_ _ _. sim_call Launched 0,
     gw_pages = \<lambda>_ _. [], gw_new_page = \<lambda>_. sim_call OpenedPage 1, gw_route = \<lambda>_ _ _. sim_call Routed (),
     gw_set_timeout = \<lambda>_ _. sim_call TimeoutSet (), gw_set_navigation_timeout = \<lambda>_ _. sim_call TimeoutSet (),
     gw_close_page = \<lambda>p. sim_call (ClosedPage p) (), gw_close_context = \<lambda>c. sim_call (ClosedContext c) ()\<rparr>"

lemma sim_call_logs: "logs sim_calls k (sim_call k x)"
  by (simp add: logs_def sim_call_def)

interpretation sim: browser_gateway sim_gateway sim_calls
  by unfold_locales (simp_all add: sim_gateway_def sim_call_logs)

definition demo_settings :: BrowserRuntimeSettings where
  "demo_settings = \<lparr>edge_executable_path = [''e''], user_data_dir = [''u''], failure_snapshot_dir = [''f''],
     page_timeout_seconds = 30, action_timeout_seconds = 5 / 2\<rparr>"

theorem runtime_always_cleans_up_witness:
  "\<exists>r t mid page. runtime_run sim_gateway demo_settings None (\<lambda>_. raise (KeyError ''x'') :: (gw_sim, unit) py)
      \<lparr>sim_calls = [], sim_raising = [ClosedPage 1]\<rparr> = (r, t) \<and>
    sim_calls t = [Entered, Launched] @ mid @ (case page of None \<Rightarrow> [] | Some p \<Rightarrow> [ClosedPage p]) @ [ClosedContext 0, Exited]"
proof -
  let ?s = "\<lparr>sim_calls = [], sim_raising = [ClosedPage 1]\<rparr> :: gw_sim"
  let ?sa = "\<lparr>sim_calls = [Entered], sim_raising = [ClosedPage 1]\<rparr> :: gw_sim"
  let ?sb = "\<lparr>sim_calls = [Entered, Launched], sim_raising = [ClosedPage 1]\<rparr> :: gw_sim"
  let ?op = "(\<lambda>_. raise (KeyError ''x'')) :: nat \<Rightarrow> (gw_sim, unit) py"
  obtain r t where r: "runtime_run sim_gateway demo_settings None ?op ?s = (r, t)" by force
  have k: "keeps (\<lambda>s t. sim_calls t = sim_calls s) (?op p)" for p by (simp add: keeps_def)
  have e: "gw_enter sim_gateway ?s = (Inr (), ?sa)" by (simp add: sim_gateway_def sim_call_def)
  have l: "gw_launch sim_gateway (user_data_dir demo_settings) (edge_executable_path demo_settings) False ?sa = (Inr 0, ?sb)"
    by (simp add: sim_gateway_def sim_call_def)
  have "\<exists>mid page. sim_calls t = sim_calls ?s @ [Entered, Launched] @ mid @
      (case page of None \<Rightarrow> [] | Some p \<Rightarrow> [ClosedPage p]) @ [ClosedContext 0, Exited] \<and>
    set mid \<subseteq> {OpenedPage, Routed, TimeoutSet} \<and> (page = None \<longrightarrow> mid = [OpenedPage])"
  proof (rule runtime_always_cleans_up [OF sim.browser_gateway_axioms k _ e l r])
    show "keeps (\<lambda>s t. sim_calls t = sim_calls s) (w a b c)" if "None = Some w" for w a b c using that by simp
  qed
  then show ?thesis using r by auto
qed

text \<open>The caller sees what the operation did. After the page was opened, an exception of the operation (or of
  the calls before it) is the exception of the run, whatever closing does, provided that an artifact for it
  can be written; a result of the operation is the result of the run unless closing raises, and then the
  error of the context goes before that of the page. The only other outcome is an error of Playwright's
  own exit.\<close>

theorem operation_error_wins:
  assumes enter: "gw_enter gw s = (Inr (), s0)"
    and launch: "gw_launch gw (user_data_dir st) (edge_executable_path st) False s0 = (Inr c, s1)"
    and page: "open_page gw c s1 = (Inr p, s2)" and use: "use_page gw st c operation p s2 = (w, s3)"
    and close: "gw_close_page gw p s3 = (a, s4)" "gw_close_context gw c s4 = (b, s5)"
    and writer: "\<And>e u. w = Inl e \<Longrightarrow> \<exists>v. persist_failure_artifact writer e u = (Inr (), v)"
    and run: "runtime_run gw st writer operation s = (r, t)"
  shows "r = (case w of Inl e \<Rightarrow> Inl e
      | Inr x \<Rightarrow> (case b of Inl e \<Rightarrow> Inl e | Inr _ \<Rightarrow> (case a of Inl e \<Rightarrow> Inl e | Inr _ \<Rightarrow> Inr x))) \<or>
    (\<exists>x u e. gw_exit gw x u = (Inl e, t) \<and> r = Inl e)"
proof -
  obtain y s6 where y: "run_in_context gw st writer operation c s1 = (y, s6)" by (cases "run_in_context gw st writer operation c s1")
  obtain q s7 where ex: "gw_exit gw (result_exn y) s6 = (q, s7)" by (cases "gw_exit gw (result_exn y) s6")
  have ry: "r = y \<or> (\<exists>x u e. gw_exit gw x u = (Inl e, t) \<and> r = Inl e)"
    using run enter launch y ex by (cases q) (auto simp: runtime_run_def)
  have "y = (case w of Inl e \<Rightarrow> Inl e
      | Inr x \<Rightarrow> (case b of Inl e \<Rightarrow> Inl e | Inr _ \<Rightarrow> (case a of Inl e \<Rightarrow> Inl e | Inr _ \<Rightarrow> Inr x)))"
  proof (cases w)
    case (Inl e)
    obtain v where v: "persist_failure_artifact writer e s3 = (Inr (), v)" using writer [OF Inl] by blast
    obtain z where z: "close_page_and_context gw (Some p) c True v = (Inr (), z)"
      using close_suppressed [of gw "Some p" c v] by blast
    have "y = Inl e" using y page use Inl v z by (simp add: run_in_context_def finallyP_def failed_operation_def)
    then show ?thesis using Inl by simp
  next
    case (Inr x)
    have cl: "close_page_and_context gw (Some p) c False s3 =
        ((case b of Inl e \<Rightarrow> Inl e | Inr _ \<Rightarrow> (case a of Inl e \<Rightarrow> Inl e | Inr _ \<Rightarrow> Inr ())), s5)"
      using close by (cases a; cases b) (simp_all add: close_page_and_context_def)
    have "run_in_context gw st writer operation c s1 = finallyP (ret x) (close_page_and_context gw (Some p) c False) s3"
      using page use Inr by (simp add: run_in_context_def)
    then have "y = (case b of Inl e \<Rightarrow> Inl e | Inr _ \<Rightarrow> (case a of Inl e \<Rightarrow> Inl e | Inr _ \<Rightarrow> Inr x))"
      using y cl by (cases a; cases b) (auto simp: finallyP_def)
    then show ?thesis using Inr by simp
  qed
  then show ?thesis using ry by blast
qed

definition patient_gateway :: "(gw_sim, nat, nat) gateway" where
  "patient_gateway = sim_gateway\<lparr>gw_exit := \<lambda>_ s. (Inr (), s\<lparr>sim_calls := sim_calls s @ [Exited]\<rparr>)\<rparr>"

theorem operation_error_wins_witness:
  "fst (runtime_run patient_gateway demo_settings None (\<lambda>_. raise (KeyError ''x'') :: (gw_sim, unit) py)
      \<lparr>sim_calls = [], sim_raising = [ClosedPage 1, ClosedContext 0]\<rparr>) = Inl (KeyError ''x'')"
proof -
  let ?f = "[ClosedPage 1, ClosedContext 0] :: (nat, nat) gw_call list"
  let ?s = "\<lambda>cs. \<lparr>sim_calls = cs, sim_raising = ?f\<rparr> :: gw_sim"
  let ?op = "(\<lambda>_. raise (KeyError ''x'')) :: nat \<Rightarrow> (gw_sim, unit) py"
  note d = patient_gateway_def sim_gateway_def sim_call_def
  let ?c3 = "[Entered, Launched, OpenedPage, Routed, TimeoutSet, TimeoutSet]"
  obtain r t where r: "runtime_run patient_gateway demo_settings None ?op (?s []) = (r, t)" by force
  have e: "gw_enter patient_gateway (?s []) = (Inr (), ?s [Entered])" by (simp add: d)
  have l: "gw_launch patient_gateway (user_data_dir demo_settings) (edge_executable_path demo_settings) False (?s [Entered]) =
      (Inr 0, ?s [Entered, Launched])" by (simp add: d)
  have p: "open_page patient_gateway 0 (?s [Entered, Launched]) = (Inr 1, ?s [Entered, Launched, OpenedPage])"
    by (simp add: open_page_def d)
  have u: "use_page patient_gateway demo_settings 0 ?op 1 (?s [Entered, Launched, OpenedPage]) = (Inl (KeyError ''x''), ?s ?c3)"
    by (simp add: use_page_def d thenP_def bindP_def)
  have c: "gw_close_page patient_gateway 1 (?s ?c3) = (Inl (RuntimeError ''browser''), ?s (?c3 @ [ClosedPage 1]))"
    "gw_close_context patient_gateway 0 (?s (?c3 @ [ClosedPage 1])) = (Inl (RuntimeError ''browser''), ?s (?c3 @ [ClosedPage 1, ClosedContext 0]))"
    by (simp_all add: d)
  have w: "\<exists>v. persist_failure_artifact None e u = (Inr (), v)" for e and u :: gw_sim
    by (cases e) (simp_all add: persist_failure_artifact_def)
  have "gw_exit patient_gateway x u \<noteq> (Inl e', t')" for x u e' t' by (simp add: patient_gateway_def)
  then show ?thesis using operation_error_wins [OF e l p u c w r] r by simp
qed

end
