(* ===== verification/Hashes.thy ===== *)
theory Hashes
  imports Redis PyText
begin

section \<open>Counters, hashes and sets (\<open>MetricsRedis\<close>)\<close>

text \<open>
  The operations of the \<open>MetricsRedis\<close> protocol with the laws that Redis documents for them, over two
  views of the store: the fields of every hash and the members of every set. \<open>HINCRBY\<close> works on the
  decimal text of a 64-bit integer and reports anything else as an error. The reference Redis meets the
  laws.
\<close>

record 's hash_ops =
  hs_hincrby :: "string \<Rightarrow> string \<Rightarrow> int \<Rightarrow> ('s, int) py"
  hs_hset :: "string \<Rightarrow> string \<Rightarrow> string \<Rightarrow> ('s, int) py"
  hs_hgetall :: "string \<Rightarrow> ('s, (string \<times> string) list) py"
  hs_sadd :: "string \<Rightarrow> string \<Rightarrow> ('s, int) py"
  hs_smembers :: "string \<Rightarrow> ('s, string list) py"

text \<open>The integer behind a field, zero for an absent one; \<open>None\<close> when the text is not an integer's.\<close>

definition counter :: "string option \<Rightarrow> int option" where
  "counter x = (case x of
       None \<Rightarrow> Some 0
     | Some v \<Rightarrow> (case parse_int v of Some i \<Rightarrow> if int_text i = v then Some i else None | None \<Rightarrow> None))"

definition int64 :: "int \<Rightarrow> bool" where
  "int64 i \<longleftrightarrow> - (2 ^ 63) \<le> i \<and> i < 2 ^ 63"

definition put_field :: "(string \<Rightarrow> string \<Rightarrow> string option) \<Rightarrow> string \<Rightarrow> string \<Rightarrow> string \<Rightarrow> string \<Rightarrow> string \<Rightarrow> string option" where
  "put_field h k f v = h(k := (h k)(f \<mapsto> v))"

locale hash_store =
  fixes ops :: "'s hash_ops"
    and hview :: "'s \<Rightarrow> string \<Rightarrow> string \<Rightarrow> string option"
    and members :: "'s \<Rightarrow> string \<Rightarrow> string set"
    and up :: "'s \<Rightarrow> bool"
  assumes incr_Inr: "hs_hincrby ops k f a s = (Inr n, t) \<Longrightarrow> \<exists>i. counter (hview s k f) = Some i \<and> n = i + a \<and>
      hview t = put_field (hview s) k f (int_text n) \<and> members t = members s"
    and incr_Inl: "hs_hincrby ops k f a s = (Inl e, t) \<Longrightarrow> is_Exception e \<and> members t = members s \<and>
      (hview t = hview s \<or> (\<exists>v. hview t = put_field (hview s) k f v))"
    and incr_up: "up s \<Longrightarrow> counter (hview s k f) = Some i \<Longrightarrow> int64 (i + a) \<Longrightarrow>
      \<exists>n t. hs_hincrby ops k f a s = (Inr n, t) \<and> up t"
    and hset_Inr: "hs_hset ops k f v s = (Inr m, t) \<Longrightarrow>
      hview t = put_field (hview s) k f v \<and> members t = members s"
    and hset_Inl: "hs_hset ops k f v s = (Inl e, t) \<Longrightarrow> is_Exception e \<and> members t = members s \<and>
      (hview t = hview s \<or> hview t = put_field (hview s) k f v)"
    and hset_up: "up s \<Longrightarrow> \<exists>m t. hs_hset ops k f v s = (Inr m, t) \<and> up t"
    and sadd_Inr: "hs_sadd ops k v s = (Inr c, t) \<Longrightarrow>
      members t = (members s)(k := insert v (members s k)) \<and> hview t = hview s"
    and sadd_Inl: "hs_sadd ops k v s = (Inl e, t) \<Longrightarrow> is_Exception e \<and> hview t = hview s \<and>
      (members t = members s \<or> members t = (members s)(k := insert v (members s k)))"
    and sadd_up: "up s \<Longrightarrow> \<exists>c t. hs_sadd ops k v s = (Inr c, t) \<and> up t"
    and getall_Inr: "hs_hgetall ops k s = (Inr kvs, t) \<Longrightarrow> map_of kvs = hview s k \<and> distinct (map fst kvs) \<and>
      hview t = hview s \<and> members t = members s"
    and getall_up: "up s \<Longrightarrow> \<exists>kvs t. hs_hgetall ops k s = (Inr kvs, t) \<and> up t"
    and smembers_Inr: "hs_smembers ops k s = (Inr vs, t) \<Longrightarrow> set vs = members s k \<and> distinct vs \<and>
      hview t = hview s \<and> members t = members s"
    and smembers_up: "up s \<Longrightarrow> \<exists>vs t. hs_smembers ops k s = (Inr vs, t) \<and> up t"
begin

lemma incr_upE:
  assumes "up s" and "counter (hview s k f) = Some i" and "int64 (i + a)"
  obtains t where "hs_hincrby ops k f a s = (Inr (i + a), t)" "up t"
    "hview t = put_field (hview s) k f (int_text (i + a))" "members t = members s"
proof -
  obtain n t where t: "hs_hincrby ops k f a s = (Inr n, t)" "up t" using incr_up [OF assms] by blast
  show thesis using that [of t] t incr_Inr [OF t(1)] assms(2) by auto
qed

lemma hset_upE:
  assumes "up s"
  obtains m t where "hs_hset ops k f v s = (Inr m, t)" "up t" "hview t = put_field (hview s) k f v" "members t = members s"
  using hset_up [OF assms, of k f v] hset_Inr by blast

lemma sadd_upE:
  assumes "up s"
  obtains c t where "hs_sadd ops k v s = (Inr c, t)" "up t" "hview t = hview s"
    "members t = (members s)(k := insert v (members s k))"
  using sadd_up [OF assms, of k v] sadd_Inr by blast

lemma getall_upE:
  assumes "up s"
  obtains kvs t where "hs_hgetall ops k s = (Inr kvs, t)" "up t" "hview t = hview s" "members t = members s"
    "map_of kvs = hview s k" "distinct (map fst kvs)"
  using getall_up [OF assms, of k] getall_Inr by blast

lemma smembers_upE:
  assumes "up s"
  obtains vs t where "hs_smembers ops k s = (Inr vs, t)" "up t" "hview t = hview s" "members t = members s"
    "set vs = members s k" "distinct vs"
  using smembers_up [OF assms, of k] smembers_Inr by blast

end

subsection \<open>Decimal texts\<close>

lemma parse_int_int_text [simp]: "parse_int (int_text i) = Some i"
proof (cases "i < 0")
  case True
  have d: "list_all is_ascii_digit (nat_text (nat (- i)))" "nat_text (nat (- i)) \<noteq> []"
    by (simp_all add: nat_text_digits)
  have "strip (CHR ''-'' # nat_text (nat (- i))) = CHR ''-'' # nat_text (nat (- i))"
    using d(1) ascii_digit_not_space by (intro strip_idem_nonspace) (auto simp: list_all_iff is_space_def ord_def)
  moreover have "digits_us False 0 (nat_text (nat (- i))) = Some (nat (- i))"
    using digits_us_digits [OF d(1)] d(2) digits_val_nat_text [of "nat (- i)"] by (simp add: digits_val_def)
  ultimately show ?thesis using True by (simp add: int_text_def parse_int_def)
next
  case False
  then show ?thesis by (simp add: int_text_def parse_int_nat_text)
qed

lemma counter_simps [simp]: "counter None = Some 0" "counter (Some (int_text i)) = Some i"
  by (simp_all add: counter_def)

subsection \<open>On the reference Redis\<close>

definition redis_hash_field :: "string \<Rightarrow> string \<Rightarrow> string \<Rightarrow> 'm redis_scheme \<Rightarrow> 'm redis_scheme" where
  "redis_hash_field k f v s = s\<lparr>hashes := (hashes s)(k := AList.update f v (hashes s k))\<rparr>"

definition redis_hincrby :: "string \<Rightarrow> string \<Rightarrow> int \<Rightarrow> 'm redis_scheme \<Rightarrow> int option \<times> 'm redis_scheme" where
  "redis_hincrby k f a s = (case counter (map_of (hashes s k) f) of
       None \<Rightarrow> (None, s)
     | Some i \<Rightarrow> if int64 (i + a) then (Some (i + a), redis_hash_field k f (int_text (i + a)) s) else (None, s))"

definition redis_hash :: "'m redis_scheme hash_ops" where
  "redis_hash = \<lparr>
     hs_hincrby = \<lambda>k f a. bindP (command (redis_hincrby k f a))
       (\<lambda>x. case x of None \<Rightarrow> raise (OtherException ''redis.exceptions.ResponseError'') | Some n \<Rightarrow> ret n),
     hs_hset = \<lambda>k f v. command (\<lambda>s. (if f \<in> fst ` set (hashes s k) then 0 else 1, redis_hash_field k f v s)),
     hs_hgetall = \<lambda>k. command (\<lambda>s. (AList.clearjunk (hashes s k), s)),
     hs_sadd = \<lambda>k v. command (\<lambda>s. (if v \<in> set (sets s k) then 0 else 1,
       s\<lparr>sets := (sets s)(k := List.insert v (sets s k))\<rparr>)),
     hs_smembers = \<lambda>k. command (\<lambda>s. (remdups (sets s k), s))\<rparr>"

definition redis_fields :: "'m redis_scheme \<Rightarrow> string \<Rightarrow> string \<Rightarrow> string option" where
  "redis_fields s k = map_of (hashes s k)"

definition redis_members :: "'m redis_scheme \<Rightarrow> string \<Rightarrow> string set" where
  "redis_members s k = set (sets s k)"

lemmas redis_hash_defs = redis_hash_def redis_hash_field_def redis_fields_def [abs_def] redis_members_def [abs_def]
  put_field_def

lemma redis_put_field: "redis_fields (redis_hash_field k f v s) = put_field (redis_fields s) k f v"
  "redis_members (redis_hash_field k f v s) = redis_members s" "faults (redis_hash_field k f v s) = faults s"
  by (simp_all add: redis_hash_defs fun_eq_iff update_conv')

lemma redis_views_faults [simp]: "redis_fields (s\<lparr>faults := fs\<rparr>) = redis_fields s"
  "redis_members (s\<lparr>faults := fs\<rparr>) = redis_members s"
  by (simp_all add: redis_hash_defs)

interpretation redis_hash: hash_store redis_hash redis_fields redis_members redis_up
proof unfold_locales
  fix k f v and a i n :: int and s t :: "'m redis_scheme" and e :: exn and m c :: int
  have hf: "redis_hincrby k f a s = (x, u) \<Longrightarrow> (x = None \<and> u = s) \<or>
      (\<exists>i. counter (redis_fields s k f) = Some i \<and> x = Some (i + a) \<and> u = redis_hash_field k f (int_text (i + a)) s)" for x u
    by (auto simp: redis_hincrby_def redis_fields_def split: option.splits if_splits)
  show "hs_hincrby redis_hash k f a s = (Inr n, t) \<Longrightarrow> \<exists>i. counter (redis_fields s k f) = Some i \<and> n = i + a \<and>
      redis_fields t = put_field (redis_fields s) k f (int_text n) \<and> redis_members t = redis_members s"
    using hf by (cases "redis_hincrby k f a s")
      (fastforce simp: redis_hash_def bindP_eq_Inr redis_put_field dest!: command_Inr split: option.splits)
  show "hs_hincrby redis_hash k f a s = (Inl e, t) \<Longrightarrow> is_Exception e \<and> redis_members t = redis_members s \<and>
      (redis_fields t = redis_fields s \<or> (\<exists>v. redis_fields t = put_field (redis_fields s) k f v))"
    using hf by (cases "redis_hincrby k f a s")
      (fastforce simp: redis_hash_def bindP_eq_Inl redis_put_field dest!: command_Inr command_Inl split: option.splits)
  show "redis_up s \<Longrightarrow> counter (redis_fields s k f) = Some i \<Longrightarrow> int64 (i + a) \<Longrightarrow>
      \<exists>n t. hs_hincrby redis_hash k f a s = (Inr n, t) \<and> redis_up t"
    by (simp add: redis_hash_def bindP_def command_up redis_hincrby_def redis_fields_def redis_put_field redis_up_def)
next
  fix k f v and s t :: "'m redis_scheme" and e :: exn and m c :: int
  show "hs_hset redis_hash k f v s = (Inr m, t) \<Longrightarrow>
      redis_fields t = put_field (redis_fields s) k f v \<and> redis_members t = redis_members s"
    by (auto simp: redis_hash_def redis_put_field dest!: command_Inr)
  show "hs_hset redis_hash k f v s = (Inl e, t) \<Longrightarrow> is_Exception e \<and> redis_members t = redis_members s \<and>
      (redis_fields t = redis_fields s \<or> redis_fields t = put_field (redis_fields s) k f v)"
    by (auto simp: redis_hash_def redis_put_field dest!: command_Inl)
  show "redis_up s \<Longrightarrow> \<exists>m t. hs_hset redis_hash k f v s = (Inr m, t) \<and> redis_up t"
    by (simp add: redis_hash_def command_up redis_put_field redis_up_def)
  show "hs_sadd redis_hash k v s = (Inr c, t) \<Longrightarrow>
      redis_members t = (redis_members s)(k := insert v (redis_members s k)) \<and> redis_fields t = redis_fields s"
    by (auto simp: redis_hash_defs fun_eq_iff dest!: command_Inr)
  show "hs_sadd redis_hash k v s = (Inl e, t) \<Longrightarrow> is_Exception e \<and> redis_fields t = redis_fields s \<and>
      (redis_members t = redis_members s \<or> redis_members t = (redis_members s)(k := insert v (redis_members s k)))"
    by (auto simp: redis_hash_defs fun_eq_iff dest!: command_Inl)
  show "redis_up s \<Longrightarrow> \<exists>c t. hs_sadd redis_hash k v s = (Inr c, t) \<and> redis_up t"
    by (simp add: redis_hash_def command_up redis_up_def)
next
  fix k and s t :: "'m redis_scheme" and kvs vs
  show "hs_hgetall redis_hash k s = (Inr kvs, t) \<Longrightarrow> map_of kvs = redis_fields s k \<and> distinct (map fst kvs) \<and>
      redis_fields t = redis_fields s \<and> redis_members t = redis_members s"
    by (auto simp: redis_hash_def redis_fields_def map_of_clearjunk distinct_clearjunk redis_members_def dest!: command_Inr)
  show "redis_up s \<Longrightarrow> \<exists>kvs t. hs_hgetall redis_hash k s = (Inr kvs, t) \<and> redis_up t"
    by (simp add: redis_hash_def command_up)
  show "hs_smembers redis_hash k s = (Inr vs, t) \<Longrightarrow> set vs = redis_members s k \<and> distinct vs \<and>
      redis_fields t = redis_fields s \<and> redis_members t = redis_members s"
    by (auto simp: redis_hash_def redis_members_def dest!: command_Inr)
  show "redis_up s \<Longrightarrow> \<exists>vs t. hs_smembers redis_hash k s = (Inr vs, t) \<and> redis_up t"
    by (simp add: redis_hash_def command_up)
qed

end
