(* ===== verification/Metrics.thy ===== *)
theory Metrics
  imports Hashes Observability Hashing
begin

section \<open>Metrics and queues (\<open>metrics.py\<close>, \<open>queueing.py\<close>, \<open>metrics_service.py\<close>)\<close>

text \<open>
  \<open>RedisMetricsStore\<close> keeps counters and gauges of every source in one hash per source; the Prometheus
  text, the loopback endpoint that serves it, and the queue vocabulary of \<open>queueing.py\<close>. Each method is
  one definition over \<open>hash_ops\<close>. A Celery application is the record of the settings that the code makes.

  The contract is what was recorded: the lemmas show that a counter holds the sum of what the calls on its
  source added, that sources do not affect each other, and that a scrape after any sequence of calls
  reports those sums.
\<close>

subsection \<open>Queues\<close>

record QueueDepths =
  http :: int
  browser :: int

definition queue_for :: "string \<Rightarrow> string result" where
  "queue_for task_kind = (if task_kind \<notin> {''http'', ''browser''}
     then Inl (ValueError (''Unsupported task kind: '' @ task_kind)) else Inr task_kind)"

definition queue_depths :: "(string \<Rightarrow> ('s, int) py) \<Rightarrow> ('s, QueueDepths) py" where
  "queue_depths llen = bindP (llen ''http'') (\<lambda>h. bindP (llen ''browser'') (\<lambda>b. ret \<lparr>http = h, browser = b\<rparr>))"

record celery_conf =
  broker :: "string option"
  task_acks_late :: bool
  task_reject_on_worker_lost :: bool
  worker_prefetch_multiplier :: int
  task_serializer :: string
  accept_content :: "string list"
  result_backend :: "string option"
  task_default_retry_delay :: int
  task_soft_time_limit :: int
  task_time_limit :: int
  visibility_timeout :: int
  task_queues :: "string list"
  task_routes :: "(string \<times> string) list"

definition create_celery_app :: "(string \<Rightarrow> string option) \<Rightarrow> string option \<Rightarrow> celery_conf" where
  "create_celery_app environ broker_url = \<lparr>
     broker = (case broker_url of Some u \<Rightarrow> if u = [] then environ ''REDIS_URL'' else Some u | None \<Rightarrow> environ ''REDIS_URL''),
     task_acks_late = True, task_reject_on_worker_lost = True, worker_prefetch_multiplier = 1,
     task_serializer = ''json'', accept_content = [''json''], result_backend = None, task_default_retry_delay = 1,
     task_soft_time_limit = 60, task_time_limit = 75, visibility_timeout = 10,
     task_queues = [''http'', ''browser''],
     task_routes = [(''multisite_crawler.tasks.run_http_task'', ''http''),
       (''multisite_crawler.tasks.run_browser_task'', ''browser''),
       (''multisite_crawler.tasks.run_browser_runtime_probe_task'', ''browser''),
       (''multisite_crawler.tasks.run_delivery_probe_task'', ''http''),
       (''multisite_crawler.tasks.run_lock_probe_task'', ''http'')]\<rparr>"

subsection \<open>The metrics store\<close>

definition METRICS_PREFIX :: string where
  "METRICS_PREFIX = ''crawler:metrics''"

definition source_key :: "string \<Rightarrow> string" where
  "source_key source_id = METRICS_PREFIX @ '':source:'' @ source_id"

definition sources_key :: string where
  "sources_key = METRICS_PREFIX @ '':sources''"

definition validate_source :: "string \<Rightarrow> unit result" where
  "validate_source source_id = (if \<not> source_id_match source_id
     then Inl (ValueError ''source_id must match [a-z0-9_-]+'') else Inr ())"

definition register_source :: "'s hash_ops \<Rightarrow> string \<Rightarrow> ('s, unit) py" where
  "register_source ops source_id = bindP (hs_sadd ops sources_key source_id) (\<lambda>_. ret ())"

definition hincr :: "'s hash_ops \<Rightarrow> string \<Rightarrow> string \<Rightarrow> int \<Rightarrow> ('s, unit) py" where
  "hincr ops key field amount = bindP (hs_hincrby ops key field amount) (\<lambda>_. ret ())"

definition hput :: "'s hash_ops \<Rightarrow> string \<Rightarrow> string \<Rightarrow> string \<Rightarrow> ('s, unit) py" where
  "hput ops key field value = bindP (hs_hset ops key field value) (\<lambda>_. ret ())"

definition record_run :: "'s hash_ops \<Rightarrow> zone_db \<Rightarrow> (int \<Rightarrow> int) \<Rightarrow> string \<Rightarrow> string \<Rightarrow> RunOutcome \<Rightarrow> rat \<Rightarrow> int \<Rightarrow>
    datetime \<Rightarrow> ('s, unit) py" where
  "record_run ops zone local source_id run_id outcome duration_seconds item_count current =
     bindP (liftR (validate_source source_id)) (\<lambda>_.
     if duration_seconds < 0 \<or> item_count < 0 then raise (ValueError ''run metrics must not be negative'')
     else let key = source_key source_id in
       thenP (register_source ops source_id)
       (thenP (hincr ops key (''run_total:'' @ outcome_value outcome) 1)
       (thenP (if outcome = FAILED then hincr ops key ''run_failed_total'' 1 else ret ())
       (thenP (hput ops key ''run_duration_seconds'' (float_text duration_seconds))
       (thenP (hput ops key ''items_found'' (int_text item_count))
       (thenP (hput ops key ''last_run_id'' run_id)
       (if outcome = SUCCEEDED
        then hput ops key ''last_success_timestamp'' (float_text (py_timestamp zone local current)) else ret ())))))))"

definition record_http_status :: "'s hash_ops \<Rightarrow> string \<Rightarrow> int \<Rightarrow> ('s, unit) py" where
  "record_http_status ops source_id status_code =
     bindP (liftR (validate_source source_id)) (\<lambda>_.
     if status_code < 100 \<or> 599 < status_code then raise (ValueError ''status_code must be an HTTP status'')
     else thenP (register_source ops source_id)
       (hincr ops (source_key source_id) (''http_status:'' @ int_text status_code) 1))"

definition record_items :: "'s hash_ops \<Rightarrow> string \<Rightarrow> int \<Rightarrow> int \<Rightarrow> ('s, unit) py" where
  "record_items ops source_id created updated =
     bindP (liftR (validate_source source_id)) (\<lambda>_.
     if created < 0 \<or> updated < 0 then raise (ValueError ''item metrics must not be negative'')
     else let key = source_key source_id in
       thenP (register_source ops source_id)
       (thenP (hincr ops key ''items_created'' created) (hincr ops key ''items_updated'' updated)))"

definition increment_field :: "'s hash_ops \<Rightarrow> string \<Rightarrow> string \<Rightarrow> ('s, unit) py" where
  "increment_field ops source_id field =
     bindP (liftR (validate_source source_id)) (\<lambda>_.
     thenP (register_source ops source_id) (hincr ops (source_key source_id) field 1))"

definition record_parse_error :: "'s hash_ops \<Rightarrow> string \<Rightarrow> ('s, unit) py" where
  "record_parse_error ops source_id = increment_field ops source_id ''parse_error_total''"

definition record_lock_skip :: "'s hash_ops \<Rightarrow> string \<Rightarrow> ('s, unit) py" where
  "record_lock_skip ops source_id = increment_field ops source_id ''lock_skip_total''"

definition record_circuit_breaker :: "'s hash_ops \<Rightarrow> string \<Rightarrow> bool \<Rightarrow> ('s, unit) py" where
  "record_circuit_breaker ops source_id is_open =
     bindP (liftR (validate_source source_id)) (\<lambda>_.
     thenP (register_source ops source_id)
       (hput ops (source_key source_id) ''circuit_breaker_state'' (if is_open then ''1'' else ''0'')))"

record MetricsSnapshot =
  snap_sources :: "(string \<times> (string \<times> string) list) list"
  snap_depths :: QueueDepths

definition snapshot :: "'s hash_ops \<Rightarrow> QueueDepths \<Rightarrow> ('s, MetricsSnapshot) py" where
  "snapshot ops depths = bindP (hs_smembers ops sources_key) (\<lambda>ids.
     bindP (mapP (\<lambda>source_id. bindP (hs_hgetall ops (source_key source_id)) (\<lambda>kvs. ret (source_id, kvs))) (sort ids))
       (\<lambda>sources. ret \<lparr>snap_sources = sources, snap_depths = depths\<rparr>))"

subsection \<open>The Prometheus text\<close>

text \<open>\<open>_metric\<close>: labels sorted by name.\<close>

definition metric_line :: "string \<Rightarrow> string \<Rightarrow> (string \<times> string) list \<Rightarrow> string" where
  "metric_line name value labels = name @ ''{'' @
     join '','' (map (\<lambda>(k, v). k @ ''='' @ [CHR 0x22] @ v @ [CHR 0x22]) (sort_key fst labels)) @ ''} '' @ value"

definition field_or :: "(string \<times> string) list \<Rightarrow> string \<Rightarrow> string" where
  "field_or values name = (case map_of values name of Some v \<Rightarrow> v | None \<Rightarrow> ''0'')"

definition run_total_lines :: "string \<Rightarrow> (string \<times> string) list \<Rightarrow> string list" where
  "run_total_lines source_id values = ''# TYPE crawler_run_total counter'' #
     map (\<lambda>outcome. metric_line ''crawler_run_total'' (field_or values (''run_total:'' @ outcome_value outcome))
       [(''source_id'', source_id), (''outcome'', outcome_value outcome)]) [SUCCEEDED, FAILED, SKIPPED]"

definition metric_fields :: "(string \<times> string \<times> string) list" where
  "metric_fields = [
     (''crawler_run_failed_total'', ''run_failed_total'', ''counter''),
     (''crawler_run_duration_seconds'', ''run_duration_seconds'', ''gauge''),
     (''crawler_items_found'', ''items_found'', ''gauge''),
     (''crawler_items_created'', ''items_created'', ''counter''),
     (''crawler_items_updated'', ''items_updated'', ''counter''),
     (''crawler_last_success_timestamp'', ''last_success_timestamp'', ''gauge''),
     (''crawler_parse_error_total'', ''parse_error_total'', ''counter''),
     (''crawler_lock_skip_total'', ''lock_skip_total'', ''counter''),
     (''crawler_circuit_breaker_state'', ''circuit_breaker_state'', ''gauge'')]"

text \<open>\<open>sorted(values.items())\<close> orders by field, since the fields of a dict are distinct; \<open>field.split(":", 1)[1]\<close> is
  what follows the prefix.\<close>

definition http_status_lines :: "string \<Rightarrow> (string \<times> string) list \<Rightarrow> string list" where
  "http_status_lines source_id values = concat (map (\<lambda>(field, value).
     if starts_with ''http_status:'' field
     then [''# TYPE crawler_http_status_total counter'', metric_line ''crawler_http_status_total'' value
       [(''source_id'', source_id), (''status_code'', (case split1 (CHR '':'') field of (_, Some c) \<Rightarrow> c | _ \<Rightarrow> []))]]
     else []) (sort_key fst values))"

definition source_lines :: "string \<times> (string \<times> string) list \<Rightarrow> string list" where
  "source_lines src = (case src of (source_id, values) \<Rightarrow>
     run_total_lines source_id values @
     concat (map (\<lambda>(metric_name, field, metric_type).
       [''# TYPE '' @ metric_name @ '' '' @ metric_type,
        metric_line metric_name (field_or values field) [(''source_id'', source_id)]]) metric_fields) @
     http_status_lines source_id values)"

definition render_lines :: "MetricsSnapshot \<Rightarrow> string list" where
  "render_lines snap =
     [''# HELP crawler_queue_depth Current queue backlog.'', ''# TYPE crawler_queue_depth gauge'',
      metric_line ''crawler_queue_depth'' (int_text (http (snap_depths snap))) [(''queue'', ''http'')],
      metric_line ''crawler_queue_depth'' (int_text (browser (snap_depths snap))) [(''queue'', ''browser'')]] @
     concat (map source_lines (snap_sources snap))"

definition render_prometheus :: "MetricsSnapshot \<Rightarrow> string" where
  "render_prometheus snap = join [CHR 0x0A] (render_lines snap) @ [CHR 0x0A]"

subsection \<open>The endpoint\<close>

text \<open>What a request handler sends: a response, or \<open>send_error\<close>.\<close>

datatype http_reply = Reply int "(string \<times> string) list" string | ErrorReply int

definition metrics_get :: "('s, MetricsSnapshot) py \<Rightarrow> string \<Rightarrow> ('s, http_reply) py" where
  "metrics_get snapshot_reader request_path =
     (if request_path \<noteq> ''/metrics'' then ret (ErrorReply 404)
      else bindP snapshot_reader (\<lambda>snap. let content = utf8 (render_prometheus snap) in
        ret (Reply 200 [(''Content-Type'', ''text/plain; version=0.0.4''),
          (''Content-Length'', int_text (int (length content)))] content)))"

definition create_metrics_server :: "string \<Rightarrow> int \<Rightarrow> ('s, MetricsSnapshot) py \<Rightarrow>
    (string \<times> int \<times> (string \<Rightarrow> ('s, http_reply) py)) result" where
  "create_metrics_server host port snapshot_reader =
     (if host \<noteq> ''127.0.0.1'' then Inl (ValueError ''metrics service must bind to 127.0.0.1'')
      else Inr (host, port, metrics_get snapshot_reader))"

subsection \<open>What a sequence of calls records\<close>

datatype metric_call =
    RunCall string string RunOutcome rat int datetime
  | StatusCall string int
  | ItemsCall string int int
  | ParseErrorCall string
  | LockSkipCall string
  | BreakerCall string bool

fun do_metric :: "'s hash_ops \<Rightarrow> zone_db \<Rightarrow> (int \<Rightarrow> int) \<Rightarrow> metric_call \<Rightarrow> ('s, unit) py" where
  "do_metric ops zone local (RunCall sid run_id oc d n current) = record_run ops zone local sid run_id oc d n current"
| "do_metric ops zone local (StatusCall sid c) = record_http_status ops sid c"
| "do_metric ops zone local (ItemsCall sid a b) = record_items ops sid a b"
| "do_metric ops zone local (ParseErrorCall sid) = record_parse_error ops sid"
| "do_metric ops zone local (LockSkipCall sid) = record_lock_skip ops sid"
| "do_metric ops zone local (BreakerCall sid b) = record_circuit_breaker ops sid b"

fun call_source :: "metric_call \<Rightarrow> string" where
  "call_source (RunCall sid _ _ _ _ _) = sid"
| "call_source (StatusCall sid _) = sid"
| "call_source (ItemsCall sid _ _) = sid"
| "call_source (ParseErrorCall sid) = sid"
| "call_source (LockSkipCall sid) = sid"
| "call_source (BreakerCall sid _) = sid"

fun call_args_ok :: "metric_call \<Rightarrow> bool" where
  "call_args_ok (RunCall _ _ _ d n _) = (0 \<le> d \<and> 0 \<le> n)"
| "call_args_ok (StatusCall _ c) = (100 \<le> c \<and> c \<le> 599)"
| "call_args_ok (ItemsCall _ a b) = (0 \<le> a \<and> 0 \<le> b)"
| "call_args_ok _ = True"

text \<open>What one call adds to a counter of its source.\<close>

fun added :: "metric_call \<Rightarrow> string \<Rightarrow> int" where
  "added (RunCall _ _ oc _ _ _) f = (if f = ''run_total:'' @ outcome_value oc then 1
     else if oc = FAILED \<and> f = ''run_failed_total'' then 1 else 0)"
| "added (StatusCall _ c) f = (if f = ''http_status:'' @ int_text c then 1 else 0)"
| "added (ItemsCall _ a b) f = (if f = ''items_created'' then a else if f = ''items_updated'' then b else 0)"
| "added (ParseErrorCall _) f = (if f = ''parse_error_total'' then 1 else 0)"
| "added (LockSkipCall _) f = (if f = ''lock_skip_total'' then 1 else 0)"
| "added (BreakerCall _ _) f = 0"

definition recorded :: "metric_call list \<Rightarrow> string \<Rightarrow> string \<Rightarrow> int" where
  "recorded calls sid f = (\<Sum>c \<leftarrow> calls. if call_source c = sid then added c f else 0)"

fun call_weight :: "metric_call \<Rightarrow> int" where
  "call_weight (ItemsCall _ a b) = max a b"
| "call_weight _ = 1"

definition gauge_names :: "string list" where
  "gauge_names = [''run_duration_seconds'', ''items_found'', ''last_run_id'', ''last_success_timestamp'', ''circuit_breaker_state'']"

lemma zero_text: "int_text 0 = ''0''"
  by (simp add: int_text_def nat_text.simps)

primrec do_metrics :: "'s hash_ops \<Rightarrow> zone_db \<Rightarrow> (int \<Rightarrow> int) \<Rightarrow> metric_call list \<Rightarrow> ('s, unit) py" where
  "do_metrics ops zone local [] = ret ()"
| "do_metrics ops zone local (c # cs) = thenP (do_metric ops zone local c) (do_metrics ops zone local cs)"

lemma recorded_Cons: "recorded (c # cs) sid f = (if call_source c = sid then added c f else 0) + recorded cs sid f"
  by (simp add: recorded_def)

lemma recorded_Nil: "recorded [] sid f = 0"
  by (simp add: recorded_def)

lemma call_weight_nonneg: "call_args_ok c \<Longrightarrow> 0 \<le> call_weight c"
  by (cases c) auto

lemma weights_nonneg: "\<forall>c \<in> set cs. call_args_ok c \<Longrightarrow> 0 \<le> sum_list (map call_weight cs)"
  using call_weight_nonneg by (induction cs) auto

lemma source_key_inj [simp]: "source_key a = source_key b \<longleftrightarrow> a = b"
  by (simp add: source_key_def)

lemma added_bounds: "call_args_ok c \<Longrightarrow> 0 \<le> added c f \<and> added c f \<le> call_weight c"
  by (cases c) auto

context hash_store
begin

definition counts :: "(string \<Rightarrow> string \<Rightarrow> int) \<Rightarrow> 's \<Rightarrow> bool" where
  "counts N s \<longleftrightarrow> up s \<and> (\<forall>sid f. f \<notin> set gauge_names \<longrightarrow> counter (hview s (source_key sid) f) = Some (N sid f))"

definition bumped :: "(string \<Rightarrow> string \<Rightarrow> int) \<Rightarrow> string \<Rightarrow> string \<Rightarrow> int \<Rightarrow> string \<Rightarrow> string \<Rightarrow> int" where
  "bumped N sid f a = (\<lambda>sid' f'. N sid' f' + (if sid' = sid \<and> f' = f then a else 0))"

lemma register_counts:
  assumes "counts N s"
  shows "\<exists>t. register_source ops sid s = (Inr (), t) \<and> counts N t \<and>
    members t = (members s)(sources_key := insert sid (members s sources_key))"
proof -
  have u: "up s" using assms by (simp add: counts_def)
  obtain c t where t: "hs_sadd ops sources_key sid s = (Inr c, t)" "up t" "hview t = hview s"
    "members t = (members s)(sources_key := insert sid (members s sources_key))"
    by (rule sadd_upE [OF u])
  then show ?thesis using assms by (simp add: register_source_def counts_def)
qed

lemma hput_counts:
  assumes "counts N s" and "f \<in> set gauge_names"
  shows "\<exists>t. hput ops (source_key sid) f v s = (Inr (), t) \<and> counts N t \<and> members t = members s"
proof -
  have u: "up s" using assms(1) by (simp add: counts_def)
  obtain m t where t: "hs_hset ops (source_key sid) f v s = (Inr m, t)" "up t"
    "hview t = put_field (hview s) (source_key sid) f v" "members t = members s"
    by (rule hset_upE [OF u])
  have "counts N t" using assms t(2) by (auto simp: counts_def t(3) put_field_def)
  then show ?thesis using t(1,4) by (simp add: hput_def)
qed

lemma hincr_counts:
  assumes "counts N s" and "f \<notin> set gauge_names" and "int64 (N sid f + a)"
  shows "\<exists>t. hincr ops (source_key sid) f a s = (Inr (), t) \<and> counts (bumped N sid f a) t \<and> members t = members s"
proof -
  have u: "up s" and c: "counter (hview s (source_key sid) f) = Some (N sid f)" using assms(1,2) by (simp_all add: counts_def)
  obtain t where t: "hs_hincrby ops (source_key sid) f a s = (Inr (N sid f + a), t)" "up t"
    "hview t = put_field (hview s) (source_key sid) f (int_text (N sid f + a))" "members t = members s"
    by (rule incr_upE [OF u c assms(3)])
  have "counts (bumped N sid f a) t" using assms(1) t(2) by (auto simp: counts_def t(3) put_field_def bumped_def)
  then show ?thesis using t(1,4) by (simp add: hincr_def)
qed

text \<open>A step that succeeds, with what it leaves of the counters and the set of sources.\<close>

definition steps :: "('s, unit) py \<Rightarrow> 's \<Rightarrow> (string \<Rightarrow> string \<Rightarrow> int) \<Rightarrow> (string \<Rightarrow> string set) \<Rightarrow> bool" where
  "steps m s N M \<longleftrightarrow> (\<exists>t. m s = (Inr (), t) \<and> counts N t \<and> members t = M)"

lemma steps_then: "steps m s N M \<Longrightarrow> (\<And>t. counts N t \<Longrightarrow> members t = M \<Longrightarrow> steps n t N' M') \<Longrightarrow>
    steps (thenP m n) s N' M'"
  by (fastforce simp: steps_def)

lemma steps_ret: "counts N s \<Longrightarrow> members s = M \<Longrightarrow> steps (ret ()) s N M"
  by (simp add: steps_def)

lemma steps_put: "counts N s \<Longrightarrow> members s = M \<Longrightarrow> f \<in> set gauge_names \<Longrightarrow> steps (hput ops (source_key sid) f v) s N M"
  using hput_counts by (fastforce simp: steps_def)

lemma steps_incr: "counts N s \<Longrightarrow> members s = M \<Longrightarrow> f \<notin> set gauge_names \<Longrightarrow> int64 (N sid f + a) \<Longrightarrow>
    N' = bumped N sid f a \<Longrightarrow> steps (hincr ops (source_key sid) f a) s N' M"
  using hincr_counts by (fastforce simp: steps_def)

lemma steps_register: "counts N s \<Longrightarrow> M = (members s)(sources_key := insert sid (members s sources_key)) \<Longrightarrow>
    steps (register_source ops sid) s N M"
  using register_counts by (fastforce simp: steps_def)

lemma bumped_zero: "bumped N sid f 0 = N"
  by (simp add: bumped_def fun_eq_iff)

lemma not_gauge: "''run_total:'' @ x \<notin> set gauge_names" "''run_failed_total'' \<notin> set gauge_names"
  "''http_status:'' @ x \<notin> set gauge_names" "''items_created'' \<notin> set gauge_names" "''items_updated'' \<notin> set gauge_names"
  "''parse_error_total'' \<notin> set gauge_names" "''lock_skip_total'' \<notin> set gauge_names"
  by (simp_all add: gauge_names_def)

lemma gauges: "''run_duration_seconds'' \<in> set gauge_names" "''items_found'' \<in> set gauge_names"
  "''last_run_id'' \<in> set gauge_names" "''last_success_timestamp'' \<in> set gauge_names" "''circuit_breaker_state'' \<in> set gauge_names"
  by (simp_all add: gauge_names_def)

abbreviation with_source :: "'s \<Rightarrow> string \<Rightarrow> string \<Rightarrow> string set" where
  "with_source s sid \<equiv> (members s)(sources_key := insert sid (members s sources_key))"

abbreviation room :: "(string \<Rightarrow> string \<Rightarrow> int) \<Rightarrow> int \<Rightarrow> bool" where
  "room N w \<equiv> \<forall>sid f. 0 \<le> N sid f \<and> N sid f + w < 2 ^ 63"

lemma room_int64: "room N w \<Longrightarrow> 0 \<le> a \<Longrightarrow> a \<le> w \<Longrightarrow> int64 (N sid f + a)"
proof -
  assume "room N w" "0 \<le> a" "a \<le> w"
  then have "0 \<le> N sid f" "N sid f + w < 2 ^ 63" by blast+
  then show ?thesis using \<open>0 \<le> a\<close> \<open>a \<le> w\<close> by (simp add: int64_def)
qed

lemma increment_steps:
  assumes "counts N s" and "room N 1" and "source_id_match sid" and "f \<notin> set gauge_names"
  shows "steps (increment_field ops sid f) s (bumped N sid f 1) (with_source s sid)"
proof -
  have "steps (thenP (register_source ops sid) (hincr ops (source_key sid) f 1)) s (bumped N sid f 1) (with_source s sid)"
    by (rule steps_then [OF steps_register [OF assms(1) refl]])
      (auto intro!: steps_incr assms(4) room_int64 [OF assms(2)])
  then show ?thesis using assms(3) by (simp add: increment_field_def validate_source_def)
qed

lemma record_items_steps:
  assumes "counts N s" and "room N (max a b)" and "source_id_match sid" and "0 \<le> a" and "0 \<le> b"
  shows "steps (record_items ops sid a b) s (bumped (bumped N sid ''items_created'' a) sid ''items_updated'' b) (with_source s sid)"
proof -
  have r: "int64 (bumped N sid ''items_created'' a sid ''items_updated'' + b)"
    using room_int64 [OF assms(2), of b sid "''items_updated''"] assms(5) by (simp add: bumped_def)
  have "steps (thenP (register_source ops sid)
      (thenP (hincr ops (source_key sid) ''items_created'' a) (hincr ops (source_key sid) ''items_updated'' b))) s
    (bumped (bumped N sid ''items_created'' a) sid ''items_updated'' b) (with_source s sid)"
    by (rule steps_then [OF steps_register [OF assms(1) refl]],
        rule steps_then [OF steps_incr [OF _ _ not_gauge(4) _ refl]], assumption, assumption,
        rule room_int64 [OF assms(2,4)], simp,
        rule steps_incr, assumption, assumption, rule not_gauge(5), rule r, rule refl)
  then show ?thesis using assms(3-5) by (simp add: record_items_def validate_source_def Let_def not_less)
qed

lemma record_run_steps:
  assumes "counts N s" and "room N 1" and "source_id_match sid" and "0 \<le> d" and "0 \<le> n"
  shows "steps (record_run ops zone local sid run_id oc d n current) s
    (bumped (bumped N sid (''run_total:'' @ outcome_value oc) 1) sid ''run_failed_total'' (if oc = FAILED then 1 else 0))
    (with_source s sid)"
proof -
  let ?k = "source_key sid" and ?M = "with_source s sid" and ?N1 = "bumped N sid (''run_total:'' @ outcome_value oc) 1"
  let ?N2 = "bumped ?N1 sid ''run_failed_total'' (if oc = FAILED then 1 else 0)"
  have r: "int64 (?N1 sid ''run_failed_total'' + 1)"
    using room_int64 [OF assms(2), of 1 sid "''run_failed_total''"] by (cases oc) (simp_all add: bumped_def)
  have 7: "steps (if oc = SUCCEEDED then hput ops ?k ''last_success_timestamp'' (float_text (py_timestamp zone local current)) else ret ()) t ?N2 ?M"
    if "counts ?N2 t" "members t = ?M" for t
    using that by (auto intro: steps_put steps_ret gauges)
  have 3: "steps (if oc = FAILED then hincr ops ?k ''run_failed_total'' 1 else ret ()) t ?N2 ?M"
    if "counts ?N1 t" "members t = ?M" for t
    using that r steps_incr [OF that not_gauge(2) r refl] by (cases oc) (simp_all add: bumped_zero steps_ret)
  have "steps (thenP (register_source ops sid)
       (thenP (hincr ops ?k (''run_total:'' @ outcome_value oc) 1)
       (thenP (if oc = FAILED then hincr ops ?k ''run_failed_total'' 1 else ret ())
       (thenP (hput ops ?k ''run_duration_seconds'' (float_text d))
       (thenP (hput ops ?k ''items_found'' (int_text n))
       (thenP (hput ops ?k ''last_run_id'' run_id)
       (if oc = SUCCEEDED then hput ops ?k ''last_success_timestamp'' (float_text (py_timestamp zone local current)) else ret ()))))))) s ?N2 ?M"
    by (rule steps_then [OF steps_register [OF assms(1) refl]],
        rule steps_then [OF steps_incr [OF _ _ not_gauge(1) _ refl]], assumption, assumption, rule room_int64 [OF assms(2)],
        simp, simp, rule steps_then [OF 3], assumption, assumption,
        rule steps_then [OF steps_put [OF _ _ gauges(1)]], assumption, assumption,
        rule steps_then [OF steps_put [OF _ _ gauges(2)]], assumption, assumption,
        rule steps_then [OF steps_put [OF _ _ gauges(3)]], assumption, assumption, rule 7)
  then show ?thesis using assms(3-5) by (simp add: record_run_def validate_source_def Let_def not_less)
qed

lemma status_steps:
  assumes "counts N s" and "room N 1" and "source_id_match sid" and "100 \<le> c" and "c \<le> 599"
  shows "steps (record_http_status ops sid c) s (bumped N sid (''http_status:'' @ int_text c) 1) (with_source s sid)"
proof -
  have "steps (thenP (register_source ops sid) (hincr ops (source_key sid) (''http_status:'' @ int_text c) 1)) s
      (bumped N sid (''http_status:'' @ int_text c) 1) (with_source s sid)"
    by (rule steps_then [OF steps_register [OF assms(1) refl]])
      (rule steps_incr, assumption, assumption, rule not_gauge(3), rule room_int64 [OF assms(2)], simp, simp, rule refl)
  then show ?thesis using assms(3-5) by (simp add: record_http_status_def validate_source_def not_less)
qed

lemma breaker_steps:
  assumes "counts N s" and "source_id_match sid"
  shows "steps (record_circuit_breaker ops sid b) s N (with_source s sid)"
proof -
  have "steps (thenP (register_source ops sid) (hput ops (source_key sid) ''circuit_breaker_state'' (if b then ''1'' else ''0''))) s
      N (with_source s sid)"
    by (rule steps_then [OF steps_register [OF assms(1) refl]]) (auto intro: steps_put gauges)
  then show ?thesis using assms(2) by (simp add: record_circuit_breaker_def validate_source_def)
qed

lemma do_metric_steps:
  assumes c: "counts N s" and ok: "source_id_match (call_source m)" "call_args_ok m" and room: "room N (call_weight m)"
  shows "steps (do_metric ops zone local m) s
    (\<lambda>sid f. N sid f + (if call_source m = sid then added m f else 0)) (with_source s (call_source m))"
proof (cases m)
  case (RunCall sid run_id oc d n current)
  have "(\<lambda>sid' f. N sid' f + (if call_source m = sid' then added m f else 0)) =
      bumped (bumped N sid (''run_total:'' @ outcome_value oc) 1) sid ''run_failed_total'' (if oc = FAILED then 1 else 0)"
    by (cases oc) (auto simp: RunCall bumped_def fun_eq_iff)
  then show ?thesis using record_run_steps [OF c] ok room by (simp add: RunCall)
next
  case (StatusCall sid k)
  have "(\<lambda>sid' f. N sid' f + (if call_source m = sid' then added m f else 0)) = bumped N sid (''http_status:'' @ int_text k) 1"
    by (auto simp: StatusCall bumped_def fun_eq_iff)
  then show ?thesis using status_steps [OF c] ok room by (simp add: StatusCall)
next
  case (ItemsCall sid a b)
  have "(\<lambda>sid' f. N sid' f + (if call_source m = sid' then added m f else 0)) =
      bumped (bumped N sid ''items_created'' a) sid ''items_updated'' b"
    by (auto simp: ItemsCall bumped_def fun_eq_iff)
  then show ?thesis using record_items_steps [OF c] ok room by (simp add: ItemsCall)
next
  case (ParseErrorCall sid)
  have "(\<lambda>sid' f. N sid' f + (if call_source m = sid' then added m f else 0)) = bumped N sid ''parse_error_total'' 1"
    by (auto simp: ParseErrorCall bumped_def fun_eq_iff)
  then show ?thesis using increment_steps [OF c _ _ not_gauge(6)] ok room by (simp add: ParseErrorCall record_parse_error_def)
next
  case (LockSkipCall sid)
  have "(\<lambda>sid' f. N sid' f + (if call_source m = sid' then added m f else 0)) = bumped N sid ''lock_skip_total'' 1"
    by (auto simp: LockSkipCall bumped_def fun_eq_iff)
  then show ?thesis using increment_steps [OF c _ _ not_gauge(7)] ok room by (simp add: LockSkipCall record_lock_skip_def)
next
  case (BreakerCall sid b)
  then have "(\<lambda>sid' f. N sid' f + (if call_source m = sid' then added m f else 0)) = N" by (simp add: fun_eq_iff)
  then show ?thesis using breaker_steps [OF c] ok BreakerCall by simp
qed

lemma do_metrics_steps:
  "counts N s \<Longrightarrow> \<forall>c \<in> set cs. source_id_match (call_source c) \<and> call_args_ok c \<Longrightarrow>
    room N (sum_list (map call_weight cs)) \<Longrightarrow>
    steps (do_metrics ops zone local cs) s (\<lambda>sid f. N sid f + recorded cs sid f)
      ((members s)(sources_key := members s sources_key \<union> call_source ` set cs))"
proof (induction cs arbitrary: N s)
  case Nil
  then show ?case by (simp add: steps_def recorded_Nil)
next
  case (Cons c cs)
  let ?N = "\<lambda>sid f. N sid f + (if call_source c = sid then added c f else 0)"
  have ok: "source_id_match (call_source c)" "call_args_ok c" using Cons.prems(2) by simp_all
  have w: "0 \<le> sum_list (map call_weight cs)" using Cons.prems(2) by (intro weights_nonneg) simp
  have r: "0 \<le> N sid f" "N sid f + call_weight c + sum_list (map call_weight cs) < 2 ^ 63" for sid f
    using Cons.prems(3) by (auto simp: add.assoc)
  have 1: "steps (do_metric ops zone local c) s ?N (with_source s (call_source c))"
    using r w by (intro do_metric_steps [OF Cons.prems(1) ok] allI) (smt (verit))
  have room: "room ?N (sum_list (map call_weight cs))"
  proof (intro allI)
    fix sid f
    show "0 \<le> ?N sid f \<and> ?N sid f + sum_list (map call_weight cs) < 2 ^ 63"
      using r [of sid f] added_bounds [OF ok(2), of f] call_weight_nonneg [OF ok(2)] by auto
  qed
  have "steps (do_metrics ops zone local cs) t (\<lambda>sid f. N sid f + recorded (c # cs) sid f)
      ((members s)(sources_key := members s sources_key \<union> call_source ` set (c # cs)))"
    if t: "counts ?N t" "members t = with_source s (call_source c)" for t
  proof -
    have "steps (do_metrics ops zone local cs) t (\<lambda>sid f. ?N sid f + recorded cs sid f)
        ((members t)(sources_key := members t sources_key \<union> call_source ` set cs))"
      by (rule Cons.IH [OF t(1) _ room]) (use Cons.prems(2) in simp)
    moreover have "(\<lambda>sid f. ?N sid f + recorded cs sid f) = (\<lambda>sid f. N sid f + recorded (c # cs) sid f)"
      by (simp add: fun_eq_iff recorded_Cons)
    moreover have "(members t)(sources_key := members t sources_key \<union> call_source ` set cs) =
        (members s)(sources_key := members s sources_key \<union> call_source ` set (c # cs))"
      by (simp add: t(2))
    ultimately show ?thesis by simp
  qed
  with 1 show ?case unfolding do_metrics.simps by (rule steps_then)
qed

lemma snapshot_sources:
  "up s \<Longrightarrow> \<exists>srcs t. mapP (\<lambda>sid. bindP (hs_hgetall ops (source_key sid)) (\<lambda>kvs. ret (sid, kvs))) ids s = (Inr srcs, t) \<and>
    map fst srcs = ids \<and> (\<forall>(sid, kvs) \<in> set srcs. map_of kvs = hview s (source_key sid))"
proof (induction ids arbitrary: s)
  case (Cons sid ids)
  obtain kvs t where g: "hs_hgetall ops (source_key sid) s = (Inr kvs, t)" "up t" "hview t = hview s"
    "members t = members s" "map_of kvs = hview s (source_key sid)" "distinct (map fst kvs)"
    by (rule getall_upE [OF Cons.prems])
  with Cons.IH [OF g(2)] show ?case by fastforce
qed simp

lemma snapshot_counts:
  assumes "counts N s"
  obtains snap t where "snapshot ops depths s = (Inr snap, t)" "snap_depths snap = depths"
    "map fst (snap_sources snap) = sorted_list_of_set (members s sources_key)"
    "\<And>sid kvs f. (sid, kvs) \<in> set (snap_sources snap) \<Longrightarrow> f \<notin> set gauge_names \<Longrightarrow> field_or kvs f = int_text (N sid f)"
proof -
  have u: "up s" using assms by (simp add: counts_def)
  obtain ids s1 where i: "hs_smembers ops sources_key s = (Inr ids, s1)" "up s1" "hview s1 = hview s"
    "members s1 = members s" "set ids = members s sources_key" "distinct ids"
    by (rule smembers_upE [OF u])
  obtain srcs t where m: "mapP (\<lambda>sid. bindP (hs_hgetall ops (source_key sid)) (\<lambda>kvs. ret (sid, kvs))) (sort ids) s1 = (Inr srcs, t)"
    "map fst srcs = sort ids" "\<forall>(sid, kvs) \<in> set srcs. map_of kvs = hview s1 (source_key sid)"
    using snapshot_sources [OF i(2)] by blast
  have v: "field_or kvs f = int_text (N sid f)" if "(sid, kvs) \<in> set srcs" "f \<notin> set gauge_names" for sid kvs f
  proof -
    have "counter (map_of kvs f) = Some (N sid f)" using that m(3) i(3) assms by (auto simp: counts_def)
    then show ?thesis
      by (cases "map_of kvs f") (auto simp: field_or_def counter_def zero_text split: option.splits if_splits)
  qed
  have sl: "sort ids = sorted_list_of_set (members s sources_key)"
    using i(5,6) sorted_list_of_set_sort_remdups [of ids] by (simp add: distinct_remdups_id)
  show thesis
    by (rule that [of "\<lparr>snap_sources = srcs, snap_depths = depths\<rparr>" t]) (use i(1) m v sl in \<open>simp_all add: snapshot_def\<close>)
qed

end

lemma render_source: "src \<in> set (snap_sources snap) \<Longrightarrow> set (source_lines src) \<subseteq> set (render_lines snap)"
  by (auto simp: render_lines_def)

lemma run_total_line: "metric_line ''crawler_run_total'' (field_or kvs (''run_total:'' @ outcome_value oc))
    [(''source_id'', sid), (''outcome'', outcome_value oc)] \<in> set (source_lines (sid, kvs))"
  by (cases oc) (simp_all add: source_lines_def run_total_lines_def)

lemma field_line: "(name, field, kind) \<in> set metric_fields \<Longrightarrow>
    metric_line name (field_or kvs field) [(''source_id'', sid)] \<in> set (source_lines (sid, kvs))"
  by (force simp: source_lines_def)

lemma counter_not_gauge: "(name, field, ''counter'') \<in> set metric_fields \<Longrightarrow> field \<notin> set gauge_names"
  by (auto simp: metric_fields_def gauge_names_def)



end
