(* ===== verification/Tasks.thy ===== *)
theory Tasks
  imports Locking FailureSnapshots BrowserSession BrowserRuntime
begin

section \<open>Task entry points (\<open>tasks.py\<close>)\<close>

text \<open>
  \<open>run_with_source_lease\<close>, which runs one operation of a source under its Redis lease with a heartbeat,
  a run event and a metric, statement by statement with its \<open>except BaseException\<close> and \<open>finally\<close>; the
  Celery tasks around it, the browser probe and the snapshot cleanup. The world of a task is a record of
  operations (\<open>task_env\<close>): the clock, \<open>uuid4\<close>, the event logger, the lease store, and starting and
  stopping a heartbeat thread. What the threads do meanwhile is part of what the operation's call may
  change; the interleavings of renewals with other runs are the protocol of \<open>Locking\<close>.

  The lemmas: a run that does not get the lease runs nothing; otherwise the operation runs once, one
  terminal event is logged, its outcome is the result, and the lease is given back on every path that
  reaches the \<open>try\<close>; a renewal interval that the heartbeat refuses leaves the lease behind.
\<close>

abbreviation LOCK_TTL_SECONDS :: int where
  "LOCK_TTL_SECONDS \<equiv> 90"

datatype 'a task_result = Result 'a | SKIPPED_OVERLAP

record 's task_env =
  te_run :: "'s run_env"
  te_leases :: "'s lease_ops"
  te_token :: "('s, string) py"
  te_info :: "string \<Rightarrow> ('s, unit) py"
  te_start :: "heartbeat \<Rightarrow> ('s, unit) py"
  te_stop :: "heartbeat \<Rightarrow> ('s, unit) py"
  te_now :: "('s, datetime) py"

text \<open>\<open>MetricsRecorder.record_run\<close>: source, run, outcome, duration, item count, current time.\<close>

type_synonym 's metrics_recorder =
  "string \<Rightarrow> string \<Rightarrow> RunOutcome \<Rightarrow> rat \<Rightarrow> int \<Rightarrow> datetime \<Rightarrow> ('s, unit) py"

definition record_terminal_metric :: "'s task_env \<Rightarrow> 's metrics_recorder option \<Rightarrow> run_context \<Rightarrow> RunOutcome \<Rightarrow>
    rat \<Rightarrow> ('s, unit) py" where
  "record_terminal_metric env metrics_store ctx outcome started_at = (case metrics_store of
       None \<Rightarrow> ret ()
     | Some record_run \<Rightarrow> bindP (monotonic (te_run env)) (\<lambda>t. bindP (te_now env) (\<lambda>current.
         record_run (ctx_source_id ctx) (ctx_crawl_run_id ctx) outcome (t - started_at) 0 current)))"

definition emit_terminal :: "'s task_env \<Rightarrow> string \<Rightarrow> run_context \<Rightarrow> RunOutcome \<Rightarrow> rat \<Rightarrow> exn option \<Rightarrow> ('s, unit) py" where
  "emit_terminal env name ctx outcome started_at error =
     bindP (monotonic (te_run env)) (\<lambda>t.
     bindP (liftR (RunEvent name ctx outcome (Some (Fin (t - started_at))) (Some 0) error [])) (emit_run_event (te_run env)))"

definition default_interval :: "int \<Rightarrow> rat" where
  "default_interval ttl = max 1 (of_int ttl / 3)"

text \<open>The protected part: the body of the \<open>try\<close> with its handler, and its \<open>finally\<close>.\<close>

definition leased_operation :: "'s task_env \<Rightarrow> 's metrics_recorder option \<Rightarrow> run_context \<Rightarrow> rat \<Rightarrow>
    ('s, 'a) py \<Rightarrow> ('s, 'a task_result) py" where
  "leased_operation env metrics_store ctx started_at operation = tryP
     (bindP operation (\<lambda>x.
       thenP (emit_terminal env ''run_finished'' ctx SUCCEEDED started_at None)
       (thenP (record_terminal_metric env metrics_store ctx SUCCEEDED started_at)
       (ret (Result x)))))
     (\<lambda>e. Some (
       thenP (emit_terminal env ''run_failed'' ctx FAILED started_at (Some e))
       (thenP (record_terminal_metric env metrics_store ctx FAILED started_at)
       (raise e))))"

definition end_lease :: "'s task_env \<Rightarrow> heartbeat \<Rightarrow> lease \<Rightarrow> ('s, bool) py" where
  "end_lease env hb l = thenP (te_stop env hb) (lease_release (te_leases env) l)"

definition run_with_source_lease :: "'s task_env \<Rightarrow> string \<Rightarrow> ('s, 'a) py \<Rightarrow> int \<Rightarrow> rat option \<Rightarrow> string \<Rightarrow>
    's metrics_recorder option \<Rightarrow> ('s, 'a task_result) py" where
  "run_with_source_lease env source_id operation ttl renew_interval task_id metrics_store =
     bindP (uuid4 (te_run env)) (\<lambda>run_id.
     bindP (liftR (RunContext source_id run_id task_id)) (\<lambda>ctx.
     bindP (monotonic (te_run env)) (\<lambda>started_at.
     bindP (te_token env) (\<lambda>tok.
     bindP (liftR (RedisLease (source_lock_key source_id) ttl None tok)) (\<lambda>l.
     bindP (lease_acquire (te_leases env) l) (\<lambda>acquired.
     if \<not> acquired then
       thenP (te_info env (''skipped_overlap source_id='' @ source_id))
       (thenP (emit_terminal env ''run_skipped'' ctx SKIPPED started_at None)
       (thenP (record_terminal_metric env metrics_store ctx SKIPPED started_at)
       (ret SKIPPED_OVERLAP)))
     else
       bindP (liftR (LeaseHeartbeat l (case renew_interval of Some i \<Rightarrow> i | None \<Rightarrow> default_interval ttl))) (\<lambda>hb.
       thenP (te_start env hb)
       (finallyP (leased_operation env metrics_store ctx started_at operation) (end_lease env hb l)))))))))"

subsection \<open>Tasks\<close>

text \<open>\<open>str(result)\<close> of a source id or a \<open>LockOutcome\<close>.\<close>

fun task_text :: "string task_result \<Rightarrow> string" where
  "task_text (Result x) = x"
| "task_text SKIPPED_OVERLAP = ''skipped_overlap''"

text \<open>\<open>connect url\<close> is \<open>Redis.from_url\<close>, whose client the operations of \<open>env\<close> and the metrics store use.\<close>

definition source_task :: "(string \<Rightarrow> string option) \<Rightarrow> (string \<Rightarrow> ('s, unit) py) \<Rightarrow> 's task_env \<Rightarrow> 's metrics_recorder \<Rightarrow>
    string \<Rightarrow> ('s, string) py" where
  "source_task environ connect env metrics source_id =
     bindP (liftR (environ_item environ ''REDIS_URL'')) (\<lambda>url.
     thenP (connect url)
     (thenP (connect url)
     (bindP (run_with_source_lease env source_id (ret source_id) LOCK_TTL_SECONDS None ''internal'' (Some metrics))
       (\<lambda>r. ret (task_text r)))))"

definition run_http_task :: "(string \<Rightarrow> string option) \<Rightarrow> (string \<Rightarrow> ('s, unit) py) \<Rightarrow> 's task_env \<Rightarrow> 's metrics_recorder \<Rightarrow>
    string \<Rightarrow> ('s, string) py" where
  "run_http_task = source_task"

definition run_browser_task :: "(string \<Rightarrow> string option) \<Rightarrow> (string \<Rightarrow> ('s, unit) py) \<Rightarrow> 's task_env \<Rightarrow> 's metrics_recorder \<Rightarrow>
    string \<Rightarrow> ('s, string) py" where
  "run_browser_task = source_task"

text \<open>A browser operation is run by the managed runtime: \<open>run_managed\<close> is its \<open>run\<close>.\<close>

definition run_browser_operation :: "'s task_env \<Rightarrow> (('p \<Rightarrow> ('s, 'a) py) \<Rightarrow> ('s, 'a) py) \<Rightarrow> string \<Rightarrow> ('p \<Rightarrow> ('s, 'a) py) \<Rightarrow>
    ('s, 'a task_result) py" where
  "run_browser_operation env run_managed source_id operation =
     run_with_source_lease env source_id (run_managed operation) LOCK_TTL_SECONDS None ''internal'' None"

definition record_browser_session_observation :: "'s kv_ops \<Rightarrow> zone_db \<Rightarrow> string \<Rightarrow> BrowserSessionObservation \<Rightarrow>
    datetime \<Rightarrow> ('s, BrowserSessionState) py" where
  "record_browser_session_observation ops zone profile obs current = record_observation ops zone profile obs current"

definition probe_url_from_environment :: "(string \<Rightarrow> bool) \<Rightarrow> (string \<Rightarrow> string option) \<Rightarrow> string result" where
  "probe_url_from_environment bracket_ok environ =
     (let url = strip (environ_get environ ''BROWSER_RUNTIME_PROBE_URL'' []) in
      bindR (urlsplit bracket_ok url) (\<lambda>parsed.
        if url = [] \<or> scheme parsed \<noteq> ''http'' \<or> hostname parsed \<noteq> Some ''127.0.0.1'' \<or>
           username parsed \<noteq> None \<or> password parsed \<noteq> None
        then Inl (BrowserRuntimeConfigurationError ''BROWSER_RUNTIME_PROBE_URL must be an explicit http://127.0.0.1 fixture URL'')
        else Inr url))"

definition run_browser_runtime_probe :: "(string \<Rightarrow> bool) \<Rightarrow> (string \<Rightarrow> string option) \<Rightarrow> 's task_env \<Rightarrow>
    (('p \<Rightarrow> ('s, string) py) \<Rightarrow> ('s, string) py) \<Rightarrow> ('p \<Rightarrow> string \<Rightarrow> ('s, unit) py) \<Rightarrow> ('p \<Rightarrow> ('s, string) py) \<Rightarrow>
    ('s, string task_result) py" where
  "run_browser_runtime_probe bracket_ok environ env run_managed goto title =
     bindP (liftR (probe_url_from_environment bracket_ok environ)) (\<lambda>url.
     run_browser_operation env run_managed ''browser_runtime_probe'' (\<lambda>page. thenP (goto page url) (title page)))"

text \<open>\<open>_browser_runtime\<close> without arguments, as the \<open>run\<close> of the runtime it builds: the gateway is Playwright, the settings
  come from the environment, and the writer's constructor creates its directory.\<close>

definition browser_runtime :: "'s file_ops \<Rightarrow> path_ops \<Rightarrow> (string \<Rightarrow> html_event list) \<Rightarrow> ('s, string) py \<Rightarrow>
    ('s, 'c, 'p) gateway \<Rightarrow> (string \<Rightarrow> string option) \<Rightarrow> string \<Rightarrow> ('s, ('p \<Rightarrow> ('s, 'a) py) \<Rightarrow> ('s, 'a) py) py" where
  "browser_runtime files paths tokens uuid4_hex gw environ repository_root =
     bindP (browser_settings_from_environment files paths environ repository_root) (\<lambda>st.
     thenP (BrowserArtifactWriter files (failure_snapshot_dir st))
     (ret (runtime_run gw st (Some (write_failure files tokens uuid4_hex (failure_snapshot_dir st))))))"

definition run_browser_runtime_probe_task :: "(string \<Rightarrow> bool) \<Rightarrow> 's file_ops \<Rightarrow> path_ops \<Rightarrow> (string \<Rightarrow> html_event list) \<Rightarrow>
    ('s, string) py \<Rightarrow> ('s, 'c, 'p) gateway \<Rightarrow> (string \<Rightarrow> string option) \<Rightarrow> string \<Rightarrow> (string \<Rightarrow> ('s, unit) py) \<Rightarrow> 's task_env \<Rightarrow>
    ('p \<Rightarrow> string \<Rightarrow> ('s, unit) py) \<Rightarrow> ('p \<Rightarrow> ('s, string) py) \<Rightarrow> ('s, string) py" where
  "run_browser_runtime_probe_task bracket_ok files paths tokens uuid4_hex gw environ repository_root connect env goto title =
     bindP (browser_runtime files paths tokens uuid4_hex gw environ repository_root) (\<lambda>run.
     bindP (liftR (environ_item environ ''REDIS_URL'')) (\<lambda>url.
     thenP (connect url)
     (bindP (run_browser_runtime_probe bracket_ok environ env run goto title) (\<lambda>r. ret (task_text r)))))"

definition run_delivery_probe_task :: "(int \<Rightarrow> ('s, unit) py) \<Rightarrow> int \<Rightarrow> ('s, string) py" where
  "run_delivery_probe_task sleep seconds = thenP (sleep seconds) (ret ''delivery-probe'')"

definition run_lock_probe_task :: "(string \<Rightarrow> string option) \<Rightarrow> (string \<Rightarrow> ('s, unit) py) \<Rightarrow> 's task_env \<Rightarrow>
    (int \<Rightarrow> ('s, unit) py) \<Rightarrow> string \<Rightarrow> int \<Rightarrow> ('s, string) py" where
  "run_lock_probe_task environ connect env sleep source_id seconds =
     bindP (liftR (environ_item environ ''REDIS_URL'')) (\<lambda>url.
     thenP (connect url)
     (bindP (run_with_source_lease env source_id (thenP (sleep seconds) (ret source_id)) LOCK_TTL_SECONDS None ''internal'' None)
       (\<lambda>r. ret (task_text r))))"

definition cleanup_failure_snapshots_from_environment :: "'s file_ops \<Rightarrow> path_ops \<Rightarrow> zone_db \<Rightarrow> (int \<Rightarrow> int) \<Rightarrow>
    (string \<Rightarrow> string option) \<Rightarrow> string \<Rightarrow> datetime \<Rightarrow> ('s, int) py" where
  "cleanup_failure_snapshots_from_environment ops paths zone local environ repository_root current =
     (let raw_root = strip (environ_get environ ''FAILURE_SNAPSHOT_DIR'' []) in
      if raw_root = [] then raise (ValueError ''FAILURE_SNAPSHOT_DIR is required'')
      else case parse_int (environ_get environ ''FAILURE_SNAPSHOT_RETENTION_DAYS'' []) of
        None \<Rightarrow> raise (ValueError ''FAILURE_SNAPSHOT_RETENTION_DAYS must be an integer'')
      | Some days \<Rightarrow>
          if days \<le> 0 then raise (ValueError ''FAILURE_SNAPSHOT_RETENTION_DAYS must be positive'')
          else bindP (liftR (bindR (timedelta_seconds (days * 86400)) (\<lambda>us. dt_add current (- us)))) (\<lambda>cutoff.
            cleanup_expired_snapshots ops paths zone local raw_root cutoff repository_root))"

definition cleanup_failure_snapshots_task :: "'s file_ops \<Rightarrow> path_ops \<Rightarrow> zone_db \<Rightarrow> (int \<Rightarrow> int) \<Rightarrow>
    (string \<Rightarrow> string option) \<Rightarrow> string \<Rightarrow> ('s, datetime) py \<Rightarrow> ('s, string) py" where
  "cleanup_failure_snapshots_task ops paths zone local environ repository_root now =
     bindP now (\<lambda>current.
     bindP (cleanup_failure_snapshots_from_environment ops paths zone local environ repository_root current)
       (\<lambda>n. ret (int_text n)))"

subsection \<open>Shape of a run\<close>

lemma leased_not_skipped: "leased_operation env ms ctx t0 operation s \<noteq> (Inr SKIPPED_OVERLAP, t)"
  by (auto simp: leased_operation_def tryP_def bindP_def thenP_def split: prod.splits sum.splits)

text \<open>The lease of a run with a given token.\<close>

definition run_lease :: "string \<Rightarrow> int \<Rightarrow> string \<Rightarrow> lease" where
  "run_lease source_id ttl tok = \<lparr>lease_key = source_lock_key source_id, ttl_seconds = ttl, token = tok\<rparr>"

lemma RedisLease_Inr: "RedisLease key ttl None tok = Inr l \<longleftrightarrow>
    0 < ttl \<and> l = \<lparr>lease_key = key, ttl_seconds = ttl, token = tok\<rparr>"
  by (auto simp: RedisLease_def)

text \<open>Up to the answer of the acquisition every run is the same call.\<close>

definition acquisition :: "'s task_env \<Rightarrow> string \<Rightarrow> int \<Rightarrow> string \<Rightarrow> ('s, run_context \<times> rat \<times> lease \<times> bool) py" where
  "acquisition env source_id ttl task_id =
     bindP (uuid4 (te_run env)) (\<lambda>run_id.
     bindP (liftR (RunContext source_id run_id task_id)) (\<lambda>ctx.
     bindP (monotonic (te_run env)) (\<lambda>started_at.
     bindP (te_token env) (\<lambda>tok.
     bindP (liftR (RedisLease (source_lock_key source_id) ttl None tok)) (\<lambda>l.
     bindP (lease_acquire (te_leases env) l) (\<lambda>acquired. ret (ctx, started_at, l, acquired)))))))"

definition skip_run :: "'s task_env \<Rightarrow> string \<Rightarrow> 's metrics_recorder option \<Rightarrow> run_context \<Rightarrow> rat \<Rightarrow> ('s, 'a task_result) py" where
  "skip_run env source_id ms ctx t0 =
     thenP (te_info env (''skipped_overlap source_id='' @ source_id))
       (thenP (emit_terminal env ''run_skipped'' ctx SKIPPED t0 None)
       (thenP (record_terminal_metric env ms ctx SKIPPED t0) (ret SKIPPED_OVERLAP)))"

definition leased_run :: "'s task_env \<Rightarrow> 's metrics_recorder option \<Rightarrow> run_context \<Rightarrow> rat \<Rightarrow> lease \<Rightarrow> int \<Rightarrow> rat option \<Rightarrow>
    ('s, 'a) py \<Rightarrow> ('s, 'a task_result) py" where
  "leased_run env ms ctx t0 l ttl interval operation =
     bindP (liftR (LeaseHeartbeat l (case interval of Some i \<Rightarrow> i | None \<Rightarrow> default_interval ttl))) (\<lambda>hb.
       thenP (te_start env hb) (finallyP (leased_operation env ms ctx t0 operation) (end_lease env hb l)))"

lemma bindP_assoc: "bindP (bindP m f) g = bindP m (\<lambda>x. bindP (f x) g)"
  by (auto simp: fun_eq_iff bindP_def split: prod.splits sum.splits)

lemma if_not_swap: "(if \<not> b then x else y) = (if b then y else x)"
  by simp

lemma run_split: "run_with_source_lease env source_id operation ttl interval task_id ms =
    bindP (acquisition env source_id ttl task_id) (\<lambda>(ctx, t0, l, acquired).
      if acquired then leased_run env ms ctx t0 l ttl interval operation else skip_run env source_id ms ctx t0)"
  unfolding run_with_source_lease_def acquisition_def bindP_assoc leased_run_def skip_run_def if_not_swap by simp

lemma acquisition_lease:
  assumes "acquisition env source_id ttl task_id s = (Inr (ctx, t0, l, got), t)"
  shows "lease_key l = source_lock_key source_id" and "ttl_seconds l = ttl" and "0 < ttl"
    and "ctx_source_id ctx = source_id" and "\<exists>s'. lease_acquire (te_leases env) l s' = (Inr got, t)"
proof -
  from assms obtain tok s' u where "RunContext source_id u task_id = Inr ctx"
    "RedisLease (source_lock_key source_id) ttl None tok = Inr l" "lease_acquire (te_leases env) l s' = (Inr got, t)"
    by (auto simp: acquisition_def bindP_eq_Inr)
  then show "lease_key l = source_lock_key source_id" "ttl_seconds l = ttl" "0 < ttl"
    "ctx_source_id ctx = source_id" "\<exists>s'. lease_acquire (te_leases env) l s' = (Inr got, t)"
    by (auto simp: RedisLease_Inr RunContext_def split: if_splits)
qed

lemma run_Inr: "acquisition env source_id ttl task_id s = (Inr (ctx, t0, l, got), s') \<Longrightarrow>
    run_with_source_lease env source_id operation ttl interval task_id ms s =
      (if got then leased_run env ms ctx t0 l ttl interval operation s' else skip_run env source_id ms ctx t0 s')"
  by (simp add: run_split)

lemma run_Inl: "acquisition env source_id ttl task_id s = (Inl e, s') \<Longrightarrow>
    run_with_source_lease env source_id operation ttl interval task_id ms s = (Inl e, s')"
  by (simp add: run_split)

subsection \<open>The world of a task\<close>

text \<open>
  What a run needs of its world: the clock never goes back, an event that is logged is appended to the
  log (\<open>logging\<close> swallows the errors of its handlers), and nothing else writes run events. The lease
  store may raise.
\<close>

definition calm :: "('s \<Rightarrow> (log_level \<times> run_event) list) \<Rightarrow> ('s \<Rightarrow> rat) \<Rightarrow> 's \<Rightarrow> 's \<Rightarrow> bool" where
  "calm logged clk s t \<longleftrightarrow> logged t = logged s \<and> clk s \<le> clk t"

definition total :: "('s \<Rightarrow> 's \<Rightarrow> bool) \<Rightarrow> ('s, 'a) py \<Rightarrow> bool" where
  "total R m \<longleftrightarrow> (\<forall>s. \<exists>x t. m s = (Inr x, t) \<and> R s t)"

lemma totalE: "total R m \<Longrightarrow> (\<And>x t. m s = (Inr x, t) \<Longrightarrow> R s t \<Longrightarrow> P) \<Longrightarrow> P"
  unfolding total_def by blast

lemma calm_trans: "calm lg ck s t \<Longrightarrow> calm lg ck t u \<Longrightarrow> calm lg ck s u"
  by (auto simp: calm_def)

definition terminal_event :: "string \<Rightarrow> run_context \<Rightarrow> RunOutcome \<Rightarrow> rat \<Rightarrow> exn option \<Rightarrow> run_event" where
  "terminal_event name ctx outcome d error = \<lparr>ev_name = name, ev_context = ctx, ev_outcome = outcome,
     ev_duration = Some (Fin d), ev_item_count = Some 0, ev_exception = error, ev_extra = []\<rparr>"

text \<open>A metrics recorder that never raises and logs no run event.\<close>

definition sound_recorder :: "('s \<Rightarrow> 's \<Rightarrow> bool) \<Rightarrow> 's metrics_recorder option \<Rightarrow> bool" where
  "sound_recorder R ms \<longleftrightarrow> (\<forall>rec. ms = Some rec \<longrightarrow> (\<forall>i u oc d n now. total R (rec i u oc d n now)))"

definition terminal_name :: "'a result \<Rightarrow> string" where
  "terminal_name r = (case r of Inr _ \<Rightarrow> ''run_finished'' | Inl _ \<Rightarrow> ''run_failed'')"

definition result_outcome :: "'a result \<Rightarrow> RunOutcome" where
  "result_outcome r = (case r of Inr _ \<Rightarrow> SUCCEEDED | Inl _ \<Rightarrow> FAILED)"

definition result_error :: "'a result \<Rightarrow> exn option" where
  "result_error r = (case r of Inr _ \<Rightarrow> None | Inl e \<Rightarrow> Some e)"

locale task_world =
  fixes env :: "'s task_env"
    and logged :: "'s \<Rightarrow> (log_level \<times> run_event) list"
    and clk :: "'s \<Rightarrow> rat"
  assumes uuid4_law: "total (calm logged clk) (uuid4 (te_run env))"
    and monotonic_law: "\<exists>t. monotonic (te_run env) s = (Inr (clk s), t) \<and> calm logged clk s t"
    and token_law: "total (calm logged clk) (te_token env)"
    and now_law: "total (calm logged clk) (te_now env)"
    and info_law: "total (calm logged clk) (te_info env message)"
    and start_law: "total (calm logged clk) (te_start env hb)"
    and stop_law: "total (calm logged clk) (te_stop env hb)"
    and log_law: "\<exists>t. log_event (te_run env) lv ev s = (Inr (), t) \<and> clk s \<le> clk t \<and>
      logged t = logged s @ [(lv, ev)]"
    and acquire_law: "keeps (calm logged clk) (lease_acquire (te_leases env) l)"
    and release_law: "keeps (calm logged clk) (lease_release (te_leases env) l)"
begin

abbreviation quiet :: "'s \<Rightarrow> 's \<Rightarrow> bool" where
  "quiet \<equiv> calm logged clk"

lemma emit_terminal_logs:
  assumes "t0 \<le> clk s" and "event_name_match name"
  obtains t d where "emit_terminal env name ctx oc t0 err s = (Inr (), t)" "clk s \<le> clk t" "0 \<le> d"
    "logged t = logged s @ [(if oc = FAILED then ERROR else INFO, terminal_event name ctx oc d err)]"
proof -
  obtain s1 where m: "monotonic (te_run env) s = (Inr (clk s), s1)" "quiet s s1" using monotonic_law by blast
  let ?ev = "terminal_event name ctx oc (clk s - t0) err"
  obtain t where l: "log_event (te_run env) (if oc = FAILED then ERROR else INFO) ?ev s1 = (Inr (), t)"
    "clk s1 \<le> clk t" "logged t = logged s1 @ [(if oc = FAILED then ERROR else INFO, ?ev)]"
    using log_law by blast
  have "RunEvent name ctx oc (Some (Fin (clk s - t0))) (Some 0) err [] = Inr ?ev"
    using assms by (simp add: RunEvent_def float_negative_def terminal_event_def)
  moreover have "ev_outcome ?ev = oc" by (simp add: terminal_event_def)
  ultimately have "emit_terminal env name ctx oc t0 err s = (Inr (), t)"
    using m(1) l(1) by (simp add: emit_terminal_def emit_run_event_def)
  then show thesis using that [of t "clk s - t0"] m(2) l(2,3) assms(1) by (auto simp: calm_def)
qed

lemma record_terminal_quiet:
  assumes "sound_recorder quiet ms"
  obtains t where "record_terminal_metric env ms ctx oc t0 s = (Inr (), t)" "quiet s t"
proof (cases ms)
  case None
  then show thesis using that [of s] by (simp add: record_terminal_metric_def calm_def)
next
  case (Some rec)
  obtain s1 where m: "monotonic (te_run env) s = (Inr (clk s), s1)" "quiet s s1" using monotonic_law by blast
  obtain x s2 where n: "te_now env s1 = (Inr x, s2)" "quiet s1 s2" by (rule totalE [OF now_law])
  have "total quiet (rec (ctx_source_id ctx) (ctx_crawl_run_id ctx) oc (clk s - t0) 0 x)"
    using assms Some by (simp add: sound_recorder_def)
  then obtain t where r: "rec (ctx_source_id ctx) (ctx_crawl_run_id ctx) oc (clk s - t0) 0 x s2 = (Inr (), t)" "quiet s2 t"
    by (rule totalE [where s = s2]) simp
  have "record_terminal_metric env ms ctx oc t0 s = (Inr (), t)"
    using m n r Some by (simp add: record_terminal_metric_def)
  moreover have "quiet s t" using m(2) n(2) r(2) by (blast intro: calm_trans)
  ultimately show thesis by (rule that)
qed

lemma acquisition_quiet:
  assumes "acquisition env source_id ttl task_id s = (Inr (ctx, t0, l, got), t)"
  shows "quiet s t" and "t0 \<le> clk t"
proof -
  obtain u s1 where u: "uuid4 (te_run env) s = (Inr u, s1)" "quiet s s1" by (rule totalE [OF uuid4_law])
  obtain s2 where m: "monotonic (te_run env) s1 = (Inr (clk s1), s2)" "quiet s1 s2" using monotonic_law by blast
  obtain k s3 where k: "te_token env s2 = (Inr k, s3)" "quiet s2 s3" by (rule totalE [OF token_law])
  from assms u m k have "t0 = clk s1" "lease_acquire (te_leases env) l s3 = (Inr got, t)"
    by (auto simp: acquisition_def bindP_eq_Inr)
  moreover from this(2) have "quiet s3 t" by (rule keepsD [OF acquire_law])
  ultimately show "quiet s t" "t0 \<le> clk t" using u m k by (auto simp: calm_def)
qed

text \<open>The run from the \<open>try\<close> to the end of the \<open>finally\<close>: one terminal event, for what the operation did.\<close>

lemma leased_run_logs:
  assumes ms: "sound_recorder quiet ms" and t0: "t0 \<le> clk s" and op: "keeps quiet operation"
    and hb: "LeaseHeartbeat l (case interval of Some i \<Rightarrow> i | None \<Rightarrow> default_interval ttl) = Inr hb"
    and run: "leased_run env ms ctx t0 l ttl interval operation s = (r, t)"
  shows "\<exists>res s1 s2 d. operation s1 = (res, s2) \<and> 0 \<le> d \<and>
    logged t = logged s @ [(if result_outcome res = FAILED then ERROR else INFO,
      terminal_event (terminal_name res) ctx (result_outcome res) d (result_error res))] \<and>
    (r = map_sum id Result res \<or> (\<exists>e s3. r = Inl e \<and> lease_release (te_leases env) l s3 = (Inl e, t)))"
proof -
  obtain x s1 where st: "te_start env hb s = (Inr x, s1)" "quiet s s1" by (rule totalE [OF start_law])
  obtain res s2 where o: "operation s1 = (res, s2)" by (cases "operation s1")
  have q2: "quiet s1 s2" using op o by (rule keepsD)
  with st t0 have "t0 \<le> clk s2" by (simp add: calm_def)
  moreover have "event_name_match (terminal_name res)"
    by (cases res) (simp_all add: terminal_name_def event_name_match_def is_lower_az_def ord_def)
  ultimately obtain s3 d where e: "emit_terminal env (terminal_name res) ctx (result_outcome res) t0 (result_error res) s2 = (Inr (), s3)"
    "clk s2 \<le> clk s3" "0 \<le> d" "logged s3 = logged s2 @ [(if result_outcome res = FAILED then ERROR else INFO,
      terminal_event (terminal_name res) ctx (result_outcome res) d (result_error res))]"
    by (rule emit_terminal_logs)
  obtain s4 where m: "record_terminal_metric env ms ctx (result_outcome res) t0 s3 = (Inr (), s4)" "quiet s3 s4"
    by (rule record_terminal_quiet [OF ms])
  have body: "leased_operation env ms ctx t0 operation s1 = (map_sum id Result res, s4)"
    using o e(1) m(1)
    by (cases res) (simp_all add: leased_operation_def tryP_def terminal_name_def result_outcome_def result_error_def)
  obtain y s5 where sp: "te_stop env hb s4 = (Inr y, s5)" "quiet s4 s5" by (rule totalE [OF stop_law])
  obtain b s6 where rel: "lease_release (te_leases env) l s5 = (b, s6)" by (cases "lease_release (te_leases env) l s5")
  have "quiet s5 s6" using release_law rel by (rule keepsD)
  then have "logged s6 = logged s @ [(if result_outcome res = FAILED then ERROR else INFO,
      terminal_event (terminal_name res) ctx (result_outcome res) d (result_error res))]"
    using st(2) q2 e(4) m(2) sp(2) by (simp add: calm_def)
  moreover have "(r, t) = (case b of Inl er \<Rightarrow> (Inl er, s6) | Inr _ \<Rightarrow> (map_sum id Result res, s6))"
    using run hb st(1) body sp(1) rel by (cases b) (simp_all add: leased_run_def finallyP_def end_lease_def)
  ultimately show ?thesis using o e(3) rel by (cases b) auto
qed

lemma skip_run_logs:
  assumes ms: "sound_recorder quiet ms" and t0: "t0 \<le> clk s"
  shows "\<exists>d t. skip_run env source_id ms ctx t0 s = (Inr SKIPPED_OVERLAP, t) \<and> 0 \<le> d \<and>
    logged t = logged s @ [(INFO, terminal_event ''run_skipped'' ctx SKIPPED d None)]"
proof -
  obtain x s1 where i: "te_info env (''skipped_overlap source_id='' @ source_id) s = (Inr x, s1)" "quiet s s1"
    by (rule totalE [OF info_law])
  have "t0 \<le> clk s1" using t0 i(2) by (simp add: calm_def)
  moreover have "event_name_match ''run_skipped''" by (simp add: event_name_match_def is_lower_az_def ord_def)
  ultimately obtain s2 d where e: "emit_terminal env ''run_skipped'' ctx SKIPPED t0 None s1 = (Inr (), s2)"
    "0 \<le> d" "logged s2 = logged s1 @ [(INFO, terminal_event ''run_skipped'' ctx SKIPPED d None)]"
    by (rule emit_terminal_logs [where ctx = ctx and oc = SKIPPED and err = None]) simp
  obtain s3 where m: "record_terminal_metric env ms ctx SKIPPED t0 s2 = (Inr (), s3)" "quiet s2 s3"
    by (rule record_terminal_quiet [OF ms])
  have "skip_run env source_id ms ctx t0 s = (Inr SKIPPED_OVERLAP, s3)"
    using i(1) e(1) m(1) by (simp add: skip_run_def)
  then show ?thesis using e(2,3) i(2) m(2) by (auto simp: calm_def)
qed

end

subsection \<open>A world on the reference Redis\<close>

record task_sim = redis +
  sim_log :: "(log_level \<times> run_event) list"
  sim_next :: nat

definition sim_env :: "task_sim task_env" where
  "sim_env = \<lparr>te_run = \<lparr>monotonic = \<lambda>s. (Inr (of_int (clock s) / 1000), s), uuid4 = ret ''uuid'',
       log_event = \<lambda>lv ev s. (Inr (), s\<lparr>sim_log := sim_log s @ [(lv, ev)]\<rparr>)\<rparr>,
     te_leases = redis_lease,
     te_token = \<lambda>s. (Inr (''token-'' @ nat_text (sim_next s)), s\<lparr>sim_next := sim_next s + 1\<rparr>),
     te_info = \<lambda>_. ret (), te_start = \<lambda>_. ret (), te_stop = \<lambda>_. ret (), te_now = ret (naive 0)\<rparr>"

definition sim_clock :: "task_sim \<Rightarrow> rat" where
  "sim_clock s = of_int (clock s) / 1000"

lemma sim_command:
  assumes "\<And>u. sim_log (snd (f u)) = sim_log u \<and> clock (snd (f u)) = clock u"
  shows "keeps (calm sim_log sim_clock) (command f)"
proof (rule keepsI)
  fix s r t assume "command f s = (r, t)"
  then show "calm sim_log sim_clock s t"
    using assms [of s] by (cases r) (auto simp: calm_def sim_clock_def dest!: command_Inr command_Inl)
qed

lemma sim_redis [simp]: "sim_log (redis_set k v ex s) = sim_log s" "sim_log (snd (redis_del k s)) = sim_log s"
  "clock (snd (redis_del k s)) = clock s"
  by (simp_all add: redis_set_def redis_del_def)

interpretation sim: task_world sim_env sim_log sim_clock
proof unfold_locales
  fix l :: lease
  show "keeps (calm sim_log sim_clock) (lease_acquire (te_leases sim_env) l)"
    unfolding lease_acquire_def sim_env_def redis_lease_def
    by (simp, rule sim_command) (simp add: redis_set_nx_ex_def)
  have "keeps (calm sim_log sim_clock) (command (RELEASE_SCRIPT redis_lease (lease_key l) (token l)))"
    by (rule sim_command) (simp add: RELEASE_SCRIPT_def redis_lease_def)
  then show "keeps (calm sim_log sim_clock) (lease_release (te_leases sim_env) l)"
    by (auto simp: lease_release_def sim_env_def redis_lease_def transp_def reflp_def calm_def
        intro!: keeps_bindP keeps_pure)
qed (auto simp: total_def calm_def sim_env_def sim_clock_def)

subsection \<open>One event per run\<close>

definition interval_of :: "rat option \<Rightarrow> int \<Rightarrow> rat" where
  "interval_of interval ttl = (case interval of Some i \<Rightarrow> i | None \<Rightarrow> default_interval ttl)"

lemma heartbeat_made: "0 < interval_of interval ttl \<Longrightarrow>
    LeaseHeartbeat l (case interval of Some i \<Rightarrow> i | None \<Rightarrow> default_interval ttl) =
      Inr \<lparr>hb_lease = l, interval_seconds = interval_of interval ttl\<rparr>"
  by (simp add: LeaseHeartbeat_def interval_of_def)

lemma default_interval_positive [simp]: "0 < default_interval ttl" "\<not> default_interval ttl \<le> 0"
  by (simp_all add: default_interval_def not_le)


definition sim0 :: task_sim where
  "sim0 = \<lparr>clock = 0, strings = (\<lambda>_. None), hashes = (\<lambda>_. []), sets = (\<lambda>_. []), queues = (\<lambda>_. []), faults = [],
     sim_log = [], sim_next = 0\<rparr>"

definition sim_lease :: lease where
  "sim_lease = \<lparr>lease_key = ''crawler:lock:source:a'', ttl_seconds = 90, token = ''token-0''\<rparr>"

lemma sim_acquired: "acquisition sim_env ''a'' 90 ''internal'' sim0 =
   (Inr (\<lparr>ctx_source_id = ''a'', ctx_crawl_run_id = ''uuid'', ctx_task_id = ''internal''\<rparr>, 0, sim_lease, True),
    sim0\<lparr>strings := [''crawler:lock:source:a'' \<mapsto> (''token-0'', Some 90000)], sim_next := 1\<rparr>)"
  by (simp add: acquisition_def sim_env_def RunContext_def source_id_match_def task_id_match_def is_lower_az_def
      ord_def RedisLease_def source_lock_key_def lease_acquire_def redis_defs command_def live_at_def expiry_def
      nat_text.simps sim0_def sim_lease_def)


text \<open>C40: The lease is given back on every path out of the protected part: after a run that acquired it and
  whose heartbeat thread starts and stops, whatever the operation, the logger and the metrics store did
  and whatever the result is, the lock key does not hold the run's token, unless the release itself
  raised, and then the run raises that exception.\<close>

theorem lease_given_back:
  assumes store: "lease_store (te_leases env) view now_ms wait_ms up"
    and start: "\<And>hb. total (\<lambda>_ _. True) (te_start env hb)" and stop: "\<And>hb. total (\<lambda>_ _. True) (te_stop env hb)"
    and pos: "0 < interval_of interval ttl"
    and acq: "acquisition env source_id ttl task_id s = (Inr (ctx, t0, l, True), s')"
    and run: "run_with_source_lease env source_id operation ttl interval task_id ms s = (r, t)"
  shows "map_option fst (view t (source_lock_key source_id)) \<noteq> Some (token l) \<or>
    (\<exists>e s1. lease_release (te_leases env) l s1 = (Inl e, t) \<and> r = Inl e)"
proof -
  let ?hb = "\<lparr>hb_lease = l, interval_seconds = interval_of interval ttl\<rparr>"
  obtain x s1 where st: "te_start env ?hb s' = (Inr x, s1)" by (rule totalE [OF start])
  obtain b s2 where o: "leased_operation env ms ctx t0 operation s1 = (b, s2)"
    by (cases "leased_operation env ms ctx t0 operation s1")
  obtain y s3 where sp: "te_stop env ?hb s2 = (Inr y, s3)" by (rule totalE [OF stop])
  obtain c s4 where rel: "lease_release (te_leases env) l s3 = (c, s4)" by (cases "lease_release (te_leases env) l s3")
  have "(r, t) = (case c of Inl e \<Rightarrow> (Inl e, s4) | Inr _ \<Rightarrow> (b, s4))"
    using run acq heartbeat_made [OF pos, of l] st o sp rel
    by (cases c) (simp_all add: run_Inr leased_run_def finallyP_def end_lease_def)
  moreover have "c = Inr z \<Longrightarrow> map_option fst (view s4 (source_lock_key source_id)) \<noteq> Some (token l)" for z
    using lease_store.release_Inr [OF store, of l s3 z s4] rel acquisition_lease(1) [OF acq]
    by (auto simp: lease_store.owned_def [OF store])
  ultimately show ?thesis using rel by (cases c) auto
qed

lemma sim_leases: "lease_store (te_leases sim_env) live_str clock redis_wait redis_up"
  by (simp add: sim_env_def redis_lease.lease_store_axioms)

lemma sim_failed_run:
  "\<exists>t. run_with_source_lease sim_env ''a'' (raise (KeyError ''x'') :: (task_sim, unit) py) 90 None ''internal'' None sim0 =
    (Inl (KeyError ''x''), t)"
  unfolding run_Inr [OF sim_acquired]
  by (simp add: leased_run_def LeaseHeartbeat_def finallyP_def leased_operation_def
      tryP_def end_lease_def emit_terminal_def record_terminal_metric_def sim_env_def RunEvent_def event_name_match_def is_lower_az_def
      ord_def float_negative_def emit_run_event_def lease_release_def redis_lease_def command_def RELEASE_SCRIPT_def
      redis_get_def live_str_def redis_del_def sim0_def bindP_def sim_lease_def live_at_def)

theorem lease_given_back_witness:
  "\<exists>t. run_with_source_lease sim_env ''a'' (raise (KeyError ''x'') :: (task_sim, unit) py) 90 None ''internal'' None sim0 =
      (Inl (KeyError ''x''), t) \<and> map_option fst (live_str t (source_lock_key ''a'')) \<noteq> Some ''token-0''"
proof -
  obtain t where r: "run_with_source_lease sim_env ''a'' (raise (KeyError ''x'') :: (task_sim, unit) py) 90 None ''internal'' None sim0 =
    (Inl (KeyError ''x''), t)"
    using sim_failed_run by blast
  have leases: "te_leases sim_env = redis_lease" by (simp add: sim_env_def)
  have tot: "total (\<lambda>_ _. True) (te_start sim_env hb)" "total (\<lambda>_ _. True) (te_stop sim_env hb)" for hb
    by (simp_all add: sim_env_def total_def)
  have "map_option fst (live_str t (source_lock_key ''a'')) \<noteq> Some (token sim_lease) \<or>
      (\<exists>e s1. lease_release (te_leases sim_env) sim_lease s1 = (Inl e, t) \<and> Inl (KeyError ''x'') = (Inl e :: unit task_result result))"
    by (rule lease_given_back [OF sim_leases tot _ sim_acquired r])
      (simp add: interval_of_def)
  moreover have "lease_release redis_lease l s1 \<noteq> (Inl (KeyError x), u)" for l x and s1 u :: task_sim
    by (auto simp: lease_release_def redis_lease_def bindP_eq_Inl command_def split: list.splits fault.splits prod.splits)
  ultimately show ?thesis using r by (auto simp: leases sim_lease_def)
qed

text \<open>A renewal interval that is not positive is refused by the heartbeat's constructor, outside the
  protected part: the run raises without an event and without running the operation, and its lease stays
  in the store for its full length.\<close>

theorem bad_interval_leaks_lease:
  assumes store: "lease_store (te_leases env) view now_ms wait_ms up" and neg: "interval \<le> 0"
    and acq: "acquisition env source_id ttl task_id s = (Inr (ctx, t0, l, True), s')"
  shows "run_with_source_lease env source_id operation ttl (Some interval) task_id ms s =
      (Inl (ValueError ''interval_seconds must be positive''), s') \<and>
    view s' (source_lock_key source_id) = Some (token l, Some (now_ms s' + 1000 * ttl))"
proof -
  note l = acquisition_lease [OF acq]
  then obtain s1 where "lease_acquire (te_leases env) l s1 = (Inr True, s')" by blast
  with l lease_store.acquire_Inr [OF store, of l s1 True s'] lease_store.extended_def [OF store]
  have "view s' (source_lock_key source_id) = Some (token l, Some (now_ms s' + 1000 * ttl))" by auto
  then show ?thesis using neg by (simp add: run_Inr [OF acq] leased_run_def LeaseHeartbeat_def)
qed

theorem bad_interval_leaks_lease_witness:
  "\<exists>t. run_with_source_lease sim_env ''a'' (ret ()) 90 (Some 0) ''internal'' None sim0 =
      (Inl (ValueError ''interval_seconds must be positive''), t) \<and>
    live_str t (source_lock_key ''a'') = Some (''token-0'', Some 90000)"
proof -
  show ?thesis
    using bad_interval_leaks_lease [OF sim_leases _ sim_acquired, of 0 "ret ()" None]
    by (simp add: sim0_def sim_lease_def)
qed

text \<open>A metrics store that fails after a successful operation makes the run fail: \<open>run_finished\<close> is already
  logged, \<open>run_failed\<close> follows for the same run, and the operation's result is lost.\<close>

theorem metric_failure_reported_as_run_failure:
  assumes world: "task_world env logged clk" and op: "total (calm logged clk) operation" and pos: "0 < interval_of interval ttl"
    and ms: "\<And>i u oc d n now st. record_run i u oc d n now st = (Inl err, st)"
    and acq: "acquisition env source_id ttl task_id s = (Inr (ctx, t0, l, True), s')"
    and run: "run_with_source_lease env source_id operation ttl interval task_id (Some record_run) s = (r, t)"
  shows "(r = Inl err \<or> (\<exists>e s1. r = Inl e \<and> lease_release (te_leases env) l s1 = (Inl e, t))) \<and> (\<exists>e1 e2. logged t = logged s @ [(INFO, e1), (ERROR, e2)] \<and>
    ev_name e1 = ''run_finished'' \<and> ev_name e2 = ''run_failed'' \<and> ev_context e1 = ctx \<and> ev_context e2 = ctx)"
proof -
  let ?hb = "\<lparr>hb_lease = l, interval_seconds = interval_of interval ttl\<rparr>"
  let ?q = "calm logged clk"
  have metric: "\<exists>u. record_terminal_metric env (Some record_run) ctx oc t0 st = (Inl err, u) \<and> ?q st u" for oc st
  proof -
    obtain u where u: "monotonic (te_run env) st = (Inr (clk st), u)" "?q st u"
      using task_world.monotonic_law [OF world] by blast
    obtain d v where v: "te_now env u = (Inr d, v)" "?q u v" by (rule totalE [OF task_world.now_law [OF world]])
    have "record_terminal_metric env (Some record_run) ctx oc t0 st = (Inl err, v)"
      using u(1) v(1) ms by (simp add: record_terminal_metric_def)
    then show ?thesis using calm_trans [OF u(2) v(2)] by blast
  qed
  note q = task_world.acquisition_quiet [OF world acq]
  obtain y s1 where st: "te_start env ?hb s' = (Inr y, s1)" "?q s' s1"
    by (rule totalE [OF task_world.start_law [OF world]])
  obtain x s8 where o: "operation s1 = (Inr x, s8)" "?q s1 s8" by (rule totalE [OF op])
  have t1: "t0 \<le> clk s8" using q st o by (simp add: calm_def)
  have names: "event_name_match ''run_finished''" "event_name_match ''run_failed''"
    by (simp_all add: event_name_match_def is_lower_az_def ord_def)
  obtain s2 d1 where e1: "emit_terminal env ''run_finished'' ctx SUCCEEDED t0 None s8 = (Inr (), s2)" "clk s8 \<le> clk s2"
    "logged s2 = logged s8 @ [(INFO, terminal_event ''run_finished'' ctx SUCCEEDED d1 None)]"
    by (rule task_world.emit_terminal_logs [OF world t1 names(1), where ctx = ctx and oc = SUCCEEDED and err = None]) simp
  obtain s3 where m1: "record_terminal_metric env (Some record_run) ctx SUCCEEDED t0 s2 = (Inl err, s3)" "?q s2 s3"
    using metric by blast
  have t3: "t0 \<le> clk s3" using t1 e1(2) m1(2) by (simp add: calm_def)
  obtain s4 d2 where e2: "emit_terminal env ''run_failed'' ctx FAILED t0 (Some err) s3 = (Inr (), s4)"
    "logged s4 = logged s3 @ [(ERROR, terminal_event ''run_failed'' ctx FAILED d2 (Some err))]"
    by (rule task_world.emit_terminal_logs [OF world t3 names(2), where ctx = ctx and oc = FAILED and err = "Some err"]) simp
  obtain s5 where m2: "record_terminal_metric env (Some record_run) ctx FAILED t0 s4 = (Inl err, s5)" "?q s4 s5"
    using metric by blast
  obtain z s6 where sp: "te_stop env ?hb s5 = (Inr z, s6)" "?q s5 s6"
    by (rule totalE [OF task_world.stop_law [OF world]])
  obtain b s7 where re: "lease_release (te_leases env) l s6 = (b, s7)" by (cases "lease_release (te_leases env) l s6")
  have rq: "?q s6 s7" using task_world.release_law [OF world] re by (rule keepsD)
  have "(r, t) = (case b of Inl e \<Rightarrow> (Inl e, s7) | Inr _ \<Rightarrow> (Inl err, s7))"
    using run o(1) st e1(1) m1(1) e2(1) m2(1) sp(1) re heartbeat_made [OF pos, of l]
    by (cases b) (simp_all add: run_Inr [OF acq] leased_run_def leased_operation_def tryP_def finallyP_def end_lease_def)
  then have "t = s7" "r = Inl err \<or> (\<exists>e s1. r = Inl e \<and> lease_release (te_leases env) l s1 = (Inl e, t))"
    using re by (cases b; auto)+
  moreover have "logged s7 = logged s @
      [(INFO, terminal_event ''run_finished'' ctx SUCCEEDED d1 None), (ERROR, terminal_event ''run_failed'' ctx FAILED d2 (Some err))]"
    using q st(2) o(2) e1(3) m1(2) e2(2) m2(2) sp(2) rq by (simp add: calm_def)
  ultimately show ?thesis by (simp add: terminal_event_def)
qed

theorem metric_failure_reported_as_run_failure_witness:
  "\<exists>e1 e2. sim_log (snd (run_with_source_lease sim_env ''a'' (ret ()) 90 None ''internal''
      (Some (\<lambda>_ _ _ _ _ _. raise redis_error)) sim0)) = [(INFO, e1), (ERROR, e2)] \<and>
    ev_name e1 = ''run_finished'' \<and> ev_name e2 = ''run_failed''"
proof -
  obtain r t where r: "run_with_source_lease sim_env ''a'' (ret ()) 90 None ''internal''
      (Some (\<lambda>_ _ _ _ _ _. raise redis_error)) sim0 = (r, t)"
    by force
  have op: "total (calm sim_log sim_clock) (ret ())" by (simp add: total_def calm_def)
  show ?thesis
    using metric_failure_reported_as_run_failure [OF sim.task_world_axioms op _ raise_apply sim_acquired r] r
    by (auto simp: interval_of_def sim0_def)
qed

text \<open>The default heartbeat leaves room for one missed beat: with a lease of at least three seconds, renewals
  that come up to two default intervals apart keep the lease for any number of beats.\<close>

theorem default_heartbeat_survives_late_beat:
  assumes store: "lease_store ops view now_ms wait_ms up" and ttl: "3 \<le> ttl"
    and l: "RedisLease key ttl None tok = Inr l" and hb: "LeaseHeartbeat l (default_interval ttl) = Inr hb"
    and acq: "lease_acquire ops l s = (Inr True, s1)" and up: "up s1"
    and beats: "\<forall>d \<in> set ds. 0 \<le> d \<and> of_int d \<le> 2000 * interval_seconds hb"
  shows "\<exists>t. hb_schedule ops wait_ms hb ds s1 = (Waiting, t) \<and> now_ms t = now_ms s1 + sum_list ds \<and>
    view t key = Some (tok, Some (now_ms t + 1000 * ttl))"
proof -
  have L: "l = \<lparr>lease_key = key, ttl_seconds = ttl, token = tok\<rparr>" using l by (simp add: RedisLease_Inr)
  have H: "hb = \<lparr>hb_lease = l, interval_seconds = default_interval ttl\<rparr>"
    using hb by (simp add: LeaseHeartbeat_def)
  have "d < 1000 * ttl" if "d \<in> set ds" for d
  proof -
    have "default_interval ttl = of_int ttl / 3" using ttl by (simp add: default_interval_def max_def)
    then have "of_int d \<le> (2000 * of_int ttl / 3 :: rat)" using beats that H by auto
    moreover have "(2000 * of_int ttl / 3 :: rat) < of_int (1000 * ttl)" using ttl by simp
    ultimately have "(of_int d :: rat) < of_int (1000 * ttl)" by linarith
    then show ?thesis by (simp only: of_int_less_iff)
  qed
  moreover have "view s1 (lease_key l) = Some (token l, Some (now_ms s1 + 1000 * ttl_seconds l))"
    using lease_store.acquire_Inr [OF store, of l s True s1] acq ttl
    by (simp add: L lease_store.extended_def [OF store])
  ultimately show ?thesis
    using lease_store.schedule_keeps [OF store, of hb s1 ds] up ttl beats by (simp add: L H)
qed

theorem default_heartbeat_survives_late_beat_witness:
  "\<exists>t. hb_schedule redis_lease redis_wait \<lparr>hb_lease = sim_lease, interval_seconds = default_interval 90\<rparr> [60000, 30000]
      (snd (lease_acquire redis_lease sim_lease redis0)) = (Waiting, t) \<and> clock t = 90000"
proof -
  let ?s = "snd (lease_acquire redis_lease sim_lease redis0)"
  let ?hb = "\<lparr>hb_lease = sim_lease, interval_seconds = default_interval 90\<rparr>"
  have a: "lease_acquire redis_lease sim_lease redis0 = (Inr True, ?s)" "redis_up ?s" "clock ?s = 0"
    by (simp_all add: lease_acquire_def sim_lease_def redis_defs command_def redis0_def live_at_def)
  have l: "RedisLease ''crawler:lock:source:a'' 90 None ''token-0'' = Inr sim_lease" "LeaseHeartbeat sim_lease (default_interval 90) = Inr ?hb"
    by (simp_all add: RedisLease_def sim_lease_def LeaseHeartbeat_def)
  have "\<forall>d \<in> set [60000, 30000]. 0 \<le> d \<and> of_int d \<le> 2000 * interval_seconds ?hb"
    by (simp add: default_interval_def max_def)
  from default_heartbeat_survives_late_beat [OF redis_lease.lease_store_axioms _ l a(1,2) this] a(3)
  show ?thesis by auto
qed

end
