(* ===== verification/LeaseRuns.thy ===== *)
theory LeaseRuns
  imports Tasks
begin

section \<open>Task runs as runs of the lease protocol (\<open>tasks.py\<close> with \<open>locking.py\<close>)\<close>

text \<open>
  \<open>Locking\<close> proves mutual exclusion for a step relation of many runs; \<open>Tasks\<close> translates the code of one
  run. This theory shows that the code only makes steps of the relation. While a run calls its world (the
  clock, the logger, the operation), other runs, its own heartbeat and time go on: such a call may be any
  sequence of steps in which the run itself at most renews its lease (\<open>meanwhile\<close>), and anything that does
  not touch a lock key is a step as well (\<open>world_step\<close>).

  The theorem: from any reachable state, whatever the calls do, a run leaves a reachable state in which it
  gave its lease back, or never had it; and its operation ran once, after an acquisition at which no other
  run of the source held a valid lease.
\<close>

subsection \<open>Steps of the world\<close>

inductive world_step :: "'s lease_ops \<Rightarrow> ('s \<Rightarrow> string \<Rightarrow> string expiring) \<Rightarrow> ('s \<Rightarrow> int) \<Rightarrow> (int \<Rightarrow> 's \<Rightarrow> 's) \<Rightarrow>
    ('r \<Rightarrow> heartbeat) \<Rightarrow> ('s, 'r) lock_sys \<Rightarrow> ('s, 'r) lock_sys \<Rightarrow> bool"
  for ops view clk elapse hbs where
  protocol: "lock_step ops clk elapse hbs c c' \<Longrightarrow> world_step ops view clk elapse hbs c c'"
| elsewhere: "view t = view (lstore c) \<Longrightarrow> clk t = clk (lstore c) \<Longrightarrow>
    world_step ops view clk elapse hbs c (c\<lparr>lstore := t\<rparr>)"

inductive_cases world_stepE: "world_step ops view clk elapse hbs c c'"

abbreviation world_run :: "'s lease_ops \<Rightarrow> ('s \<Rightarrow> string \<Rightarrow> string expiring) \<Rightarrow> ('s \<Rightarrow> int) \<Rightarrow> (int \<Rightarrow> 's \<Rightarrow> 's) \<Rightarrow>
    ('r \<Rightarrow> heartbeat) \<Rightarrow> ('s, 'r) lock_sys \<Rightarrow> ('s, 'r) lock_sys \<Rightarrow> bool" where
  "world_run ops view clk elapse hbs \<equiv> (world_step ops view clk elapse hbs)\<^sup>*\<^sup>*"

abbreviation lock_init :: "'s \<Rightarrow> ('s, 'r) lock_sys" where
  "lock_init s \<equiv> \<lparr>lstore = s, phases = \<lambda>_. NotStarted\<rparr>"

text \<open>What a run may do while it waits for a call: renew its lease, nothing else.\<close>

definition only_beats :: "phase \<Rightarrow> phase \<Rightarrow> bool" where
  "only_beats p q \<longleftrightarrow> (case p of Running d alive \<Rightarrow> \<exists>d' alive'. q = Running d' alive' | _ \<Rightarrow> q = p)"

definition meanwhile :: "'s lease_ops \<Rightarrow> ('s \<Rightarrow> string \<Rightarrow> string expiring) \<Rightarrow> ('s \<Rightarrow> int) \<Rightarrow> (int \<Rightarrow> 's \<Rightarrow> 's) \<Rightarrow>
    ('r \<Rightarrow> heartbeat) \<Rightarrow> 'r \<Rightarrow> 's \<Rightarrow> 's \<Rightarrow> bool" where
  "meanwhile ops view clk elapse hbs r s t \<longleftrightarrow> (\<forall>c. lstore c = s \<longrightarrow>
     (\<exists>c'. lstore c' = t \<and> world_run ops view clk elapse hbs c c' \<and> only_beats (phases c r) (phases c' r)))"

lemma only_beats_simps [simp]: "only_beats p p" "only_beats (Running d a) p \<longleftrightarrow> (\<exists>d' a'. p = Running d' a')"
  "only_beats NotStarted p \<longleftrightarrow> p = NotStarted" "only_beats Skipped p \<longleftrightarrow> p = Skipped"
  "only_beats AcquireFailed p \<longleftrightarrow> p = AcquireFailed" "only_beats Finished p \<longleftrightarrow> p = Finished"
  by (auto simp: only_beats_def split: phase.split)

lemma only_beats_trans: "only_beats p q \<Longrightarrow> only_beats q u \<Longrightarrow> only_beats p u"
  by (auto simp: only_beats_def split: phase.splits)

lemma meanwhileE:
  assumes "meanwhile ops view clk elapse hbs r s t" and "lstore c = s"
  obtains c' where "lstore c' = t" "world_run ops view clk elapse hbs c c'" "only_beats (phases c r) (phases c' r)"
  using assms unfolding meanwhile_def by blast

lemma meanwhile_order: "reflp (meanwhile ops view clk elapse hbs r)" "transp (meanwhile ops view clk elapse hbs r)"
proof -
  show "reflp (meanwhile ops view clk elapse hbs r)"
    unfolding reflp_def meanwhile_def by fastforce
  show "transp (meanwhile ops view clk elapse hbs r)"
    unfolding transp_def meanwhile_def by (blast intro: only_beats_trans rtranclp_trans)
qed

text \<open>A call that touches no lock key, or lets time pass.\<close>

lemma meanwhileI:
  "(\<And>c. lstore c = s \<Longrightarrow> world_step ops view clk elapse hbs c (c\<lparr>lstore := t\<rparr>)) \<Longrightarrow> meanwhile ops view clk elapse hbs r s t"
  unfolding meanwhile_def by (intro allI impI, rule_tac x = "c\<lparr>lstore := t\<rparr>" in exI) auto

lemma meanwhile_elsewhere: "view t = view s \<Longrightarrow> clk t = clk s \<Longrightarrow> meanwhile ops view clk elapse hbs r s t"
  by (rule meanwhileI) (auto intro: elsewhere)

lemma meanwhile_wait: "0 \<le> d \<Longrightarrow> meanwhile ops view clk elapse hbs r s (elapse d s)"
  by (rule meanwhileI) (auto intro: protocol time_passes)

context lease_store
begin

lemma lock_inv_world:
  assumes "fresh_tokens hbs" and "world_run ops lview now_ms wait_ms hbs (lock_init s0) c"
  shows "lock_inv hbs c"
  using assms(2)
proof induction
  case base
  then show ?case by (simp add: lock_inv_def)
next
  case (step c c')
  from step.hyps(2) step.IH show ?case
    by (elim world_stepE) (auto dest: lock_inv_step [OF assms(1)] simp: lock_inv_def)
qed

lemma world_valid_unique:
  assumes "fresh_tokens hbs" and "world_run ops lview now_ms wait_ms hbs (lock_init s0) c"
    and "holds_valid now_ms c r" and "holds_valid now_ms c q"
    and "lease_key (hb_lease (hbs r)) = lease_key (hb_lease (hbs q))"
  shows "r = q"
  by (rule lock_inv_unique [OF assms(1) lock_inv_world [OF assms(1,2)] assms(3-5)])

end

subsection \<open>One run\<close>

text \<open>Everything before the acquisition, and everything up to its answer.\<close>

definition preparation :: "'s task_env \<Rightarrow> string \<Rightarrow> int \<Rightarrow> string \<Rightarrow> ('s, run_context \<times> rat \<times> lease) py" where
  "preparation env source_id ttl task_id =
     bindP (uuid4 (te_run env)) (\<lambda>run_id.
     bindP (liftR (RunContext source_id run_id task_id)) (\<lambda>ctx.
     bindP (monotonic (te_run env)) (\<lambda>started_at.
     bindP (te_token env) (\<lambda>tok.
     bindP (liftR (RedisLease (source_lock_key source_id) ttl None tok)) (\<lambda>l. ret (ctx, started_at, l))))))"

lemma acquisition_split: "acquisition env source_id ttl task_id = bindP (preparation env source_id ttl task_id)
    (\<lambda>(ctx, started_at, l). bindP (lease_acquire (te_leases env) l) (\<lambda>acquired. ret (ctx, started_at, l, acquired)))"
  by (simp add: acquisition_def preparation_def bindP_assoc)

text \<open>Between \<open>c\<close> and \<open>c'\<close> the run acquired its lease, when no other run of its source held a valid one, and executed
  its operation once while it had not given the lease back; what it returns, if anything, is the operation's.\<close>

definition ran_under_lease :: "(('s, 'r) lock_sys \<Rightarrow> ('s, 'r) lock_sys \<Rightarrow> bool) \<Rightarrow> ('s \<Rightarrow> int) \<Rightarrow> ('r \<Rightarrow> heartbeat) \<Rightarrow> 'r \<Rightarrow>
    ('s, 'a) py \<Rightarrow> ('s, 'r) lock_sys \<Rightarrow> 'a task_result result \<Rightarrow> ('s, 'r) lock_sys \<Rightarrow> bool" where
  "ran_under_lease steps clk hbs r operation c x c' \<longleftrightarrow> (\<exists>c0 c1 c2 res.
     steps c c0 \<and> holds_valid clk c0 r \<and>
     (\<forall>q. holds_valid clk c0 q \<and> lease_key (hb_lease (hbs q)) = lease_key (hb_lease (hbs r)) \<longrightarrow> q = r) \<and>
     steps c0 c1 \<and> (\<exists>d alive. phases c1 r = Running d alive) \<and> operation (lstore c1) = (res, lstore c2) \<and>
     steps c1 c2 \<and> (\<exists>d alive. phases c2 r = Running d alive) \<and> steps c2 c' \<and>
     (\<forall>y. x = Inr y \<longrightarrow> (\<exists>z. res = Inr z \<and> y = Result z)))"

text \<open>The world of the run \<open>r\<close>: what it calls beside its lease is done meanwhile, its token is its own, and its
  heartbeat thread starts and stops.\<close>

locale run_world = lease_store "te_leases env" lview now_ms wait_ms up
  for env :: "'s task_env" and lview and now_ms and wait_ms and up +
  fixes hbs :: "'r \<Rightarrow> heartbeat" and r :: 'r
  assumes uuid4_meanwhile: "keeps (meanwhile (te_leases env) lview now_ms wait_ms hbs r) (uuid4 (te_run env))"
    and monotonic_meanwhile: "keeps (meanwhile (te_leases env) lview now_ms wait_ms hbs r) (monotonic (te_run env))"
    and log_meanwhile: "keeps (meanwhile (te_leases env) lview now_ms wait_ms hbs r) (log_event (te_run env) lv ev)"
    and token_meanwhile: "keeps (meanwhile (te_leases env) lview now_ms wait_ms hbs r) (te_token env)"
    and now_meanwhile: "keeps (meanwhile (te_leases env) lview now_ms wait_ms hbs r) (te_now env)"
    and info_meanwhile: "keeps (meanwhile (te_leases env) lview now_ms wait_ms hbs r) (te_info env message)"
    and start_meanwhile: "total (meanwhile (te_leases env) lview now_ms wait_ms hbs r) (te_start env hb)"
    and stop_meanwhile: "total (meanwhile (te_leases env) lview now_ms wait_ms hbs r) (te_stop env hb)"
    and own_token: "te_token env s = (Inr tok, t) \<Longrightarrow> tok = token (hb_lease (hbs r))"
begin

abbreviation M :: "'s \<Rightarrow> 's \<Rightarrow> bool" where
  "M \<equiv> meanwhile (te_leases env) lview now_ms wait_ms hbs r"

abbreviation steps :: "('s, 'r) lock_sys \<Rightarrow> ('s, 'r) lock_sys \<Rightarrow> bool" where
  "steps \<equiv> world_run (te_leases env) lview now_ms wait_ms hbs"

lemmas M_rules = keeps_bindP [OF meanwhile_order(2)] keeps_thenP [OF meanwhile_order(2)] keeps_tryP [OF meanwhile_order(2)]
  keeps_pure [OF meanwhile_order(1)] uuid4_meanwhile monotonic_meanwhile log_meanwhile token_meanwhile now_meanwhile info_meanwhile

lemma preparation_meanwhile: "keeps M (preparation env source_id ttl task_id)"
  unfolding preparation_def by (intro M_rules)

lemma preparation_lease:
  assumes "preparation env source_id ttl task_id s = (Inr (ctx, t0, l), t)"
    and lease: "hb_lease (hbs r) = run_lease source_id ttl (token (hb_lease (hbs r)))"
  shows "l = hb_lease (hbs r)" and "0 < ttl_seconds l"
proof -
  obtain tok s1 s2 where "te_token env s1 = (Inr tok, s2)" "RedisLease (source_lock_key source_id) ttl None tok = Inr l"
    using assms(1) by (auto simp: preparation_def bindP_eq_Inr)
  with own_token have "l = run_lease source_id ttl (token (hb_lease (hbs r)))" and pos: "0 < ttl_seconds l"
    by (auto simp: RedisLease_Inr run_lease_def)
  with lease show "l = hb_lease (hbs r)" by simp
  show "0 < ttl_seconds l" by (rule pos)
qed

lemma emit_meanwhile: "keeps M (emit_terminal env name ctx oc t0 err)"
  unfolding emit_terminal_def emit_run_event_def by (intro M_rules)

definition recorder_meanwhile :: "'s metrics_recorder option \<Rightarrow> bool" where
  "recorder_meanwhile ms \<longleftrightarrow> (\<forall>rec. ms = Some rec \<longrightarrow> (\<forall>i u oc d n now. keeps M (rec i u oc d n now)))"

lemma metric_meanwhile: "recorder_meanwhile ms \<Longrightarrow> keeps M (record_terminal_metric env ms ctx oc t0)"
  unfolding record_terminal_metric_def recorder_meanwhile_def by (auto split: option.split intro!: M_rules)

lemma skip_meanwhile: "recorder_meanwhile ms \<Longrightarrow> keeps M (skip_run env source_id ms ctx t0)"
  unfolding skip_run_def by (intro M_rules emit_meanwhile metric_meanwhile)

text \<open>The acquisition is one step of the protocol, or the run ended before it.\<close>

lemma acquisition_steps:
  assumes lease: "hb_lease (hbs r) = run_lease source_id ttl (token (hb_lease (hbs r)))"
    and c: "phases c r = NotStarted" and a: "acquisition env source_id ttl task_id (lstore c) = (x, t)"
  shows "\<exists>c'. steps c c' \<and> lstore c' = t \<and> (case x of
      Inl e \<Rightarrow> phases c' r \<in> {NotStarted, AcquireFailed}
    | Inr (ctx, t0, l, got) \<Rightarrow> l = hb_lease (hbs r) \<and> 0 < ttl_seconds l \<and>
        phases c' r = (if got then Running (deadline now_ms l t) True else Skipped))"
proof -
  obtain y s1 where y: "preparation env source_id ttl task_id (lstore c) = (y, s1)"
    by (cases "preparation env source_id ttl task_id (lstore c)")
  from keepsD [OF preparation_meanwhile y] obtain c1 where c1: "lstore c1 = s1" "steps c c1" "phases c1 r = NotStarted"
    using c by (auto elim: meanwhileE)
  show ?thesis
  proof (cases y)
    case (Inl e)
    then show ?thesis using a y c1 by (intro exI [of _ c1]) (auto simp: acquisition_split)
  next
    case (Inr p)
    obtain ctx t0 l where p: "p = (ctx, t0, l)" by (cases p) auto
    have l: "l = hb_lease (hbs r)" "0 < ttl_seconds l" using preparation_lease [OF y [unfolded Inr p] lease] by blast+
    obtain b where b: "lease_acquire (te_leases env) l s1 = (b, t)" "x = (case b of Inl e \<Rightarrow> Inl e | Inr got \<Rightarrow> Inr (ctx, t0, l, got))"
      using a y Inr p by (cases "lease_acquire (te_leases env) l s1"; cases "fst (lease_acquire (te_leases env) l s1)")
        (auto simp: acquisition_split)
    let ?p = "case b of Inl e \<Rightarrow> AcquireFailed | Inr got \<Rightarrow> if got then Running (deadline now_ms l t) True else Skipped"
    have "lock_step (te_leases env) now_ms wait_ms hbs c1 (set_phase r ?p t c1)"
      using b(1) c1 l(1) by (auto split: sum.split intro: lock_step.intros)
    then have "steps c (set_phase r ?p t c1)" using c1(2) protocol by (meson rtranclp.rtrancl_into_rtrancl)
    then show ?thesis using b(2) l by (intro exI [of _ "set_phase r ?p t c1"]) (auto split: sum.split)
  qed
qed

text \<open>What follows the operation inside the \<open>try\<close> is done meanwhile; only its own result is returned.\<close>

lemma after_operation:
  assumes ms: "recorder_meanwhile ms" and o: "operation s1 = (res, s2)"
    and b: "leased_operation env ms ctx t0 operation s1 = (b, s3)"
  shows "M s2 s3" and "b = Inr y \<Longrightarrow> \<exists>z. res = Inr z \<and> y = Result z"
proof -
  let ?ok = "\<lambda>x. thenP (emit_terminal env ''run_finished'' ctx SUCCEEDED t0 None)
       (thenP (record_terminal_metric env ms ctx SUCCEEDED t0) (ret (Result x)))"
  let ?failed = "\<lambda>e. thenP (emit_terminal env ''run_failed'' ctx FAILED t0 (Some e))
       (thenP (record_terminal_metric env ms ctx FAILED t0) (raise e))"
  have ok: "keeps M (?ok x)" for x by (intro M_rules emit_meanwhile metric_meanwhile ms)
  have failed: "keeps M (?failed e)" for e by (intro M_rules emit_meanwhile metric_meanwhile ms)
  have b': "tryP (bindP operation ?ok) (\<lambda>e. Some (?failed e)) s1 = (b, s3)" using b by (simp add: leased_operation_def)
  have trans: "M u v \<Longrightarrow> M v w \<Longrightarrow> M u w" for u v w using meanwhile_order(2) by (rule transpD)
  have "M s2 s3 \<and> (b = Inr y \<longrightarrow> (\<exists>z. res = Inr z \<and> y = Result z))"
  proof (cases res)
    case (Inl e)
    then have f: "?failed e s2 = (b, s3)" using b' o by (simp add: tryP_def)
    then show ?thesis using keepsD [OF failed f] by (auto simp: thenP_eq_Inr)
  next
    case (Inr z)
    obtain w s4 where w: "?ok z s2 = (w, s4)" by (cases "?ok z s2")
    show ?thesis
    proof (cases w)
      case (Inl e)
      then have "?failed e s4 = (b, s3)" using b' o \<open>res = Inr z\<close> w by (simp add: tryP_def)
      then show ?thesis using keepsD [OF ok w] keepsD [OF failed] trans by (fastforce simp: thenP_eq_Inr)
    next
      case r: (Inr v)
      then have "b = Inr v" "s3 = s4" using b' o Inr w by (simp_all add: tryP_def)
      then show ?thesis using keepsD [OF ok w] w r Inr by (auto simp: thenP_eq_Inr)
    qed
  qed
  then show "M s2 s3" "b = Inr y \<Longrightarrow> \<exists>z. res = Inr z \<and> y = Result z" by blast+
qed

text \<open>The protected part: the operation runs while the run holds its lease, and the release is a step.\<close>

definition operation_done :: "('s, 'a) py \<Rightarrow> ('s, 'r) lock_sys \<Rightarrow> 'a task_result result \<Rightarrow> ('s, 'r) lock_sys \<Rightarrow> bool" where
  "operation_done operation c x c' \<longleftrightarrow> (\<exists>c1 c2 res. steps c c1 \<and> only_beats (phases c r) (phases c1 r) \<and>
     operation (lstore c1) = (res, lstore c2) \<and> steps c1 c2 \<and> only_beats (phases c1 r) (phases c2 r) \<and> steps c2 c' \<and>
     (\<forall>y. x = Inr y \<longrightarrow> (\<exists>z. res = Inr z \<and> y = Result z)))"

lemma leased_run_steps:
  assumes c: "phases c r = Running d alive" and l: "l = hb_lease (hbs r)" and pos: "0 < interval_of interval ttl"
    and op: "keeps M operation" and ms: "recorder_meanwhile ms"
    and run: "leased_run env ms ctx t0 l ttl interval operation (lstore c) = (x, t)"
  shows "\<exists>c'. steps c c' \<and> lstore c' = t \<and> phases c' r = Finished \<and> operation_done operation c x c'"
proof -
  let ?hb = "\<lparr>hb_lease = l, interval_seconds = interval_of interval ttl\<rparr>"
  obtain u s1 where st: "te_start env ?hb (lstore c) = (Inr u, s1)" "M (lstore c) s1" by (rule totalE [OF start_meanwhile])
  from st(2) obtain c1 where c1: "lstore c1 = s1" "steps c c1" "only_beats (phases c r) (phases c1 r)" by (auto elim: meanwhileE)
  obtain res s2 where o: "operation s1 = (res, s2)" by (cases "operation s1")
  from keepsD [OF op o] c1(1) obtain c2 where c2: "lstore c2 = s2" "steps c1 c2" "only_beats (phases c1 r) (phases c2 r)"
    by (auto elim: meanwhileE)
  obtain b s3 where b: "leased_operation env ms ctx t0 operation s1 = (b, s3)"
    by (cases "leased_operation env ms ctx t0 operation s1")
  obtain v s4 where sp: "te_stop env ?hb s3 = (Inr v, s4)" "M s3 s4" by (rule totalE [OF stop_meanwhile])
  have "M s2 s4" using after_operation(1) [OF ms o b] sp(2) meanwhile_order(2) by (metis transpD)
  then obtain c3 where c3: "lstore c3 = s4" "steps c2 c3" "only_beats (phases c2 r) (phases c3 r)"
    using c2(1) by (auto elim: meanwhileE)
  obtain y where y: "lease_release (te_leases env) l s4 = (y, t)" "x = (case y of Inl e \<Rightarrow> Inl e | Inr _ \<Rightarrow> b)"
    using run heartbeat_made [OF pos, of l] st(1) b sp(1)
    by (cases "lease_release (te_leases env) l s4"; cases "fst (lease_release (te_leases env) l s4)")
      (auto simp: leased_run_def finallyP_def end_lease_def)
  obtain d' alive' where "phases c3 r = Running d' alive'" using c c1(3) c2(3) c3(3) by auto
  then have "lock_step (te_leases env) now_ms wait_ms hbs c3 (set_phase r Finished t c3)"
    using y(1) c3(1) l by (intro released) auto
  then have end': "steps c2 (set_phase r Finished t c3)" using c3(2) protocol by (meson rtranclp.rtrancl_into_rtrancl)
  have "\<exists>z. res = Inr z \<and> w = Result z" if "x = Inr w" for w
    using that y(2) after_operation(2) [OF ms o b] by (cases y) auto
  then have "operation_done operation c x (set_phase r Finished t c3)"
    unfolding operation_done_def using c1 c2 o end' by blast
  moreover have "steps c (set_phase r Finished t c3)" using c1(2) c2(2) end' by (meson rtranclp_trans)
  ultimately show ?thesis by (intro exI [of _ "set_phase r Finished t c3"]) simp
qed

lemma leased_run_held:
  assumes fresh: "fresh_tokens hbs" and reach: "steps (lock_init s0) c" and c0: "steps c c0"
    and held: "phases c0 r = Running (deadline now_ms (hb_lease (hbs r)) (lstore c0)) True" "0 < ttl_seconds (hb_lease (hbs r))"
    and pos: "0 < interval_of interval ttl" and op: "keeps M operation" and ms: "recorder_meanwhile ms"
    and run: "leased_run env ms ctx t0 (hb_lease (hbs r)) ttl interval operation (lstore c0) = (x, t)"
  shows "\<exists>c'. steps c c' \<and> lstore c' = t \<and> phases c' r = Finished \<and> ran_under_lease steps now_ms hbs r operation c x c'"
proof -
  obtain c' where c': "steps c0 c'" "lstore c' = t" "phases c' r = Finished" and op': "operation_done operation c0 x c'"
    using leased_run_steps [OF held(1) refl pos op ms run] by blast
  have v: "holds_valid now_ms c0 r" using held by (auto simp: holds_valid_def deadline_def)
  have only: "q = r" if "holds_valid now_ms c0 q" "lease_key (hb_lease (hbs q)) = lease_key (hb_lease (hbs r))" for q
    by (rule world_valid_unique [OF fresh rtranclp_trans [OF reach c0] that(1) v that(2)])
  obtain c1 c2 res where d: "steps c0 c1" "only_beats (phases c0 r) (phases c1 r)" "operation (lstore c1) = (res, lstore c2)"
    "steps c1 c2" "only_beats (phases c1 r) (phases c2 r)" "steps c2 c'" "\<forall>y. x = Inr y \<longrightarrow> (\<exists>z. res = Inr z \<and> y = Result z)"
    using op' unfolding operation_done_def by blast
  have r1: "\<exists>d alive. phases c1 r = Running d alive" using d(2) held(1) by simp
  have r2: "\<exists>d alive. phases c2 r = Running d alive" using d(5) r1 by auto
  have "\<forall>q. holds_valid now_ms c0 q \<and> lease_key (hb_lease (hbs q)) = lease_key (hb_lease (hbs r)) \<longrightarrow> q = r"
    using only by blast
  then have "ran_under_lease steps now_ms hbs r operation c x c'"
    unfolding ran_under_lease_def
    by (intro exI [of _ c0] exI [of _ c1] exI [of _ c2] exI [of _ res] conjI c0 v d r1 r2)
  moreover have "steps c c'" using c0 c'(1) by (rule rtranclp_trans)
  ultimately show ?thesis using c'(2,3) by blast
qed

end

subsection \<open>The property\<close>


subsection \<open>A world for every run on the reference Redis\<close>

text \<open>Run \<open>n\<close> of \<open>Locking\<close>'s demonstration, in the simulated world with its own token.\<close>

definition sim_run_env :: "nat \<Rightarrow> task_sim task_env" where
  "sim_run_env n = sim_env\<lparr>te_token := ret (token (hb_lease (demo_runs n)))\<rparr>"

lemma sim_run_leases: "te_leases (sim_run_env n) = redis_lease"
  by (simp add: sim_run_env_def sim_env_def)

lemma sim_elsewhere:
  assumes "\<And>s. live_str (snd (m s)) = live_str s \<and> clock (snd (m s)) = clock s"
  shows "keeps (meanwhile ops live_str clock elapse hbs r) m"
  unfolding keeps_def using assms by (auto intro: meanwhile_elsewhere)

lemma sim_log_elsewhere: "live_str (s\<lparr>sim_log := x\<rparr>) = live_str s" for s :: task_sim
  by (simp add: live_str_def fun_eq_iff)

interpretation sim_run: run_world "sim_run_env n" live_str clock redis_wait redis_up demo_runs n for n
proof -
  have leases: "lease_store (te_leases (sim_run_env n)) live_str clock redis_wait redis_up"
    by (simp add: sim_run_leases redis_lease.lease_store_axioms)
  show "run_world (sim_run_env n) live_str clock redis_wait redis_up demo_runs n"
  proof (intro run_world.intro run_world_axioms.intro leases)
    show "total (meanwhile (te_leases (sim_run_env n)) live_str clock redis_wait demo_runs n) (te_start (sim_run_env n) hb)"
      "total (meanwhile (te_leases (sim_run_env n)) live_str clock redis_wait demo_runs n) (te_stop (sim_run_env n) hb)" for hb
      by (auto simp: total_def sim_run_env_def sim_env_def intro: meanwhile_elsewhere)
  qed (auto simp: sim_run_env_def sim_env_def ret_def sim_log_elsewhere intro!: sim_elsewhere)
qed

text \<open>Run 0 acquires the lease and works for 30 seconds.\<close>

lemma demo_lease: "hb_lease (demo_runs n) = run_lease ''a'' 90 (token (hb_lease (demo_runs n)))"
  by (simp add: demo_runs_def run_lease_def)

lemma sim_run_value: "fst (run_with_source_lease (sim_run_env 0) ''a'' (\<lambda>s. (Inr (), redis_wait 30000 s)) 90 None ''internal'' None sim0) =
    Inr (Result ())"
  by (simp add: run_split acquisition_def sim_run_env_def sim_env_def RunContext_def source_id_match_def task_id_match_def
      is_lower_az_def ord_def RedisLease_def source_lock_key_def lease_acquire_def redis_defs command_def live_at_def expiry_def
      sim0_def demo_runs_def leased_run_def LeaseHeartbeat_def finallyP_def leased_operation_def tryP_def end_lease_def
      emit_terminal_def record_terminal_metric_def RunEvent_def event_name_match_def float_negative_def emit_run_event_def
      lease_release_def RELEASE_SCRIPT_def bindP_def thenP_def)


end
