(* ===== verification/TextFiles.thy ===== *)
theory TextFiles
  imports Hashing Files
begin

section \<open>Text files\<close>

text \<open>
  \<open>Path.read_text\<close> and \<open>Path.write_text\<close> with \<open>encoding="utf-8"\<close>, over the operations of \<open>Files\<close>. The bytes that a
  file holds are the text of one character per byte; a line end is written as it is (POSIX).
\<close>

text \<open>\<open>read_text(encoding="utf-8")\<close>: the decoded bytes with line ends translated.\<close>

fun universal_newlines :: "string \<Rightarrow> string" where
  "universal_newlines [] = []"
| "universal_newlines [c] = (if c = CHR 0x0D then [CHR 0x0A] else [c])"
| "universal_newlines (c # d # s) = (if c = CHR 0x0D
     then (if d = CHR 0x0A then CHR 0x0A # universal_newlines s else CHR 0x0A # universal_newlines (d # s))
     else c # universal_newlines (d # s))"

definition read_text :: "'s file_ops \<Rightarrow> fpath \<Rightarrow> ('s, string) py" where
  "read_text ops p = bindP (f_read ops p) (\<lambda>b. case utf8_decode b of
       None \<Rightarrow> raise (ValueError ''codec can't decode bytes'')
     | Some s \<Rightarrow> ret (universal_newlines s))"

definition write_text :: "'s file_ops \<Rightarrow> fpath \<Rightarrow> string \<Rightarrow> ('s, unit) py" where
  "write_text ops p s = f_write ops p (utf8 s)"

end
