(* ===== verification/Config.thy ===== *)
theory Config
  imports TextFiles
begin

section \<open>Source configuration (\<open>config.py\<close>)\<close>

text \<open>
  The configuration models and \<open>load_config\<close>. The schema is a value: what pydantic documents of the types the
  models use (\<open>StrictInt\<close>, \<open>Field(ge=..)\<close>, \<open>extra="forbid"\<close>, \<open>mode="before"\<close>) is a small set of checkers, and
  every model is the composition of checkers that its class body writes, with the validators of the source.
  A checker accepts a document with the typed value, rejects it, or lets an exception of a validator
  through: pydantic reports a \<open>ValueError\<close> and propagates the rest.

  The engine itself is a parameter (\<open>validate\<close>, locale \<open>pydantic\<close>) of which the model relies on one documented
  law: its verdict is that of the schema; the error texts are its own. \<open>HttpUrl\<close>, whether a \<open>NaN\<close> passes
  \<open>gt=0\<close>, and the YAML parser are parameters too. YAML documents whose keys are not text are not modelled.

  The theorems: a loaded configuration satisfies every bound of the schema and has unique ids; every
  well-formed configuration is loaded from its document; loading raises \<open>ConfigurationError\<close> and, beyond
  that, what undecodable bytes, the YAML parser and too large integers raise.
\<close>

subsection \<open>Checkers\<close>

datatype 'a verdict = Accept 'a | Reject | Throw exn

fun apV :: "('a \<Rightarrow> 'b) verdict \<Rightarrow> 'a verdict \<Rightarrow> 'b verdict" where
  "apV (Throw e) x = Throw e"
| "apV Reject (Throw e) = Throw e"
| "apV Reject x = Reject"
| "apV (Accept f) (Accept x) = Accept (f x)"
| "apV (Accept f) Reject = Reject"
| "apV (Accept f) (Throw e) = Throw e"

fun bindV :: "'a verdict \<Rightarrow> ('a \<Rightarrow> 'b verdict) \<Rightarrow> 'b verdict" where
  "bindV (Accept x) f = f x"
| "bindV Reject f = Reject"
| "bindV (Throw e) f = Throw e"

text \<open>A validator function: its \<open>ValueError\<close> becomes a validation error.\<close>

definition from_validator :: "'a result \<Rightarrow> 'a verdict" where
  "from_validator r = (case r of Inr x \<Rightarrow> Accept x | Inl e \<Rightarrow> if is_ValueError e then Reject else Throw e)"

type_synonym 'a checker = "pyval \<Rightarrow> 'a verdict"

definition str_type :: "nat \<Rightarrow> string checker" where
  "str_type min_length v = (case v of PStr s \<Rightarrow> if min_length \<le> length s then Accept s else Reject | _ \<Rightarrow> Reject)"

definition strict_int :: "int \<Rightarrow> int checker" where
  "strict_int ge v = (case v of PInt i \<Rightarrow> if ge \<le> i then Accept i else Reject | _ \<Rightarrow> Reject)"

definition strict_bool :: "bool checker" where
  "strict_bool v = (case v of PBool b \<Rightarrow> Accept b | _ \<Rightarrow> Reject)"

definition float_gt :: "bool \<Rightarrow> rat \<Rightarrow> pyfloat \<Rightarrow> pyfloat verdict" where
  "float_gt nan_ok gt f = (case f of
       Fin r \<Rightarrow> if gt < r then Accept f else Reject
     | PosInf \<Rightarrow> Accept f
     | NegInf \<Rightarrow> Reject
     | NaN \<Rightarrow> if nan_ok then Accept f else Reject)"

text \<open>\<open>Literal\<close> and \<open>StrEnum\<close>: the texts and what they stand for.\<close>

definition one_of :: "(string \<times> 'a) list \<Rightarrow> 'a checker" where
  "one_of table v = (case v of PStr s \<Rightarrow> (case map_of table s of Some x \<Rightarrow> Accept x | None \<Rightarrow> Reject) | _ \<Rightarrow> Reject)"

definition url_type :: "(string \<Rightarrow> string option) \<Rightarrow> string checker" where
  "url_type http_url v = (case v of PStr s \<Rightarrow> (case http_url s of Some u \<Rightarrow> Accept u | None \<Rightarrow> Reject) | _ \<Rightarrow> Reject)"

definition optional_of :: "'a checker \<Rightarrow> 'a option checker" where
  "optional_of c v = (if v = PNone then Accept None else bindV (c v) (\<lambda>x. Accept (Some x)))"

fun all_of :: "'a checker \<Rightarrow> pyval list \<Rightarrow> 'a list verdict" where
  "all_of c [] = Accept []"
| "all_of c (v # vs) = apV (apV (Accept Cons) (c v)) (all_of c vs)"

definition list_type :: "nat \<Rightarrow> 'a checker \<Rightarrow> 'a list checker" where
  "list_type min_length c v = (case v of
       PList vs \<Rightarrow> bindV (all_of c vs) (\<lambda>xs. if min_length \<le> length xs then Accept xs else Reject)
     | _ \<Rightarrow> Reject)"

definition field_of :: "(string \<times> pyval) list \<Rightarrow> string \<Rightarrow> 'a checker \<Rightarrow> 'a verdict" where
  "field_of kvs name c = (case map_of kvs name of Some v \<Rightarrow> c v | None \<Rightarrow> Reject)"

definition field_default :: "(string \<times> pyval) list \<Rightarrow> string \<Rightarrow> 'a \<Rightarrow> 'a checker \<Rightarrow> 'a verdict" where
  "field_default kvs name d c = (case map_of kvs name of Some v \<Rightarrow> c v | None \<Rightarrow> Accept d)"

text \<open>\<open>extra="forbid"\<close>: every field is validated, and a key without a field is an error.\<close>

definition StrictModel :: "string list \<Rightarrow> ((string \<times> pyval) list \<Rightarrow> 'a verdict) \<Rightarrow> 'a checker" where
  "StrictModel names body v = (case v of
       PDict kvs \<Rightarrow> apV (apV (Accept (\<lambda>x _. x)) (body kvs))
         (if list_all (\<lambda>kv. fst kv \<in> set names) kvs then Accept () else Reject)
     | _ \<Rightarrow> Reject)"

subsection \<open>The models\<close>

datatype SourceMode = POLLING | RSS | WEBSOCKET | SSE

definition SOURCE_MODES :: "(string \<times> SourceMode) list" where
  "SOURCE_MODES = [(''polling'', POLLING), (''rss'', RSS), (''websocket'', WEBSOCKET), (''sse'', SSE)]"

datatype QueueName = HTTP | BROWSER

definition QUEUE_NAMES :: "(string \<times> QueueName) list" where
  "QUEUE_NAMES = [(''http'', HTTP), (''browser'', BROWSER)]"

definition require_number :: "string \<Rightarrow> pyval \<Rightarrow> pyfloat result" where
  "require_number field_name v = (case v of
       PInt i \<Rightarrow> float_of_int i
     | PFloat f \<Rightarrow> Inr f
     | _ \<Rightarrow> Inl (ValueError (field_name @ '' must be a number'')))"

definition number_gt :: "bool \<Rightarrow> string \<Rightarrow> pyfloat checker" where
  "number_gt nan_ok field_name v = bindV (from_validator (require_number field_name v)) (float_gt nan_ok 0)"

record RequestConfig =
  req_url :: string
  req_method :: string
  req_timeout_seconds :: pyfloat

definition REQUEST_METHODS :: "string list" where
  "REQUEST_METHODS = [''GET'', ''HEAD'', ''POST'']"

definition RequestConfig_type :: "(string \<Rightarrow> string option) \<Rightarrow> bool \<Rightarrow> RequestConfig checker" where
  "RequestConfig_type http_url nan_ok = StrictModel [''url'', ''method'', ''timeout_seconds''] (\<lambda>d.
     apV (apV (apV (Accept (\<lambda>u m t. \<lparr>req_url = u, req_method = m, req_timeout_seconds = t\<rparr>))
       (field_of d ''url'' (url_type http_url)))
       (field_of d ''method'' (one_of (map (\<lambda>m. (m, m)) REQUEST_METHODS))))
       (field_of d ''timeout_seconds'' (number_gt nan_ok ''timeout_seconds'')))"

record RetryConfig =
  rc_max_attempts :: int
  rc_base_delay_seconds :: pyfloat
  rc_max_delay_seconds :: pyfloat

text \<open>\<open><\<close> on floats: false when a \<open>NaN\<close> is compared.\<close>

definition float_lt :: "pyfloat \<Rightarrow> pyfloat \<Rightarrow> bool" where
  "float_lt a b = (case (a, b) of
       (Fin x, Fin y) \<Rightarrow> x < y
     | (NaN, _) \<Rightarrow> False
     | (_, NaN) \<Rightarrow> False
     | (NegInf, y) \<Rightarrow> y \<noteq> NegInf
     | (x, PosInf) \<Rightarrow> x \<noteq> PosInf
     | _ \<Rightarrow> False)"

definition validate_delay_range :: "RetryConfig \<Rightarrow> RetryConfig result" where
  "validate_delay_range c = (if float_lt (rc_max_delay_seconds c) (rc_base_delay_seconds c)
     then Inl (ValueError ''max_delay_seconds must be at least base_delay_seconds'') else Inr c)"

definition RetryConfig_type :: "bool \<Rightarrow> RetryConfig checker" where
  "RetryConfig_type nan_ok v = bindV (StrictModel [''max_attempts'', ''base_delay_seconds'', ''max_delay_seconds''] (\<lambda>d.
     apV (apV (apV (Accept (\<lambda>n b m. \<lparr>rc_max_attempts = n, rc_base_delay_seconds = b, rc_max_delay_seconds = m\<rparr>))
       (field_of d ''max_attempts'' (strict_int 1)))
       (field_of d ''base_delay_seconds'' (number_gt nan_ok ''retry delay'')))
       (field_of d ''max_delay_seconds'' (number_gt nan_ok ''retry delay''))) v)
     (\<lambda>c. from_validator (validate_delay_range c))"

record RateLimitConfig =
  rl_max_requests :: int
  rl_window_seconds :: int

definition RateLimitConfig_type :: "RateLimitConfig checker" where
  "RateLimitConfig_type = StrictModel [''max_requests'', ''window_seconds''] (\<lambda>d.
     apV (apV (Accept (\<lambda>m w. \<lparr>rl_max_requests = m, rl_window_seconds = w\<rparr>))
       (field_of d ''max_requests'' (strict_int 1)))
       (field_of d ''window_seconds'' (strict_int 1)))"

record CircuitBreakerConfig =
  cb_failure_threshold :: int
  cb_recovery_seconds :: int

definition CircuitBreakerConfig_type :: "CircuitBreakerConfig checker" where
  "CircuitBreakerConfig_type = StrictModel [''failure_threshold'', ''recovery_seconds''] (\<lambda>d.
     apV (apV (Accept (\<lambda>f r. \<lparr>cb_failure_threshold = f, cb_recovery_seconds = r\<rparr>))
       (field_of d ''failure_threshold'' (strict_int 1)))
       (field_of d ''recovery_seconds'' (strict_int 1)))"

record SourceConfig =
  src_id :: string
  src_name :: string
  src_enabled :: bool
  src_mode :: SourceMode
  src_interval_seconds :: int
  src_queue :: QueueName
  src_request :: RequestConfig
  src_retry :: RetryConfig
  src_rate_limit :: "RateLimitConfig option"
  src_circuit_breaker :: CircuitBreakerConfig

definition reject_blank_text :: "string \<Rightarrow> string result" where
  "reject_blank_text s = (if strip s = [] then Inl (ValueError ''must not be blank'') else Inr s)"

definition SOURCE_FIELDS :: "string list" where
  "SOURCE_FIELDS = [''id'', ''name'', ''enabled'', ''mode'', ''interval_seconds'', ''queue'', ''request'', ''retry'',
     ''rate_limit'', ''circuit_breaker'']"

definition text_type :: "string checker" where
  "text_type v = bindV (str_type 1 v) (\<lambda>s. from_validator (reject_blank_text s))"

definition SourceConfig_type :: "(string \<Rightarrow> string option) \<Rightarrow> bool \<Rightarrow> SourceConfig checker" where
  "SourceConfig_type http_url nan_ok = StrictModel SOURCE_FIELDS (\<lambda>d.
     apV (apV (apV (apV (apV (apV (apV (apV (apV (apV (Accept (\<lambda>i n e m s q rq rt rl cb.
         \<lparr>src_id = i, src_name = n, src_enabled = e, src_mode = m, src_interval_seconds = s, src_queue = q,
           src_request = rq, src_retry = rt, src_rate_limit = rl, src_circuit_breaker = cb\<rparr>))
       (field_of d ''id'' text_type))
       (field_of d ''name'' text_type))
       (field_of d ''enabled'' strict_bool))
       (field_of d ''mode'' (one_of SOURCE_MODES)))
       (field_of d ''interval_seconds'' (strict_int 60)))
       (field_of d ''queue'' (one_of QUEUE_NAMES)))
       (field_of d ''request'' (RequestConfig_type http_url nan_ok)))
       (field_of d ''retry'' (RetryConfig_type nan_ok)))
       (field_default d ''rate_limit'' None (optional_of RateLimitConfig_type)))
       (field_of d ''circuit_breaker'' CircuitBreakerConfig_type))"

record CrawlerConfig =
  cfg_sources :: "SourceConfig list"

definition validate_unique_source_ids :: "CrawlerConfig \<Rightarrow> CrawlerConfig result" where
  "validate_unique_source_ids c =
     (if length (map src_id (cfg_sources c)) \<noteq> card (set (map src_id (cfg_sources c)))
      then Inl (ValueError ''duplicate source id'') else Inr c)"

definition CrawlerConfig_type :: "(string \<Rightarrow> string option) \<Rightarrow> bool \<Rightarrow> CrawlerConfig checker" where
  "CrawlerConfig_type http_url nan_ok v = bindV (StrictModel [''sources''] (\<lambda>d.
     apV (Accept (\<lambda>xs. \<lparr>cfg_sources = xs\<rparr>))
       (field_of d ''sources'' (list_type 1 (SourceConfig_type http_url nan_ok)))) v)
     (\<lambda>c. from_validator (validate_unique_source_ids c))"

subsection \<open>Loading\<close>

text \<open>What \<open>model_validate\<close> does: the validated model, or the errors (\<open>loc\<close>, \<open>msg\<close>) of a \<open>ValidationError\<close>, or
  an exception that passed through. \<open>yaml.safe_load\<close> likewise.\<close>

datatype 'a pd_outcome = Valid 'a | Invalid "(string list \<times> string) list" | Raised exn

datatype yaml_outcome = YamlDocument pyval | YamlError | YamlRaised exn

definition validation_messages :: "(string list \<times> string) list \<Rightarrow> string" where
  "validation_messages errors = join ''; '' (map (\<lambda>(loc, msg). join ''.'' loc @ '': '' @ msg) errors)"

text \<open>The part of \<open>load_config\<close> after the file was read, and the whole.\<close>

definition parse_config :: "(string \<Rightarrow> yaml_outcome) \<Rightarrow> (pyval \<Rightarrow> CrawlerConfig pd_outcome) \<Rightarrow> string \<Rightarrow> string \<Rightarrow>
    CrawlerConfig result" where
  "parse_config safe_load validate shown text = (case safe_load text of
       YamlError \<Rightarrow> Inl (ConfigurationError (''Invalid YAML in configuration file: '' @ shown))
     | YamlRaised e \<Rightarrow> Inl e
     | YamlDocument (PDict kvs) \<Rightarrow> (case validate (PDict kvs) of
           Valid c \<Rightarrow> Inr c
         | Invalid errors \<Rightarrow> Inl (ConfigurationError (''Invalid configuration in '' @ shown @ '': '' @
             validation_messages errors))
         | Raised e \<Rightarrow> Inl e)
     | YamlDocument _ \<Rightarrow> Inl (ConfigurationError (''Configuration root must be a mapping: '' @ shown)))"

definition load_config :: "'s file_ops \<Rightarrow> (fpath \<Rightarrow> string) \<Rightarrow> (string \<Rightarrow> yaml_outcome) \<Rightarrow> (pyval \<Rightarrow> CrawlerConfig pd_outcome) \<Rightarrow>
    fpath \<Rightarrow> ('s, CrawlerConfig) py" where
  "load_config ops path_str safe_load validate p =
     bindP (tryP (read_text ops p) (\<lambda>e. case e of
         OSError m \<Rightarrow> Some (raise (ConfigurationError (''Cannot read configuration file: '' @ path_str p)))
       | _ \<Rightarrow> None)) (\<lambda>text. liftR (parse_config safe_load validate (path_str p) text))"

subsection \<open>Inversion\<close>

lemma apV_Accept [simp]: "apV f x = Accept y \<longleftrightarrow> (\<exists>g a. f = Accept g \<and> x = Accept a \<and> y = g a)"
  by (cases f; cases x) auto

lemma apV_Throw: "apV f x = Throw e \<Longrightarrow> f = Throw e \<or> x = Throw e"
  by (cases f; cases x) auto

lemma bindV_Accept [simp]: "bindV v f = Accept y \<longleftrightarrow> (\<exists>x. v = Accept x \<and> f x = Accept y)"
  by (cases v) auto

lemma bindV_Throw: "bindV v f = Throw e \<Longrightarrow> v = Throw e \<or> (\<exists>x. f x = Throw e)"
  by (cases v) auto

lemma from_validator_Accept [simp]: "from_validator r = Accept x \<longleftrightarrow> r = Inr x"
  by (auto simp: from_validator_def split: sum.splits if_splits)

lemma all_of_Accept: "all_of c vs = Accept xs \<longleftrightarrow> list_all2 (\<lambda>v x. c v = Accept x) vs xs"
  by (induction vs arbitrary: xs) (auto simp: list_all2_Cons1)

lemma StrictModel_Accept [simp]: "StrictModel names body v = Accept x \<longleftrightarrow>
    (\<exists>kvs. v = PDict kvs \<and> body kvs = Accept x \<and> list_all (\<lambda>kv. fst kv \<in> set names) kvs)"
  by (auto simp: StrictModel_def split: pyval.splits if_splits)

lemma field_of_Accept [simp]: "field_of d name c = Accept x \<longleftrightarrow> (\<exists>v. map_of d name = Some v \<and> c v = Accept x)"
  by (auto simp: field_of_def split: option.splits)

lemma field_default_Accept [simp]: "field_default d name y c = Accept x \<longleftrightarrow>
    map_of d name = None \<and> x = y \<or> (\<exists>v. map_of d name = Some v \<and> c v = Accept x)"
  by (auto simp: field_default_def split: option.splits)

lemma scalar_Accept [simp]:
  "str_type n v = Accept s \<longleftrightarrow> v = PStr s \<and> n \<le> length s"
  "strict_int ge v = Accept i \<longleftrightarrow> v = PInt i \<and> ge \<le> i"
  "strict_bool v = Accept b \<longleftrightarrow> v = PBool b"
  "one_of table v = Accept x \<longleftrightarrow> (\<exists>s. v = PStr s \<and> map_of table s = Some x)"
  "url_type http_url v = Accept u \<longleftrightarrow> (\<exists>s. v = PStr s \<and> http_url s = Some u)"
  "optional_of c v = Accept m \<longleftrightarrow> (v = PNone \<and> m = None \<or> v \<noteq> PNone \<and> (\<exists>x. c v = Accept x \<and> m = Some x))"
  "list_type n c v = Accept xs \<longleftrightarrow> (\<exists>vs. v = PList vs \<and> list_all2 (\<lambda>v x. c v = Accept x) vs xs \<and> n \<le> length xs)"
  by (auto simp: str_type_def strict_int_def strict_bool_def one_of_def url_type_def optional_of_def list_type_def
      all_of_Accept split: pyval.splits option.splits if_splits)

lemma reject_blank_Inr [simp]: "reject_blank_text s = Inr x \<longleftrightarrow> x = s \<and> strip s \<noteq> []"
  by (auto simp: reject_blank_text_def)

lemma text_type_Accept [simp]: "text_type v = Accept s \<longleftrightarrow> v = PStr s \<and> strip s \<noteq> []"
  by (cases "s = []") (auto simp: text_type_def Suc_le_eq)

subsection \<open>Well-formed configurations\<close>

definition positive_float :: "bool \<Rightarrow> pyfloat \<Rightarrow> bool" where
  "positive_float nan_ok f = (case f of Fin r \<Rightarrow> 0 < r | PosInf \<Rightarrow> True | NegInf \<Rightarrow> False | NaN \<Rightarrow> nan_ok)"

definition wf_request :: "bool \<Rightarrow> RequestConfig \<Rightarrow> bool" where
  "wf_request nan_ok r \<longleftrightarrow> req_method r \<in> set REQUEST_METHODS \<and> positive_float nan_ok (req_timeout_seconds r)"

definition wf_retry :: "bool \<Rightarrow> RetryConfig \<Rightarrow> bool" where
  "wf_retry nan_ok r \<longleftrightarrow> 1 \<le> rc_max_attempts r \<and> positive_float nan_ok (rc_base_delay_seconds r) \<and>
     positive_float nan_ok (rc_max_delay_seconds r) \<and> \<not> float_lt (rc_max_delay_seconds r) (rc_base_delay_seconds r)"

definition wf_rate_limit :: "RateLimitConfig option \<Rightarrow> bool" where
  "wf_rate_limit m = (case m of None \<Rightarrow> True | Some l \<Rightarrow> 1 \<le> rl_max_requests l \<and> 1 \<le> rl_window_seconds l)"

definition wf_breaker :: "CircuitBreakerConfig \<Rightarrow> bool" where
  "wf_breaker b \<longleftrightarrow> 1 \<le> cb_failure_threshold b \<and> 1 \<le> cb_recovery_seconds b"

definition wf_source :: "bool \<Rightarrow> SourceConfig \<Rightarrow> bool" where
  "wf_source nan_ok c \<longleftrightarrow> strip (src_id c) \<noteq> [] \<and> strip (src_name c) \<noteq> [] \<and> 60 \<le> src_interval_seconds c \<and>
     wf_request nan_ok (src_request c) \<and> wf_retry nan_ok (src_retry c) \<and>
     wf_rate_limit (src_rate_limit c) \<and> wf_breaker (src_circuit_breaker c)"

definition wf_config :: "bool \<Rightarrow> CrawlerConfig \<Rightarrow> bool" where
  "wf_config nan_ok c \<longleftrightarrow> cfg_sources c \<noteq> [] \<and> distinct (map src_id (cfg_sources c)) \<and>
     list_all (wf_source nan_ok) (cfg_sources c)"

lemma float_gt_Accept [simp]: "float_gt nan_ok 0 f = Accept g \<longleftrightarrow> g = f \<and> positive_float nan_ok f"
  by (cases f) (auto simp: float_gt_def positive_float_def)

lemma number_gt_Accept [simp]: "number_gt nan_ok name v = Accept f \<longleftrightarrow> require_number name v = Inr f \<and> positive_float nan_ok f"
  by (auto simp: number_gt_def)

lemma RequestConfig_wf: "RequestConfig_type http_url nan_ok v = Accept r \<Longrightarrow> wf_request nan_ok r"
  by (auto simp: RequestConfig_type_def wf_request_def REQUEST_METHODS_def split: if_splits)

lemma RetryConfig_wf: "RetryConfig_type nan_ok v = Accept r \<Longrightarrow> wf_retry nan_ok r"
  by (auto simp: RetryConfig_type_def wf_retry_def validate_delay_range_def split: if_splits)

lemma RateLimitConfig_wf: "map_of kvs n = None \<and> m = None \<or>
    (\<exists>v. map_of kvs n = Some v \<and> optional_of RateLimitConfig_type v = Accept m) \<Longrightarrow> wf_rate_limit m"
  by (auto simp: RateLimitConfig_type_def wf_rate_limit_def)

lemma CircuitBreakerConfig_wf: "CircuitBreakerConfig_type v = Accept b \<Longrightarrow> wf_breaker b"
  by (auto simp: CircuitBreakerConfig_type_def wf_breaker_def)

lemma SourceConfig_wf: "SourceConfig_type http_url nan_ok v = Accept c \<Longrightarrow> wf_source nan_ok c"
  unfolding SourceConfig_type_def wf_source_def
  by (clarsimp simp del: scalar_Accept(6),
      intro conjI RequestConfig_wf RetryConfig_wf RateLimitConfig_wf CircuitBreakerConfig_wf, assumption+)

lemma distinct_iff_card: "distinct xs \<longleftrightarrow> length xs = card (set xs)"
  by (metis distinct_card card_distinct)

lemma validate_unique_Inr: "validate_unique_source_ids c = Inr c' \<longleftrightarrow> c' = c \<and> distinct (map src_id (cfg_sources c))"
  unfolding validate_unique_source_ids_def distinct_iff_card by auto

lemma CrawlerConfig_wf:
  assumes "CrawlerConfig_type http_url nan_ok v = Accept c"
  shows "wf_config nan_ok c"
proof -
  obtain vs where vs: "list_all2 (\<lambda>v x. SourceConfig_type http_url nan_ok v = Accept x) vs (cfg_sources c)"
    and ne: "Suc 0 \<le> length (cfg_sources c)" and d: "distinct (map src_id (cfg_sources c))"
    using assms by (auto simp: CrawlerConfig_type_def validate_unique_Inr)
  have "list_all (wf_source nan_ok) (cfg_sources c)"
    using vs by (induction rule: list_all2_induct) (simp_all add: SourceConfig_wf)
  then show ?thesis using ne d by (cases "cfg_sources c") (simp_all add: wf_config_def)
qed

subsection \<open>The document of a configuration\<close>

definition mode_text :: "SourceMode \<Rightarrow> string" where
  "mode_text m = (case m of POLLING \<Rightarrow> ''polling'' | RSS \<Rightarrow> ''rss'' | WEBSOCKET \<Rightarrow> ''websocket'' | SSE \<Rightarrow> ''sse'')"

definition queue_text :: "QueueName \<Rightarrow> string" where
  "queue_text q = (case q of HTTP \<Rightarrow> ''http'' | BROWSER \<Rightarrow> ''browser'')"

lemma names_parse [simp]: "map_of SOURCE_MODES (mode_text m) = Some m" "map_of QUEUE_NAMES (queue_text q) = Some q"
  by (cases m; simp add: SOURCE_MODES_def mode_text_def) (cases q; simp add: QUEUE_NAMES_def queue_text_def)

definition request_doc :: "RequestConfig \<Rightarrow> pyval" where
  "request_doc r = PDict [(''url'', PStr (req_url r)), (''method'', PStr (req_method r)),
     (''timeout_seconds'', PFloat (req_timeout_seconds r))]"

definition retry_doc :: "RetryConfig \<Rightarrow> pyval" where
  "retry_doc r = PDict [(''max_attempts'', PInt (rc_max_attempts r)), (''base_delay_seconds'', PFloat (rc_base_delay_seconds r)),
     (''max_delay_seconds'', PFloat (rc_max_delay_seconds r))]"

definition rate_limit_doc :: "RateLimitConfig option \<Rightarrow> pyval" where
  "rate_limit_doc m = (case m of None \<Rightarrow> PNone
     | Some l \<Rightarrow> PDict [(''max_requests'', PInt (rl_max_requests l)), (''window_seconds'', PInt (rl_window_seconds l))])"

definition breaker_doc :: "CircuitBreakerConfig \<Rightarrow> pyval" where
  "breaker_doc b = PDict [(''failure_threshold'', PInt (cb_failure_threshold b)), (''recovery_seconds'', PInt (cb_recovery_seconds b))]"

definition source_doc :: "SourceConfig \<Rightarrow> pyval" where
  "source_doc c = PDict [(''id'', PStr (src_id c)), (''name'', PStr (src_name c)), (''enabled'', PBool (src_enabled c)),
     (''mode'', PStr (mode_text (src_mode c))), (''interval_seconds'', PInt (src_interval_seconds c)),
     (''queue'', PStr (queue_text (src_queue c))), (''request'', request_doc (src_request c)), (''retry'', retry_doc (src_retry c)),
     (''rate_limit'', rate_limit_doc (src_rate_limit c)), (''circuit_breaker'', breaker_doc (src_circuit_breaker c))]"

definition config_doc :: "CrawlerConfig \<Rightarrow> (string \<times> pyval) list" where
  "config_doc c = [(''sources'', PList (map source_doc (cfg_sources c)))]"

lemma request_doc_Accept:
  "wf_request nan_ok r \<Longrightarrow> http_url (req_url r) = Some (req_url r) \<Longrightarrow>
    RequestConfig_type http_url nan_ok (request_doc r) = Accept r"
  by (auto simp: RequestConfig_type_def request_doc_def wf_request_def REQUEST_METHODS_def require_number_def)

lemma retry_doc_Accept: "wf_retry nan_ok r \<Longrightarrow> RetryConfig_type nan_ok (retry_doc r) = Accept r"
  by (auto simp: RetryConfig_type_def retry_doc_def wf_retry_def require_number_def validate_delay_range_def)

lemma source_doc_Accept:
  assumes "wf_source nan_ok c" and "http_url (req_url (src_request c)) = Some (req_url (src_request c))"
  shows "SourceConfig_type http_url nan_ok (source_doc c) = Accept c"
proof -
  have "optional_of RateLimitConfig_type (rate_limit_doc (src_rate_limit c)) = Accept (src_rate_limit c)"
    using assms(1) by (auto simp: rate_limit_doc_def RateLimitConfig_type_def wf_source_def wf_rate_limit_def split: option.splits)
  moreover have "CircuitBreakerConfig_type (breaker_doc (src_circuit_breaker c)) = Accept (src_circuit_breaker c)"
    using assms(1) by (simp add: breaker_doc_def CircuitBreakerConfig_type_def wf_source_def wf_breaker_def)
  ultimately show ?thesis
    using assms by (simp add: SourceConfig_type_def source_doc_def SOURCE_FIELDS_def wf_source_def
        request_doc_Accept retry_doc_Accept del: scalar_Accept(6))
qed

lemma config_doc_Accept:
  assumes "wf_config nan_ok c"
    and "\<And>x. x \<in> set (cfg_sources c) \<Longrightarrow> http_url (req_url (src_request x)) = Some (req_url (src_request x))"
  shows "CrawlerConfig_type http_url nan_ok (PDict (config_doc c)) = Accept c"
proof -
  have "list_all2 (\<lambda>v x. SourceConfig_type http_url nan_ok v = Accept x) (map source_doc (cfg_sources c)) (cfg_sources c)"
    using assms by (auto simp: list_all2_map1 list.rel_refl_strong list_all_iff wf_config_def source_doc_Accept
        intro!: list.rel_refl_strong)
  then show ?thesis using assms(1)
    by (cases "cfg_sources c") (auto simp: CrawlerConfig_type_def config_doc_def wf_config_def validate_unique_Inr)
qed

subsection \<open>What a validator lets through\<close>

definition OVERFLOW :: exn where
  "OVERFLOW = OverflowError ''int too large to convert to float''"

definition overflow_only :: "'a verdict \<Rightarrow> bool" where
  "overflow_only r \<longleftrightarrow> (\<forall>e. r = Throw e \<longrightarrow> e = OVERFLOW)"

lemma overflow_onlyI: "(\<And>e. r \<noteq> Throw e) \<Longrightarrow> overflow_only r"
  by (simp add: overflow_only_def)

lemma overflow_only_Accept [simp]: "overflow_only (Accept x)"
  by (simp add: overflow_only_def)

lemma overflow_only_combine:
  "overflow_only f \<Longrightarrow> overflow_only x \<Longrightarrow> overflow_only (apV f x)"
  "overflow_only v \<Longrightarrow> (\<And>y. overflow_only (k y)) \<Longrightarrow> overflow_only (bindV v k)"
  "(\<And>v. overflow_only (c v)) \<Longrightarrow> overflow_only (field_of d name c)"
  "(\<And>v. overflow_only (c v)) \<Longrightarrow> overflow_only (field_default d name y c)"
  "(\<And>v. overflow_only (c v)) \<Longrightarrow> overflow_only (optional_of c w)"
  "(\<And>kvs. overflow_only (body kvs)) \<Longrightarrow> overflow_only (StrictModel names body w)"
  by (auto simp: overflow_only_def field_of_def field_default_def optional_of_def StrictModel_def
      dest!: apV_Throw bindV_Throw split: option.splits pyval.splits if_splits)

lemma overflow_only_all: "(\<And>v. overflow_only (c v)) \<Longrightarrow> overflow_only (all_of c vs)"
  by (induction vs) (auto intro!: overflow_only_combine)

lemma overflow_only_list: "(\<And>v. overflow_only (c v)) \<Longrightarrow> overflow_only (list_type n c w)"
  using overflow_only_all [of c]
  by (auto simp: list_type_def overflow_only_def dest!: bindV_Throw split: pyval.splits if_splits)

lemma overflow_only_scalar:
  "overflow_only (str_type n v)" "overflow_only (strict_int ge w)" "overflow_only (strict_bool w)"
  "overflow_only (one_of table w)" "overflow_only (url_type http_url w)"
  by (rule overflow_onlyI; simp add: str_type_def strict_int_def strict_bool_def one_of_def url_type_def
      split: pyval.split option.split)+

lemma overflow_only_validators:
  "overflow_only (text_type v)" "overflow_only (number_gt nan_ok name v)"
  "overflow_only (from_validator (validate_delay_range r))" "overflow_only (from_validator (validate_unique_source_ids c))"
  by (auto simp: overflow_only_def text_type_def reject_blank_text_def number_gt_def require_number_def float_of_int_def
      validate_delay_range_def validate_unique_source_ids_def from_validator_def OVERFLOW_def str_type_def float_gt_def
      dest!: bindV_Throw split: pyval.splits if_splits pyfloat.splits)

lemma overflow_only_models:
  "overflow_only (RequestConfig_type http_url nan_ok v)" "overflow_only (RetryConfig_type nan_ok v)"
  "overflow_only (RateLimitConfig_type v)" "overflow_only (CircuitBreakerConfig_type v)"
  unfolding RequestConfig_type_def RetryConfig_type_def RateLimitConfig_type_def CircuitBreakerConfig_type_def
  by (intro overflow_only_combine overflow_only_Accept overflow_only_scalar overflow_only_validators)+

lemma CrawlerConfig_Throw: "CrawlerConfig_type http_url nan_ok v = Throw e \<Longrightarrow> e = OVERFLOW"
proof -
  have "overflow_only (SourceConfig_type http_url nan_ok w)" for w
    unfolding SourceConfig_type_def
    by (intro overflow_only_combine overflow_only_Accept overflow_only_scalar overflow_only_validators overflow_only_models)
  then have "overflow_only (CrawlerConfig_type http_url nan_ok v)"
    unfolding CrawlerConfig_type_def
    by (intro overflow_only_combine overflow_only_Accept overflow_only_list overflow_only_validators)
  then show "CrawlerConfig_type http_url nan_ok v = Throw e \<Longrightarrow> e = OVERFLOW" by (simp add: overflow_only_def)
qed

subsection \<open>The engine\<close>

fun verdict_of :: "'a pd_outcome \<Rightarrow> 'a verdict" where
  "verdict_of (Valid x) = Accept x"
| "verdict_of (Invalid errors) = Reject"
| "verdict_of (Raised e) = Throw e"

locale pydantic =
  fixes validate :: "pyval \<Rightarrow> CrawlerConfig pd_outcome"
    and http_url :: "string \<Rightarrow> string option"
    and nan_ok :: bool
  assumes validates: "verdict_of (validate doc) = CrawlerConfig_type http_url nan_ok doc"
begin

lemma Valid_wf: "validate doc = Valid c \<Longrightarrow> wf_config nan_ok c"
  using validates [of doc] CrawlerConfig_wf [of http_url nan_ok doc c] by simp

lemma Raised_overflow: "validate doc = Raised e \<Longrightarrow> e = OVERFLOW"
  using validates [of doc] CrawlerConfig_Throw [of http_url nan_ok doc e] by simp

lemma Valid_doc:
  assumes "wf_config nan_ok c"
    and "\<And>x. x \<in> set (cfg_sources c) \<Longrightarrow> http_url (req_url (src_request x)) = Some (req_url (src_request x))"
  shows "validate (PDict (config_doc c)) = Valid c"
  using validates [of "PDict (config_doc c)"] config_doc_Accept [OF assms]
  by (cases "validate (PDict (config_doc c))") simp_all

lemma parse_config_Inr: "parse_config safe_load validate shown text = Inr c \<Longrightarrow> wf_config nan_ok c"
  by (auto simp: parse_config_def dest: Valid_wf split: yaml_outcome.splits pyval.splits pd_outcome.splits)

lemma parse_config_Inl: "parse_config safe_load validate shown text = Inl e \<Longrightarrow>
    (\<exists>m. e = ConfigurationError m) \<or> safe_load text = YamlRaised e \<or> e = OVERFLOW"
  by (auto simp: parse_config_def dest: Raised_overflow split: yaml_outcome.splits pyval.splits pd_outcome.splits)

end

text \<open>An engine that follows the schema and reports one error for every rejected document.\<close>

definition reference_validate :: "(string \<Rightarrow> string option) \<Rightarrow> bool \<Rightarrow> pyval \<Rightarrow> CrawlerConfig pd_outcome" where
  "reference_validate http_url nan_ok doc = (case CrawlerConfig_type http_url nan_ok doc of
       Accept c \<Rightarrow> Valid c
     | Reject \<Rightarrow> Invalid [([''sources''], ''invalid'')]
     | Throw e \<Rightarrow> Raised e)"

interpretation reference: pydantic "reference_validate http_url nan_ok" http_url nan_ok for http_url nan_ok
  by unfold_locales (simp add: reference_validate_def split: verdict.split)

subsection \<open>The properties\<close>

text \<open>C15: What is loaded is well-formed. Whatever the file, the YAML parser and the documents, a configuration that
  \<open>load_config\<close> returns has at least one source, no two sources with the same id, and every source has a
  name and an id that are not blank, an interval of at least 60 seconds, a positive timeout and an allowed
  method, at least one attempt, positive delays in order, and positive limits and thresholds.\<close>

theorem loaded_config_wellformed:
  assumes "pydantic validate http_url nan_ok"
    and "load_config ops path_str safe_load validate p s = (Inr c, t)"
  shows "wf_config nan_ok c"
  using assms(2) pydantic.parse_config_Inr [OF assms(1)] by (auto simp: load_config_def bindP_eq_Inr)

text \<open>Loading fails with one error. An exception of \<open>load_config\<close> is a \<open>ConfigurationError\<close>, or one of those
  that no handler covers: what reading the file raised other than an \<open>OSError\<close>, the \<open>ValueError\<close> of bytes that
  are not UTF-8, what the YAML constructor raised other than a \<open>YAMLError\<close>, or the \<open>OverflowError\<close> of an
  integer too large for a float.\<close>

theorem load_config_errors:
  assumes "pydantic validate http_url nan_ok"
    and "load_config ops path_str safe_load validate p s = (Inl e, t)"
  shows "(\<exists>m. e = ConfigurationError m) \<or>
    (case f_read ops p s of
       (Inl x, u) \<Rightarrow> e = x \<and> (\<forall>m. x \<noteq> OSError m)
     | (Inr b, u) \<Rightarrow> (case utf8_decode b of
           None \<Rightarrow> e = ValueError ''codec can't decode bytes''
         | Some x \<Rightarrow> safe_load (universal_newlines x) = YamlRaised e \<or> e = OVERFLOW))"
proof -
  obtain r u where r: "f_read ops p s = (r, u)" by (cases "f_read ops p s")
  show ?thesis
  proof (cases r)
    case (Inl x)
    then show ?thesis using assms(2) r
      by (cases x) (auto simp: load_config_def read_text_def bindP_def tryP_def)
  next
    case (Inr b)
    show ?thesis
    proof (cases "utf8_decode b")
      case None
      then show ?thesis using assms(2) r Inr by (auto simp: load_config_def read_text_def bindP_def tryP_def)
    next
      case (Some x)
      then have "parse_config safe_load validate (path_str p) (universal_newlines x) = Inl e"
        using assms(2) r Inr by (auto simp: load_config_def read_text_def bindP_def tryP_def)
      then show ?thesis using pydantic.parse_config_Inl [OF assms(1)] r Inr Some by auto
    qed
  qed
qed

text \<open>C16: Every well-formed configuration can be written. The document of a well-formed configuration whose URLs are
  in \<open>HttpUrl\<close>'s normal form loads as that configuration, every field as it was.\<close>

theorem config_document_loads:
  assumes "pydantic validate http_url nan_ok" and "wf_config nan_ok c"
    and "\<And>x. x \<in> set (cfg_sources c) \<Longrightarrow> http_url (req_url (src_request x)) = Some (req_url (src_request x))"
    and "f_read ops p s = (Inr b, t)" and "utf8_decode b = Some x"
    and "safe_load (universal_newlines x) = YamlDocument (PDict (config_doc c))"
  shows "load_config ops path_str safe_load validate p s = (Inr c, t)"
  using assms(4-6) pydantic.Valid_doc [OF assms(1-3)]
  by (simp add: load_config_def parse_config_def read_text_def bindP_def tryP_def)

definition demo_source :: SourceConfig where
  "demo_source = \<lparr>src_id = ''My Site'', src_name = ''Demo'', src_enabled = True, src_mode = POLLING, src_interval_seconds = 60,
     src_queue = BROWSER, src_request = \<lparr>req_url = ''https://a/'', req_method = ''GET'', req_timeout_seconds = Fin 5\<rparr>,
     src_retry = \<lparr>rc_max_attempts = 3, rc_base_delay_seconds = Fin 1, rc_max_delay_seconds = PosInf\<rparr>, src_rate_limit = None,
     src_circuit_breaker = \<lparr>cb_failure_threshold = 5, cb_recovery_seconds = 60\<rparr>\<rparr>"

definition demo_config :: CrawlerConfig where
  "demo_config = \<lparr>cfg_sources = [demo_source, demo_source\<lparr>src_id := ''b'', src_queue := HTTP\<rparr>]\<rparr>"

definition demo_yaml :: "string \<Rightarrow> yaml_outcome" where
  "demo_yaml text = (if text = ''ok'' then YamlDocument (PDict (config_doc demo_config))
     else if text = ''big'' then YamlRaised (ValueError ''month must be in 1..12'') else YamlError)"

definition config_disk :: disk where
  "config_disk = \<lparr>disk_files = [([''c''], ''ok'', 1), ([''d''], ''big'', 1)], disk_dirs = [], disk_now = 2, disk_locked = False\<rparr>"

lemma config_disk_reads [simp]:
  "f_read disk_ops [''c''] config_disk = (Inr ''ok'', config_disk)" "f_read disk_ops [''d''] config_disk = (Inr ''big'', config_disk)"
  by (simp_all add: disk_ops_def disk_need_def disk_at_def config_disk_def)

lemma demo_config_wf: "wf_config False demo_config"
  by code_simp

lemma demo_texts: "utf8_decode ''ok'' = Some ''ok''" "utf8_decode ''big'' = Some ''big''"
    "universal_newlines ''ok'' = ''ok''" "universal_newlines ''big'' = ''big''"
  by code_simp+

theorem config_document_loads_witness:
  "load_config disk_ops (\<lambda>_. ''c'') demo_yaml (reference_validate Some False) [''c''] config_disk = (Inr demo_config, config_disk)"
  by (rule config_document_loads [OF reference.pydantic_axioms demo_config_wf _ config_disk_reads(1) demo_texts(1)])
    (simp_all add: demo_texts demo_yaml_def)

lemma demo_loads: "load_config disk_ops (\<lambda>_. ''c'') demo_yaml (reference_validate Some False) [''c''] config_disk = (Inr demo_config, config_disk)"
  using reference.Valid_doc [OF demo_config_wf, of Some] demo_texts
  by (simp add: load_config_def parse_config_def read_text_def bindP_def tryP_def demo_yaml_def)

theorem loaded_config_wellformed_witness:
  "load_config disk_ops (\<lambda>_. ''c'') demo_yaml (reference_validate Some False) [''c''] config_disk = (Inr demo_config, config_disk) \<and>
   wf_config False demo_config"
  using demo_loads loaded_config_wellformed [OF reference.pydantic_axioms demo_loads] by blast

theorem load_config_errors_witness:
  "fst (load_config disk_ops (\<lambda>_. ''d'') demo_yaml (reference_validate Some False) [''d''] config_disk) = Inl (ValueError ''month must be in 1..12'') \<and>
   demo_yaml ''big'' = YamlRaised (ValueError ''month must be in 1..12'')"
proof -
  have r: "load_config disk_ops (\<lambda>_. ''d'') demo_yaml (reference_validate Some False) [''d''] config_disk =
      (Inl (ValueError ''month must be in 1..12''), config_disk)"
    using demo_texts by (simp add: load_config_def parse_config_def read_text_def bindP_def tryP_def demo_yaml_def)
  then show ?thesis
    using load_config_errors [OF reference.pydantic_axioms r] demo_texts by (simp add: OVERFLOW_def)
qed

end
