(* ===== verification/SchedulerService.thy ===== *)
theory SchedulerService
  imports Config Scheduler Tasks "HOL-Library.Sublist"
begin

section \<open>The scheduler process (\<open>scheduler_service.py\<close>)\<close>

text \<open>
  The loop around \<open>SchedulerService\<close>: the enabled sources of the configuration are registered, and every
  second each of them is ticked; a tick that raises is logged and reported, and the loop goes on. The calls
  are those of \<open>Scheduler\<close> (store, dispatch), \<open>Observability\<close> (events) and \<open>Config\<close>; the broker is \<open>delay\<close>, which
  hands a source id to a queue.

  The theorems: one cycle steps every source as if it were alone, whatever fails for the others, and
  reports exactly the sources whose tick raised; from an empty store, a loaded configuration puts every
  enabled source on its queue in the first cycle. A source id that the configuration accepts and
  \<open>RunContext\<close> does not ends the process at its first failed tick.
\<close>

subsection \<open>The code\<close>

record ScheduledSource =
  sch_source_id :: string
  sch_interval_seconds :: int
  sch_queue :: QueueName

record SchedulerCycleFailure =
  cf_source_id :: string
  cf_error :: exn

definition configured_sources :: "CrawlerConfig \<Rightarrow> ScheduledSource list" where
  "configured_sources config = map (\<lambda>c. \<lparr>sch_source_id = src_id c, sch_interval_seconds = src_interval_seconds c,
     sch_queue = src_queue c\<rparr>) (filter src_enabled (cfg_sources config))"

text \<open>The handler of a failed tick.\<close>

definition tick_failed :: "'s run_env \<Rightarrow> string \<Rightarrow> rat \<Rightarrow> exn \<Rightarrow> ('s, SchedulerCycleFailure) py" where
  "tick_failed env source_id started_at e =
     bindP (uuid4 env) (\<lambda>run_id.
     bindP (liftR (RunContext source_id run_id ''scheduler'')) (\<lambda>ctx.
     bindP (monotonic env) (\<lambda>now.
     bindP (liftR (RunEvent ''scheduler_tick_failed'' ctx FAILED (Some (Fin (now - started_at))) None (Some e) [])) (\<lambda>ev.
     thenP (emit_run_event env ev)
     (ret \<lparr>cf_source_id = source_id, cf_error = e\<rparr>)))))"

definition cycle_step :: "'s run_env \<Rightarrow> (string \<Rightarrow> datetime \<Rightarrow> ('s, bool) py) \<Rightarrow> string \<Rightarrow> datetime \<Rightarrow>
    ('s, SchedulerCycleFailure list) py" where
  "cycle_step env tick source_id current =
     bindP (monotonic env) (\<lambda>started_at.
     tryP (bindP (tick source_id current) (\<lambda>_. ret []))
       (\<lambda>e. if is_Exception e then Some (bindP (tick_failed env source_id started_at e) (\<lambda>f. ret [f])) else None))"

primrec run_cycle :: "'s run_env \<Rightarrow> (string \<Rightarrow> datetime \<Rightarrow> ('s, bool) py) \<Rightarrow> ScheduledSource list \<Rightarrow> datetime \<Rightarrow>
    ('s, SchedulerCycleFailure list) py" where
  "run_cycle env tick [] current = ret []"
| "run_cycle env tick (source # sources) current =
     bindP (cycle_step env tick (sch_source_id source) current) (\<lambda>fs.
     bindP (run_cycle env tick sources current) (\<lambda>gs. ret (fs @ gs)))"

text \<open>\<open>main\<close>: the dictionary of the sources (the last one of an id), the dispatch function, the registrations, and
  \<open>n\<close> rounds of the endless loop.\<close>

definition source_dispatch :: "(QueueName \<Rightarrow> string \<Rightarrow> ('s, unit) py) \<Rightarrow> ScheduledSource list \<Rightarrow> string \<Rightarrow> ('s, unit) py" where
  "source_dispatch delay sources source_id =
     (case map_of (rev (map (\<lambda>c. (sch_source_id c, c)) sources)) source_id of
        None \<Rightarrow> raise (KeyError source_id)
      | Some c \<Rightarrow> if sch_queue c = HTTP then delay HTTP source_id else delay BROWSER source_id)"

primrec register_sources :: "'s kv_ops \<Rightarrow> zone_db \<Rightarrow> ScheduledSource list \<Rightarrow> datetime \<Rightarrow> ('s, unit) py" where
  "register_sources ops zone [] current = ret ()"
| "register_sources ops zone (c # cs) current =
     thenP (register_if_missing ops zone (sch_source_id c) (sch_interval_seconds c) current)
       (register_sources ops zone cs current)"

definition scheduler_start :: "'s file_ops \<Rightarrow> (fpath \<Rightarrow> string) \<Rightarrow> (string \<Rightarrow> fpath) \<Rightarrow> (string \<Rightarrow> yaml_outcome) \<Rightarrow>
    (pyval \<Rightarrow> CrawlerConfig pd_outcome) \<Rightarrow> (string \<Rightarrow> string option) \<Rightarrow> (string \<Rightarrow> ('s, unit) py) \<Rightarrow> 's kv_ops \<Rightarrow> zone_db \<Rightarrow>
    ('s, datetime) py \<Rightarrow> ('s, ScheduledSource list) py" where
  "scheduler_start files path_str to_path safe_load validate environ connect ops zone now =
     bindP (liftR (environ_item environ ''REDIS_URL'')) (\<lambda>url.
     thenP (connect url)
     (bindP (load_config files path_str safe_load validate
         (to_path (environ_get environ ''SCHEDULER_CONFIG_PATH'' ''configs/sources.example.yaml''))) (\<lambda>config.
     let sources = configured_sources config in
     bindP now (\<lambda>current.
     thenP (register_sources ops zone sources current) (ret sources)))))"

primrec scheduler_rounds :: "nat \<Rightarrow> 's run_env \<Rightarrow> 's kv_ops \<Rightarrow> zone_db \<Rightarrow> (QueueName \<Rightarrow> string \<Rightarrow> ('s, unit) py) \<Rightarrow>
    ('s, datetime) py \<Rightarrow> (int \<Rightarrow> ('s, unit) py) \<Rightarrow> ScheduledSource list \<Rightarrow> ('s, unit) py" where
  "scheduler_rounds 0 env ops zone delay now sleep sources = ret ()"
| "scheduler_rounds (Suc n) env ops zone delay now sleep sources =
     bindP now (\<lambda>current.
     thenP (run_cycle env (scheduler_tick ops zone (source_dispatch delay sources)) sources current)
     (thenP (sleep 1) (scheduler_rounds n env ops zone delay now sleep sources)))"

subsection \<open>One cycle\<close>

definition idle :: "('s \<Rightarrow> string \<Rightarrow> string option) \<Rightarrow> ('s \<Rightarrow> string multiset) \<Rightarrow> ('s \<Rightarrow> rat) \<Rightarrow> 's \<Rightarrow> 's \<Rightarrow> bool" where
  "idle view sent clk s t \<longleftrightarrow> view t = view s \<and> sent t = sent s \<and> clk s \<le> clk t"

definition later :: "('s \<Rightarrow> rat) \<Rightarrow> 's \<Rightarrow> 's \<Rightarrow> bool" where
  "later clk s t \<longleftrightarrow> clk s \<le> clk t"

lemma later_rel: "transp (later clk)" "reflp (later clk)"
  by (auto simp: transp_def reflp_def later_def)

lemma tick_keeps:
  assumes t: "transp R" and r: "reflp R" and "\<And>k. keeps R (kv_get ops k)" and "\<And>k v. keeps R (kv_set ops k v)"
    and "\<And>i. keeps R (dispatch i)"
  shows "keeps R (scheduler_tick ops zone dispatch sid current)"
proof -
  have "keeps R (scheduler_load ops sid)"
    unfolding scheduler_load_def using assms by (intro keeps_bindP [OF t]) (auto intro!: keeps_pure split: option.split)
  moreover have "keeps R (scheduler_save ops sid d)" for d
    unfolding scheduler_save_def using assms by (intro keeps_bindP [OF t]) (auto intro!: keeps_pure)
  ultimately show ?thesis
    unfolding scheduler_tick_def using assms by (intro keeps_bindP [OF t]) (auto intro!: keeps_pure keeps_bindP [OF t])
qed

text \<open>What a cycle does to one source: its tick, or, when the tick was reported as failed, its tick or nothing.\<close>

definition source_step :: "('s \<Rightarrow> string \<Rightarrow> string option) \<Rightarrow> ('s \<Rightarrow> string multiset) \<Rightarrow> string \<Rightarrow> entry \<Rightarrow> int \<Rightarrow> bool \<Rightarrow>
    's \<Rightarrow> 's \<Rightarrow> bool" where
  "source_step view sent sid e w failed s t \<longleftrightarrow>
     (if failed
      then view t (state_key sid) = Some (entry_text e) \<and> count (sent t) sid = count (sent s) sid \<or>
        entry_due e w \<and> view t (state_key sid) = Some (entry_text (entry_tick e w)) \<and>
        count (sent t) sid \<in> {count (sent s) sid, Suc (count (sent s) sid)}
      else view t (state_key sid) = Some (entry_text (entry_tick e w)) \<and>
        count (sent t) sid = count (sent s) sid + (if entry_due e w then 1 else 0))"

definition others_same :: "('s \<Rightarrow> string \<Rightarrow> string option) \<Rightarrow> ('s \<Rightarrow> string multiset) \<Rightarrow> string set \<Rightarrow> 's \<Rightarrow> 's \<Rightarrow> bool" where
  "others_same view sent ids s t \<longleftrightarrow> (\<forall>k. k \<notin> state_key ` ids \<longrightarrow> view t k = view s k) \<and>
     (\<forall>i. i \<notin> ids \<longrightarrow> count (sent t) i = count (sent s) i)"

lemma state_key_image [simp]: "state_key i \<in> state_key ` A \<longleftrightarrow> i \<in> A"
  by (auto simp: image_iff)

lemma others_same_trans: "others_same view sent A s t \<Longrightarrow> others_same view sent B t u \<Longrightarrow> others_same view sent (A \<union> B) s u"
  unfolding others_same_def image_Un by (metis UnCI)

lemma others_same_source: "others_same view sent ids s t \<Longrightarrow> i \<notin> ids \<Longrightarrow>
    view t (state_key i) = view s (state_key i) \<and> count (sent t) i = count (sent s) i"
  by (simp add: others_same_def)

lemma source_step_frame:
  "source_step view sent i e w b s t \<Longrightarrow> count (sent s') i = count (sent s) i \<Longrightarrow> count (sent t') i = count (sent t) i \<Longrightarrow>
    view t' (state_key i) = view t (state_key i) \<Longrightarrow> source_step view sent i e w b s' t'"
  by (cases b) (auto simp: source_step_def)

text \<open>The world of the loop: the store and the dispatch of \<open>scheduler_env\<close>, a clock that does not go back, and
  \<open>monotonic\<close>, \<open>uuid4\<close> and a logger that do not raise and leave schedules and queues alone.\<close>

locale scheduler_world = scheduler_env ops view up dispatch sent
  for ops :: "'s kv_ops" and view :: "'s \<Rightarrow> string \<Rightarrow> string option" and up :: "'s \<Rightarrow> bool"
    and dispatch :: "string \<Rightarrow> ('s, unit) py" and sent :: "'s \<Rightarrow> string multiset" +
  fixes env :: "'s run_env"
    and clk :: "'s \<Rightarrow> rat"
  assumes get_later: "keeps (later clk) (kv_get ops k)"
    and set_later: "keeps (later clk) (kv_set ops k v)"
    and dispatch_later: "keeps (later clk) (dispatch i)"
    and monotonic_law: "\<exists>t. monotonic env s = (Inr (clk s), t) \<and> idle view sent clk s t"
    and monotonic_up: "up s \<Longrightarrow> up (snd (monotonic env s))"
    and uuid4_law: "total (idle view sent clk) (uuid4 env)"
    and log_law: "total (idle view sent clk) (log_event env lv ev)"
begin

lemma tick_failed_reports:
  assumes "source_id_match sid" and "t0 \<le> clk s"
  obtains t where "tick_failed env sid t0 e s = (Inr \<lparr>cf_source_id = sid, cf_error = e\<rparr>, t)" "idle view sent clk s t"
proof -
  obtain u s1 where u: "uuid4 env s = (Inr u, s1)" "idle view sent clk s s1" using totalE [OF uuid4_law] by metis
  obtain s2 where m: "monotonic env s1 = (Inr (clk s1), s2)" "idle view sent clk s1 s2" using monotonic_law by blast
  let ?ctx = "\<lparr>ctx_source_id = sid, ctx_crawl_run_id = u, ctx_task_id = ''scheduler''\<rparr>"
  let ?ev = "\<lparr>ev_name = ''scheduler_tick_failed'', ev_context = ?ctx, ev_outcome = FAILED,
    ev_duration = Some (Fin (clk s1 - t0)), ev_item_count = None, ev_exception = Some e, ev_extra = []\<rparr>"
  have "task_id_match ''scheduler''" "event_name_match ''scheduler_tick_failed''" by code_simp+
  then have "RunContext sid u ''scheduler'' = Inr ?ctx"
    "RunEvent ''scheduler_tick_failed'' ?ctx FAILED (Some (Fin (clk s1 - t0))) None (Some e) [] = Inr ?ev"
    using assms u(2) by (auto simp: RunContext_def RunEvent_def float_negative_def idle_def)
  moreover obtain x t where "log_event env ERROR ?ev s2 = (Inr x, t)" "idle view sent clk s2 t"
    using totalE [OF log_law] by metis
  ultimately have "tick_failed env sid t0 e s = (Inr \<lparr>cf_source_id = sid, cf_error = e\<rparr>, t)" "idle view sent clk s t"
    using u m by (auto simp: tick_failed_def emit_run_event_def idle_def)
  then show thesis by (rule that)
qed

lemma tick_later: "keeps (later clk) (scheduler_tick ops zone dispatch sid current)"
  by (rule tick_keeps [OF later_rel get_later set_later dispatch_later])

lemma tick_exception:
  assumes e: "view s (state_key sid) = Some (entry_text e)" and ok: "entry_ok e"
    and t: "scheduler_tick ops zone dispatch sid (naive w) s = (Inl x, t)"
  shows "is_Exception x"
proof -
  obtain l s1 where l: "scheduler_load ops sid s = (l, s1)" by (cases "scheduler_load ops sid s")
  show ?thesis
  proof (cases l)
    case (Inl y)
    then have "x = y" using t l by (simp add: scheduler_tick_def)
    moreover obtain g u where g: "kv_get ops (state_key sid) s = (g, u)" by (cases "kv_get ops (state_key sid) s")
    ultimately show ?thesis using l Inl e [symmetric] get_Inl [of "state_key sid" s] get_Inr [of "state_key sid" s _ u]
      by (cases g) (auto simp: scheduler_load_def split: option.splits)
  next
    case (Inr d)
    then have d: "d = entry_doc e" using load_entry [OF e l] by auto
    have n: "wall_ok (ent_next e)" using ok by (simp add: entry_ok_def)
    have due: "entry_due e w" using t l Inr d n by (auto simp: scheduler_tick_def entry_due_def split: if_splits)
    show ?thesis
    proof (cases "next_run_at (naive w) (ent_interval e)")
      case (Inl y)
      then show ?thesis using t l Inr d n due
        by (auto simp: scheduler_tick_def entry_due_def next_run_at_def timedelta_seconds_def dt_add_def split: if_splits)
    next
      case (Inr nx)
      then have nx: "nx = naive (w + ent_interval e * 1000000)"
        by (auto simp: next_run_at_def timedelta_seconds_def dt_add_def naive_def split: if_splits)
      have "bindP (kv_set ops (state_key sid) (entry_text (entry_tick e w))) (\<lambda>_. bindP (dispatch sid) (\<lambda>_. ret True)) s1 = (Inl x, t)"
        using t l \<open>l = Inr d\<close> d n due Inr nx save_entry [of sid "entry_tick e w"]
        by (simp add: scheduler_tick_def entry_due_def entry_tick_def)
      then show ?thesis using set_Inl dispatch_Inl by (auto simp: bindP_eq_Inl)
    qed
  qed
qed

lemma tick_outcome_step:
  assumes "tick_outcome sid e w s r t" and "view s (state_key sid) = Some (entry_text e)"
  shows "source_step view sent sid e w (isl r) s t" and "others_same view sent {sid} s t"
  using assms by (auto simp: tick_outcome_def source_step_def others_same_def entry_tick_def)

lemma cycle_step_cases:
  assumes e: "view s (state_key sid) = Some (entry_text e)" and ok: "entry_ok e" and w: "wall_ok w" and m: "source_id_match sid"
  obtains fs t where "cycle_step env (scheduler_tick ops zone dispatch) sid (naive w) s = (Inr fs, t)"
    "map cf_source_id fs = [] \<or> map cf_source_id fs = [sid]"
    "source_step view sent sid e w (fs \<noteq> []) s t" "others_same view sent {sid} s t"
proof -
  obtain s1 where s1: "monotonic env s = (Inr (clk s), s1)" "idle view sent clk s s1" using monotonic_law by blast
  obtain r s2 where r: "scheduler_tick ops zone dispatch sid (naive w) s1 = (r, s2)"
    by (cases "scheduler_tick ops zone dispatch sid (naive w) s1")
  have e1: "view s1 (state_key sid) = Some (entry_text e)" using e s1(2) by (simp add: idle_def)
  note o = tick_outcome_step [OF tick_cases [OF e1 ok w r] e1]
  have lt: "clk s \<le> clk s2" using keepsD [OF tick_later r] s1(2) by (simp add: later_def idle_def)
  have st: "source_step view sent sid e w b s t" "others_same view sent {sid} s t"
    if "source_step view sent sid e w b s1 s2" "idle view sent clk s2 t" for b t
    using that o(2) s1(2) by (auto simp: source_step_def others_same_def idle_def)
  show thesis
  proof (cases r)
    case (Inr b)
    then have "cycle_step env (scheduler_tick ops zone dispatch) sid (naive w) s = (Inr [], s2)"
      using s1(1) r by (simp add: cycle_step_def tryP_def bindP_def)
    then show thesis using that st(1) [of False s2] st(2) [of False s2] o(1) Inr by (auto simp: idle_def)
  next
    case (Inl x)
    obtain t where t: "tick_failed env sid (clk s) x s2 = (Inr \<lparr>cf_source_id = sid, cf_error = x\<rparr>, t)" "idle view sent clk s2 t"
      using tick_failed_reports [OF m lt] .
    have "cycle_step env (scheduler_tick ops zone dispatch) sid (naive w) s = (Inr [\<lparr>cf_source_id = sid, cf_error = x\<rparr>], t)"
      using s1(1) r Inl t(1) tick_exception [OF e1 ok r [unfolded Inl]] by (simp add: cycle_step_def tryP_def bindP_def)
    then show thesis using that st [of True t] o(1) Inl t(2) by auto
  qed
qed

lemma source_steps_append:
  assumes u: "map cf_source_id fs = [] \<or> map cf_source_id fs = [i]" "source_step view sent i (es i) w (fs \<noteq> []) s u"
      "others_same view sent {i} s u"
    and t: "subseq (map cf_source_id gs) ids"
      "\<forall>j \<in> set ids. source_step view sent j (es j) w (j \<in> set (map cf_source_id gs)) u t" "others_same view sent (set ids) u t"
    and i: "i \<notin> set ids"
  shows "\<forall>j \<in> set (i # ids). source_step view sent j (es j) w (j \<in> set (map cf_source_id (fs @ gs))) s t"
proof
  fix j assume "j \<in> set (i # ids)"
  then consider "j = i" | "j \<noteq> i" "j \<in> set ids" using i by auto
  then show "source_step view sent j (es j) w (j \<in> set (map cf_source_id (fs @ gs))) s t"
  proof cases
    case 1
    have "i \<notin> set (map cf_source_id gs)" using i list_emb_set [OF t(1)] by blast
    then have "(i \<in> set (map cf_source_id (fs @ gs))) = (fs \<noteq> [])" using u(1) by auto
    then have "source_step view sent i (es i) w (i \<in> set (map cf_source_id (fs @ gs))) s u" using u(2) by (simp only:)
    then show ?thesis unfolding 1 by (rule source_step_frame) (simp_all add: others_same_source [OF t(3) i])
  next
    case 2
    have o: "view u (state_key j) = view s (state_key j)" "count (sent u) j = count (sent s) j"
      using others_same_source [OF u(3), of j] 2(1) by simp_all
    have "(j \<in> set (map cf_source_id (fs @ gs))) = (j \<in> set (map cf_source_id gs))" using u(1) 2(1) by auto
    then have "source_step view sent j (es j) w (j \<in> set (map cf_source_id (fs @ gs))) u t" using t(2) 2(2) by (simp only:)
    then show ?thesis using o by (auto intro: source_step_frame)
  qed
qed

lemma run_cycle_steps:
  assumes "distinct (map sch_source_id sources)"
    and "\<forall>c \<in> set sources. source_id_match (sch_source_id c) \<and> entry_ok (es (sch_source_id c)) \<and>
      view s (state_key (sch_source_id c)) = Some (entry_text (es (sch_source_id c)))"
    and "wall_ok w"
  shows "\<exists>fs t. run_cycle env (scheduler_tick ops zone dispatch) sources (naive w) s = (Inr fs, t) \<and>
    subseq (map cf_source_id fs) (map sch_source_id sources) \<and>
    (\<forall>i \<in> set (map sch_source_id sources). source_step view sent i (es i) w (i \<in> set (map cf_source_id fs)) s t) \<and>
    others_same view sent (set (map sch_source_id sources)) s t"
  using assms(1,2)
proof (induction sources arbitrary: s)
  case Nil
  then show ?case by (simp add: others_same_def)
next
  case (Cons c cs)
  let ?i = "sch_source_id c"
  obtain fs u where u: "cycle_step env (scheduler_tick ops zone dispatch) ?i (naive w) s = (Inr fs, u)"
    "map cf_source_id fs = [] \<or> map cf_source_id fs = [?i]"
    "source_step view sent ?i (es ?i) w (fs \<noteq> []) s u" "others_same view sent {?i} s u"
    using cycle_step_cases [of s ?i "es ?i" w] Cons.prems(2) assms(3) by auto
  have ne: "sch_source_id d \<noteq> ?i" if "d \<in> set cs" for d
    using Cons.prems(1) imageI [OF that, of sch_source_id] by (simp del: image_eqI) metis
  have "\<forall>d \<in> set cs. source_id_match (sch_source_id d) \<and> entry_ok (es (sch_source_id d)) \<and>
      view u (state_key (sch_source_id d)) = Some (entry_text (es (sch_source_id d)))"
    using Cons.prems(2) others_same_source [OF u(4)] ne by auto
  then obtain gs t where t: "run_cycle env (scheduler_tick ops zone dispatch) cs (naive w) u = (Inr gs, t)"
    "subseq (map cf_source_id gs) (map sch_source_id cs)"
    "\<forall>i \<in> set (map sch_source_id cs). source_step view sent i (es i) w (i \<in> set (map cf_source_id gs)) u t"
    "others_same view sent (set (map sch_source_id cs)) u t"
    using Cons.IH [of u] Cons.prems(1) by auto
  have "?i \<notin> set (map sch_source_id cs)" using Cons.prems(1) by simp
  then have all: "\<forall>i \<in> set (map sch_source_id (c # cs)). source_step view sent i (es i) w (i \<in> set (map cf_source_id (fs @ gs))) s t"
    using source_steps_append [OF u(2-4) t(2-4)] by simp
  have "subseq (map cf_source_id (fs @ gs)) (map sch_source_id (c # cs))"
    using u(2) t(2) by auto
  moreover have "others_same view sent (set (map sch_source_id (c # cs))) s t"
    using others_same_trans [OF u(4) t(4)] by simp
  moreover have "run_cycle env (scheduler_tick ops zone dispatch) (c # cs) (naive w) s = (Inr (fs @ gs), t)"
    using u(1) t(1) by simp
  ultimately show ?case using all by blast
qed

text \<open>With a store and a broker that answer: the registrations of unknown sources, and a cycle over due ones.\<close>

lemma register_new:
  assumes "up s" and "view s (state_key sid) = None" and "60 \<le> i" and "wall_ok w" and "wall_ok (w + i * 1000000)"
  obtains t where "register_if_missing ops zone sid i (naive w) s = (Inr True, t)" "up t" "sent t = sent s"
    "view t = (view s)(state_key sid \<mapsto> entry_text \<lparr>ent_interval = i, ent_paused = False, ent_next = w, ent_last = None\<rparr>)"
proof -
  let ?e = "\<lparr>ent_interval = i, ent_paused = False, ent_next = w, ent_last = None\<rparr>"
  obtain s1 where s1: "kv_get ops (state_key sid) s = (Inr (view s (state_key sid)), s1)" "view s1 = view s" "up s1"
    using get_upE [OF assms(1)] .
  obtain t y where t: "scheduler_register ops zone sid i (naive w) s1 = (Inr (), t)" "up t"
      "dumps default_style (PDict [(''interval'', PInt i), (''paused'', PBool False),
        (''next'', PStr (isoformat zone (naive w)))]) = Inr y"
      "view t = (view s1)(state_key sid \<mapsto> y)" "sent t = sent s1"
    using register_up [OF s1(3) next_run_at_naive [OF assms(3,4,5)]] by blast
  have "y = entry_text ?e" using t(3) dumps_entry [of ?e] by (simp add: entry_doc_def del: dumps.simps)
  then show thesis using that [of t] assms(2) s1 get_sent [OF s1(1)] t by (simp add: register_if_missing_def)
qed

lemma register_sources_new:
  assumes "up s" and "distinct (map sch_source_id sources)"
    and "\<forall>c \<in> set sources. view s (state_key (sch_source_id c)) = None \<and> 60 \<le> sch_interval_seconds c \<and>
      wall_ok (w + sch_interval_seconds c * 1000000)"
    and "wall_ok w"
  shows "\<exists>t. register_sources ops zone sources (naive w) s = (Inr (), t) \<and> up t \<and> sent t = sent s \<and>
    (\<forall>c \<in> set sources. view t (state_key (sch_source_id c)) = Some (entry_text
      \<lparr>ent_interval = sch_interval_seconds c, ent_paused = False, ent_next = w, ent_last = None\<rparr>)) \<and>
    others_same view sent (set (map sch_source_id sources)) s t"
  using assms(1-3)
proof (induction sources arbitrary: s)
  case Nil
  then show ?case by (simp add: others_same_def)
next
  case (Cons c cs)
  let ?i = "sch_source_id c"
  obtain u where u: "register_if_missing ops zone ?i (sch_interval_seconds c) (naive w) s = (Inr True, u)" "up u" "sent u = sent s"
    "view u = (view s)(state_key ?i \<mapsto> entry_text
      \<lparr>ent_interval = sch_interval_seconds c, ent_paused = False, ent_next = w, ent_last = None\<rparr>)"
    using register_new [of s ?i "sch_interval_seconds c" w] Cons.prems assms(4) by auto
  have ig: "?i \<notin> set (map sch_source_id cs)" using Cons.prems(2) by simp
  have ne: "sch_source_id d \<noteq> ?i" if "d \<in> set cs" for d using ig imageI [OF that, of sch_source_id] by (simp del: image_eqI) metis
  have "\<forall>d \<in> set cs. view u (state_key (sch_source_id d)) = None \<and> 60 \<le> sch_interval_seconds d \<and>
      wall_ok (w + sch_interval_seconds d * 1000000)"
    using Cons.prems(3) u(4) ne by simp
  then obtain t where t: "register_sources ops zone cs (naive w) u = (Inr (), t)" "up t" "sent t = sent u"
    "\<forall>c \<in> set cs. view t (state_key (sch_source_id c)) = Some (entry_text
      \<lparr>ent_interval = sch_interval_seconds c, ent_paused = False, ent_next = w, ent_last = None\<rparr>)"
    "others_same view sent (set (map sch_source_id cs)) u t"
    using Cons.IH [OF u(2)] Cons.prems(2) by auto
  have "others_same view sent {?i} s u" using u(3,4) by (simp add: others_same_def)
  then have "others_same view sent (set (map sch_source_id (c # cs))) s t"
    using others_same_trans t(5) by fastforce
  moreover have "view t (state_key ?i) = view u (state_key ?i)" using others_same_source [OF t(5) ig] by simp
  ultimately show ?case using u t(1-4) by simp
qed

lemma cycle_all_due:
  assumes "up s" and "distinct (map sch_source_id sources)"
    and "\<forall>c \<in> set sources. entry_ok (es (sch_source_id c)) \<and> entry_due (es (sch_source_id c)) w \<and>
      wall_ok (w + ent_interval (es (sch_source_id c)) * 1000000) \<and>
      view s (state_key (sch_source_id c)) = Some (entry_text (es (sch_source_id c)))"
    and "wall_ok w"
  shows "\<exists>t. run_cycle env (scheduler_tick ops zone dispatch) sources (naive w) s = (Inr [], t) \<and> up t \<and>
    sent t = sent s + mset (map sch_source_id sources)"
  using assms(1-3)
proof (induction sources arbitrary: s)
  case Nil
  then show ?case by simp
next
  case (Cons c cs)
  let ?i = "sch_source_id c"
  obtain s1 where s1: "monotonic env s = (Inr (clk s), s1)" "idle view sent clk s s1" using monotonic_law by blast
  have up1: "up s1" using monotonic_up [OF Cons.prems(1)] s1(1) by simp
  obtain u where u: "scheduler_tick ops zone dispatch ?i (naive w) s1 = (Inr (entry_due (es ?i) w), u)" "up u"
    "view u = (view s1)(state_key ?i \<mapsto> entry_text (entry_tick (es ?i) w))" "sent u = add_mset ?i (sent s1)"
    using tick_up [of s1 ?i "es ?i" w zone] Cons.prems(3) s1(2) up1 assms(4) by (auto simp: idle_def)
  have ig: "?i \<notin> set (map sch_source_id cs)" using Cons.prems(2) by simp
  have ne: "sch_source_id d \<noteq> ?i" if "d \<in> set cs" for d using ig imageI [OF that, of sch_source_id] by (simp del: image_eqI) metis
  have "\<forall>c \<in> set cs. entry_ok (es (sch_source_id c)) \<and> entry_due (es (sch_source_id c)) w \<and>
      wall_ok (w + ent_interval (es (sch_source_id c)) * 1000000) \<and>
      view u (state_key (sch_source_id c)) = Some (entry_text (es (sch_source_id c)))"
    using Cons.prems(3) u(3) ne s1(2) by (simp add: idle_def)
  then obtain t where "run_cycle env (scheduler_tick ops zone dispatch) cs (naive w) u = (Inr [], t)" "up t"
    "sent t = sent u + mset (map sch_source_id cs)"
    using Cons.IH [OF u(2)] Cons.prems(2) by auto
  then show ?case using s1 u by (auto simp: cycle_step_def tryP_def bindP_def idle_def)
qed

end

lemma run_cycle_cong: "(\<And>c. c \<in> set sources \<Longrightarrow> tick (sch_source_id c) = tick' (sch_source_id c)) \<Longrightarrow>
    run_cycle env tick sources current = run_cycle env tick' sources current"
  by (induction sources) (simp_all add: cycle_step_def)

lemma scheduler_tick_cong: "dispatch sid = dispatch' sid \<Longrightarrow>
    scheduler_tick ops zone dispatch sid = scheduler_tick ops zone dispatch' sid"
  by (rule ext) (simp add: scheduler_tick_def cong: if_cong)

lemma source_dispatch_at:
  assumes "distinct (map sch_source_id sources)" and "c \<in> set sources"
  shows "source_dispatch delay sources (sch_source_id c) = delay (sch_queue c) (sch_source_id c)"
proof -
  have "map_of (rev (map (\<lambda>c. (sch_source_id c, c)) sources)) (sch_source_id c) = Some c"
    using assms by (intro map_of_is_SomeI) (auto simp: rev_map comp_def distinct_map)
  then show ?thesis by (cases "sch_queue c") (simp_all add: source_dispatch_def)
qed

lemma cycle_dispatch:
  assumes "distinct (map sch_source_id sources)"
    and "\<forall>c \<in> set sources. dispatch (sch_source_id c) = delay (sch_queue c) (sch_source_id c)"
  shows "run_cycle env (scheduler_tick ops zone (source_dispatch delay sources)) sources current =
    run_cycle env (scheduler_tick ops zone dispatch) sources current"
proof (rule run_cycle_cong)
  fix c assume "c \<in> set sources"
  then show "scheduler_tick ops zone (source_dispatch delay sources) (sch_source_id c) =
      scheduler_tick ops zone dispatch (sch_source_id c)"
    using assms by (intro scheduler_tick_cong) (simp add: source_dispatch_at)
qed

lemma configured_sources_facts:
  assumes "wf_config nan_ok config"
  shows "distinct (map sch_source_id (configured_sources config))"
    and "c \<in> set (configured_sources config) \<Longrightarrow> 60 \<le> sch_interval_seconds c"
  using assms by (auto simp: configured_sources_def wf_config_def wf_source_def list_all_iff comp_def distinct_map
      inj_on_def)

subsection \<open>On the reference Redis\<close>

definition service_clk :: "task_sim \<Rightarrow> rat" where
  "service_clk s = of_int (clock s) / 1000"

lemma command_later:
  assumes "\<And>u. clock (snd (f u)) = clock u"
  shows "keeps (later service_clk) (command f)"
proof (rule keepsI)
  fix s r t assume "command f s = (r, t)"
  then show "later service_clk s t"
    using assms [of s] by (cases r) (auto simp: later_def service_clk_def dest!: command_Inr command_Inl)
qed

interpretation service: scheduler_world redis_kv redis_view redis_up "redis_dispatch b" redis_sent "te_run sim_env" service_clk
  for b :: "string \<Rightarrow> bool"
proof unfold_locales
  fix k v i
  show "keeps (later service_clk) (kv_get redis_kv k)" "keeps (later service_clk) (kv_set redis_kv k v)"
    "keeps (later service_clk) (redis_dispatch b i)"
    by (simp_all add: redis_kv_def redis_dispatch_def redis_push_def redis_set_def command_later)
qed (auto simp: total_def idle_def sim_env_def service_clk_def redis_view_def redis_sent_def redis_get_def live_str_def)


definition service0 :: task_sim where
  "service0 = sim0\<lparr>strings := [state_key ''a'' \<mapsto> (entry_text demo_entry, None), state_key ''b'' \<mapsto> (entry_text demo_entry, None)],
     faults := [Refused]\<rparr>"

definition two_sources :: "ScheduledSource list" where
  "two_sources = [\<lparr>sch_source_id = ''a'', sch_interval_seconds = 60, sch_queue = HTTP\<rparr>,
     \<lparr>sch_source_id = ''b'', sch_interval_seconds = 60, sch_queue = BROWSER\<rparr>]"

lemma demo_ids: "source_id_match ''a''" "source_id_match ''b''"
  by code_simp+



definition service_config :: CrawlerConfig where
  "service_config = \<lparr>cfg_sources = [demo_source\<lparr>src_id := ''a''\<rparr>, demo_source\<lparr>src_id := ''b'', src_queue := HTTP\<rparr>,
     demo_source\<lparr>src_id := ''c'', src_enabled := False\<rparr>]\<rparr>"

definition redis_delay :: "QueueName \<Rightarrow> string \<Rightarrow> ('m redis_scheme, unit) py" where
  "redis_delay q = redis_dispatch (\<lambda>_. q = BROWSER)"

lemma service_config_sources: "configured_sources service_config =
    [\<lparr>sch_source_id = ''a'', sch_interval_seconds = 60, sch_queue = BROWSER\<rparr>,
     \<lparr>sch_source_id = ''b'', sch_interval_seconds = 60, sch_queue = HTTP\<rparr>]"
  by (simp add: configured_sources_def service_config_def demo_source_def)

lemma service_delay: "\<forall>c \<in> set (configured_sources service_config).
    redis_dispatch (\<lambda>i. i = ''a'') (sch_source_id c) = redis_delay (sch_queue c) (sch_source_id c)"
  by (simp add: service_config_sources redis_delay_def redis_dispatch_def)

lemma later_walls: "0 \<le> n \<Longrightarrow> n \<le> 120000000 \<Longrightarrow> wall_ok (demo_wall + n)"
  by (simp add: wall_ok_def demo_wall_def ymd2ord_def dby_def dbm_def)


lemma same_source: "distinct (map sch_source_id xs) \<Longrightarrow> x \<in> set xs \<Longrightarrow> y \<in> set xs \<Longrightarrow>
    sch_source_id x = sch_source_id y \<Longrightarrow> x = y"
  using inj_onD [of sch_source_id "set xs" x y] by (simp add: distinct_map)

text \<open>The stored schedule of a configured source.\<close>

definition scheduled :: "('s \<Rightarrow> string \<Rightarrow> string option) \<Rightarrow> 's \<Rightarrow> ScheduledSource \<Rightarrow> bool" where
  "scheduled view s c \<longleftrightarrow> (\<exists>e. view s (state_key (sch_source_id c)) = Some (entry_text e) \<and> entry_ok e \<and>
     ent_interval e = sch_interval_seconds c)"

lemma scheduled_idle: "idle view sent clk s t \<Longrightarrow> scheduled view t c = scheduled view s c"
  by (simp add: idle_def scheduled_def)

lemma scheduled_choice:
  assumes "distinct (map sch_source_id sources)" and "\<forall>c \<in> set sources. scheduled view s c"
  shows "\<exists>es. \<forall>c \<in> set sources. view s (state_key (sch_source_id c)) = Some (entry_text (es (sch_source_id c))) \<and>
    entry_ok (es (sch_source_id c)) \<and> ent_interval (es (sch_source_id c)) = sch_interval_seconds c"
proof -
  from assms(2) obtain f where f: "\<forall>c \<in> set sources. view s (state_key (sch_source_id c)) = Some (entry_text (f c)) \<and>
      entry_ok (f c) \<and> ent_interval (f c) = sch_interval_seconds c"
    unfolding scheduled_def by metis
  have "the_inv_into (set sources) sch_source_id (sch_source_id c) = c" if "c \<in> set sources" for c
    using the_inv_into_f_f [of sch_source_id "set sources" c] assms(1) that by (simp add: distinct_map)
  with f show ?thesis by (intro exI [of _ "\<lambda>i. f (the_inv_into (set sources) sch_source_id i)"]) simp
qed

lemma scheduled_step:
  assumes "source_step view sent (sch_source_id c) e w b s t" and "entry_ok e"
    and "ent_interval e = sch_interval_seconds c" and "view s (state_key (sch_source_id c)) = Some (entry_text e)"
    and "wall_ok (w + sch_interval_seconds c * 1000000)"
  shows "scheduled view t c"
proof -
  have "view t (state_key (sch_source_id c)) \<in> {Some (entry_text e), Some (entry_text (entry_tick e w))}"
    using assms(1,4) by (auto simp: source_step_def split: if_splits)
  moreover have "entry_ok (entry_tick e w)" "ent_interval (entry_tick e w) = sch_interval_seconds c"
    using assms(2,3,5) by (auto simp: entry_tick_def entry_ok_def)
  ultimately show ?thesis unfolding scheduled_def using assms(2,3) by blast
qed

text \<open>One cycle is carried out and leaves every source with a schedule.\<close>

lemma cycle_keeps_schedules:
  assumes w: "scheduler_world ops view up dispatch sent env clk" and d: "distinct (map sch_source_id sources)"
    and src: "\<forall>c \<in> set sources. source_id_match (sch_source_id c) \<and> dispatch (sch_source_id c) = delay (sch_queue c) (sch_source_id c)"
    and sched: "\<forall>c \<in> set sources. scheduled view s c"
    and now: "wall_ok now" "\<forall>c \<in> set sources. wall_ok (now + sch_interval_seconds c * 1000000)"
  shows "\<exists>fs t. run_cycle env (scheduler_tick ops zone (source_dispatch delay sources)) sources (naive now) s = (Inr fs, t) \<and>
    (\<forall>c \<in> set sources. scheduled view t c)"
proof -
  obtain es where es: "\<forall>c \<in> set sources. view s (state_key (sch_source_id c)) = Some (entry_text (es (sch_source_id c))) \<and>
      entry_ok (es (sch_source_id c)) \<and> ent_interval (es (sch_source_id c)) = sch_interval_seconds c"
    using scheduled_choice [OF d sched] by blast
  then have "\<forall>c \<in> set sources. source_id_match (sch_source_id c) \<and> entry_ok (es (sch_source_id c)) \<and>
      view s (state_key (sch_source_id c)) = Some (entry_text (es (sch_source_id c)))"
    using src by simp
  from scheduler_world.run_cycle_steps [OF w d this now(1), of zone]
  obtain fs t where t: "run_cycle env (scheduler_tick ops zone dispatch) sources (naive now) s = (Inr fs, t)"
    "\<forall>i \<in> set (map sch_source_id sources). source_step view sent i (es i) now (i \<in> set (map cf_source_id fs)) s t" by blast
  have "run_cycle env (scheduler_tick ops zone (source_dispatch delay sources)) sources (naive now) =
      run_cycle env (scheduler_tick ops zone dispatch) sources (naive now)"
    by (rule cycle_dispatch) (use d src in auto)
  moreover have "scheduled view t c" if c: "c \<in> set sources" for c
    using scheduled_step [of view sent c "es (sch_source_id c)" now "sch_source_id c \<in> set (map cf_source_id fs)" s t]
      t(2) es now(2) c by simp
  ultimately show ?thesis using t(1) by simp
qed



subsection \<open>A source id that the events refuse\<close>

text \<open>\<open>SourceConfig\<close> accepts every id that is not blank. When the tick of an id outside \<open>[a-z0-9_-]+\<close> raises, the
  handler raises in its turn: the cycle ends with a \<open>ValueError\<close>, the sources after it are not ticked, and
  nothing in \<open>main\<close> catches it.\<close>

theorem unloggable_id_ends_cycle:
  assumes "\<not> source_id_match (sch_source_id c)" and "monotonic env s = (Inr t0, s1)"
    and "tick (sch_source_id c) current s1 = (Inl e, s2)" and "is_Exception e" and "uuid4 env s2 = (Inr u, s3)"
  shows "run_cycle env tick (c # cs) current s = (Inl (ValueError ''source_id must match [a-z0-9_-]+''), s3)"
  using assms by (simp add: cycle_step_def tryP_def bindP_def tick_failed_def RunContext_def)

theorem unloggable_id_ends_cycle_witness:
  "load_config disk_ops (\<lambda>_. ''c'') demo_yaml (reference_validate Some False) [''c''] config_disk = (Inr demo_config, config_disk) \<and>
   fst (run_cycle (te_run sim_env) (scheduler_tick redis_kv demo_zone (redis_dispatch (\<lambda>_. False))) (configured_sources demo_config)
     (naive demo_wall) sim0) = Inl (ValueError ''source_id must match [a-z0-9_-]+'')"
proof -
  let ?tick = "scheduler_tick redis_kv demo_zone (redis_dispatch (\<lambda>_. False))"
  have cs: "configured_sources demo_config = [\<lparr>sch_source_id = ''My Site'', sch_interval_seconds = 60, sch_queue = BROWSER\<rparr>,
      \<lparr>sch_source_id = ''b'', sch_interval_seconds = 60, sch_queue = HTTP\<rparr>]"
    by (simp add: configured_sources_def demo_config_def demo_source_def)
  have bad: "\<not> source_id_match (sch_source_id \<lparr>sch_source_id = ''My Site'', sch_interval_seconds = 60, sch_queue = BROWSER\<rparr>)"
    by code_simp
  have t: "?tick ''My Site'' (naive demo_wall) sim0 = (Inl (KeyError (''Unknown scheduled source: '' @ ''My Site'')), sim0)"
    by (simp add: scheduler_tick_def scheduler_load_def redis_defs command_def sim0_def)
  have "run_cycle (te_run sim_env) ?tick (configured_sources demo_config) (naive demo_wall) sim0 =
      (Inl (ValueError ''source_id must match [a-z0-9_-]+''), sim0)"
    unfolding cs by (rule unloggable_id_ends_cycle [OF bad, where ?t0.0 = 0 and ?s1.0 = sim0 and ?s2.0 = sim0 and e = "KeyError (''Unknown scheduled source: '' @ ''My Site'')" and u = "''uuid''"])
      (use t in \<open>simp_all add: sim_env_def sim0_def\<close>)
  then show ?thesis using demo_loads by simp
qed

end
