(* ===== verification/Inspection.thy ===== *)
theory Inspection
  imports TextFiles JsonRound Datetime BrowserSession
begin

section \<open>The daily inspection report (\<open>inspection.py\<close>)\<close>

text \<open>
  The health document is parsed into typed values, each source is judged by fixed thresholds, and the report is
  written as JSON and as Markdown. The tz database is the parameter \<open>zone\<close> (offsets at a wall clock) with
  \<open>of_utc\<close> (the Beijing wall clock of a UTC instant); \<open>argparse\<close> is not modelled, \<open>main\<close> takes the parsed
  arguments. Floats are exact rationals, as everywhere.

  The theorems: what is parsed is well-formed, and parsing raises \<open>InspectionInputError\<close> and the errors of numbers and
  dates out of range only; the status and the findings of a report are those of the conditions written out;
  the JSON text reads back as the report; a run either refuses its input and leaves the files alone or
  writes the two reports.
\<close>

subsection \<open>Data\<close>

definition inspection_source_id_match :: "string \<Rightarrow> bool" where
  "inspection_source_id_match s \<longleftrightarrow> s \<noteq> [] \<and>
     list_all (\<lambda>c. is_lower_az c \<or> is_ascii_digit c \<or> c = CHR ''_'' \<or> c = CHR ''-'') s"

definition INSPECTION_WINDOW :: int where
  "INSPECTION_WINDOW = 24 * 3600 * 1000000"

definition MAX_QUEUE_DEPTH :: int where
  "MAX_QUEUE_DEPTH = 100"

definition MAX_FAILURE_RATE :: rat where
  "MAX_FAILURE_RATE = 2 / 10"

definition MAX_ITEM_DEVIATION :: rat where
  "MAX_ITEM_DEVIATION = 5 / 10"

definition INTERESTING_HTTP_STATUSES :: "string list" where
  "INTERESTING_HTTP_STATUSES = [''401'', ''403'', ''429'']"

record SourceHealthInput =
  sh_source_id :: string
  sh_runs_succeeded :: int
  sh_runs_failed :: int
  sh_last_success_at :: "datetime option"
  sh_average_duration_seconds :: pyfloat
  sh_p95_duration_seconds :: pyfloat
  sh_item_count :: int
  sh_baseline_item_count :: "int option"
  sh_parse_failure_snapshot_count :: int
  sh_http_statuses :: "(string \<times> int) list"
  sh_queue_depth :: int
  sh_circuit_breaker_open :: bool

record HealthReportInput =
  hr_window_end :: datetime
  hr_sources :: "SourceHealthInput list"

record SourceInspection =
  si_source_id :: string
  si_failure_rate :: rat
  si_last_success_at :: "string option"
  si_average_duration_seconds :: pyfloat
  si_p95_duration_seconds :: pyfloat
  si_item_count :: int
  si_baseline_item_count :: "int option"
  si_parse_failure_snapshot_count :: int
  si_http_statuses :: "(string \<times> int) list"
  si_queue_depth :: int
  si_circuit_breaker_open :: bool
  si_findings :: "string list"

record DailyInspectionReport =
  dr_schema_version :: int
  dr_generated_at :: string
  dr_window_start :: string
  dr_window_end :: string
  dr_status :: string
  dr_sources :: "SourceInspection list"

definition requires_action :: "DailyInspectionReport \<Rightarrow> bool" where
  "requires_action r \<longleftrightarrow> dr_status r = ''attention''"

subsection \<open>Checks of the input\<close>

definition only_keys :: "(string \<times> 'a) list \<Rightarrow> string list \<Rightarrow> string \<Rightarrow> unit result" where
  "only_keys kvs allowed name =
     (let extra = sort (remdups (filter (\<lambda>k. k \<notin> set allowed) (map fst kvs)));
          missing = sort (remdups (filter (\<lambda>k. k \<notin> fst ` set kvs) allowed)) in
      if extra \<noteq> [] \<or> missing \<noteq> []
      then Inl (InspectionInputError (name @ '' has invalid fields: '' @
        join '', '' (map (\<lambda>k. ''unexpected '' @ k) extra @ map (\<lambda>k. ''missing '' @ k) missing)))
      else Inr ())"

definition mapping :: "pyval \<Rightarrow> string \<Rightarrow> (string \<times> pyval) list result" where
  "mapping v name = (case v of PDict kvs \<Rightarrow> Inr kvs | _ \<Rightarrow> Inl (InspectionInputError (name @ '' must be an object'')))"

text \<open>\<open>dict.get\<close>\<close>

definition py_get :: "(string \<times> pyval) list \<Rightarrow> string \<Rightarrow> pyval" where
  "py_get kvs k = (case map_of kvs k of Some v \<Rightarrow> v | None \<Rightarrow> PNone)"

text \<open>\<open>value.astimezone(BEIJING)\<close> of an aware value: a value of that zone is returned as it is.\<close>

definition astimezone_beijing :: "zone_db \<Rightarrow> (int \<Rightarrow> int) \<Rightarrow> datetime \<Rightarrow> datetime result" where
  "astimezone_beijing zone of_utc d = (if tz d = Some BEIJING then Inr d
     else (let utc = wall d - (case utcoffset zone d of Some x \<Rightarrow> x | None \<Rightarrow> 0) * 1000000; w = of_utc utc in
       if \<not> wall_ok utc \<or> \<not> wall_ok w then Inl (OverflowError ''date value out of range'')
       else Inr \<lparr>wall = w, tz = Some BEIJING\<rparr>))"

definition beijing_timestamp :: "zone_db \<Rightarrow> (int \<Rightarrow> int) \<Rightarrow> datetime \<Rightarrow> string \<Rightarrow> datetime result" where
  "beijing_timestamp zone of_utc d name = (if tz d = None then Inl (InspectionInputError (name @ '' must include a timezone''))
     else astimezone_beijing zone of_utc d)"

definition timestamp :: "zone_db \<Rightarrow> (int \<Rightarrow> int) \<Rightarrow> pyval \<Rightarrow> string \<Rightarrow> datetime result" where
  "timestamp zone of_utc v name = (case v of
       PStr s \<Rightarrow> (case fromisoformat s of
           Inr d \<Rightarrow> beijing_timestamp zone of_utc d name
         | Inl e \<Rightarrow> if is_ValueError e then Inl (InspectionInputError (name @ '' must be an ISO-8601 timestamp'')) else Inl e)
     | _ \<Rightarrow> Inl (InspectionInputError (name @ '' must be an ISO-8601 timestamp'')))"

definition optional_timestamp :: "zone_db \<Rightarrow> (int \<Rightarrow> int) \<Rightarrow> pyval \<Rightarrow> datetime option result" where
  "optional_timestamp zone of_utc v = (if v = PNone then Inr None
     else bindR (timestamp zone of_utc v ''last_success_at'') (\<lambda>d. Inr (Some d)))"

definition nonnegative_int :: "pyval \<Rightarrow> string \<Rightarrow> int result" where
  "nonnegative_int v name = (case v of
       PInt i \<Rightarrow> if i < 0 then Inl (InspectionInputError (name @ '' must be a non-negative integer'')) else Inr i
     | _ \<Rightarrow> Inl (InspectionInputError (name @ '' must be a non-negative integer'')))"

definition optional_nonnegative_int :: "pyval \<Rightarrow> int option result" where
  "optional_nonnegative_int v = (if v = PNone then Inr None
     else bindR (nonnegative_int v ''baseline_item_count'') (\<lambda>i. Inr (Some i)))"

definition nonnegative_number :: "pyval \<Rightarrow> string \<Rightarrow> pyfloat result" where
  "nonnegative_number v name = (case v of
       PInt i \<Rightarrow> if i < 0 then Inl (InspectionInputError (name @ '' must be a non-negative number'')) else float_of_int i
     | PFloat f \<Rightarrow> if (case f of Fin r \<Rightarrow> r < 0 | NegInf \<Rightarrow> True | _ \<Rightarrow> False)
         then Inl (InspectionInputError (name @ '' must be a non-negative number'')) else Inr f
     | _ \<Rightarrow> Inl (InspectionInputError (name @ '' must be a non-negative number'')))"

definition boolean :: "pyval \<Rightarrow> string \<Rightarrow> bool result" where
  "boolean v name = (case v of PBool b \<Rightarrow> Inr b | _ \<Rightarrow> Inl (InspectionInputError (name @ '' must be a boolean'')))"

definition http_statuses :: "pyval \<Rightarrow> (string \<times> int) list result" where
  "http_statuses v = bindR (mapping v ''http_statuses'') (\<lambda>kvs.
     bindR (only_keys kvs INTERESTING_HTTP_STATUSES ''http_statuses'') (\<lambda>_.
     sequenceR (map (\<lambda>st. bindR (nonnegative_int (py_get kvs st) (''http_statuses.'' @ st)) (\<lambda>n. Inr (st, n)))
       INTERESTING_HTTP_STATUSES)))"

definition SOURCE_INPUT_KEYS :: "string list" where
  "SOURCE_INPUT_KEYS = [''source_id'', ''runs_succeeded'', ''runs_failed'', ''last_success_at'', ''average_duration_seconds'',
     ''p95_duration_seconds'', ''item_count'', ''baseline_item_count'', ''parse_failure_snapshot_count'', ''http_statuses'',
     ''queue_depth'', ''circuit_breaker_open'']"

definition checked_source_id :: "pyval \<Rightarrow> string result" where
  "checked_source_id v = (case v of
       PStr i \<Rightarrow> if inspection_source_id_match i then Inr i else Inl (InspectionInputError ''source_id must match [a-z0-9_-]+'')
     | _ \<Rightarrow> Inl (InspectionInputError ''source_id must match [a-z0-9_-]+''))"

definition source_input :: "zone_db \<Rightarrow> (int \<Rightarrow> int) \<Rightarrow> pyval \<Rightarrow> SourceHealthInput result" where
  "source_input zone of_utc v =
     bindR (mapping v ''source'') (\<lambda>d.
     bindR (only_keys d SOURCE_INPUT_KEYS ''source'') (\<lambda>_.
     bindR (checked_source_id (py_get d ''source_id'')) (\<lambda>i.
     bindR (nonnegative_int (py_get d ''runs_succeeded'') ''runs_succeeded'') (\<lambda>ok.
     bindR (nonnegative_int (py_get d ''runs_failed'') ''runs_failed'') (\<lambda>bad.
     bindR (optional_timestamp zone of_utc (py_get d ''last_success_at'')) (\<lambda>last_at.
     bindR (nonnegative_number (py_get d ''average_duration_seconds'') ''average_duration_seconds'') (\<lambda>avg.
     bindR (nonnegative_number (py_get d ''p95_duration_seconds'') ''p95_duration_seconds'') (\<lambda>p95.
     bindR (nonnegative_int (py_get d ''item_count'') ''item_count'') (\<lambda>n.
     bindR (optional_nonnegative_int (py_get d ''baseline_item_count'')) (\<lambda>baseline.
     bindR (nonnegative_int (py_get d ''parse_failure_snapshot_count'') ''parse_failure_snapshot_count'') (\<lambda>snaps.
     bindR (http_statuses (py_get d ''http_statuses'')) (\<lambda>sts.
     bindR (nonnegative_int (py_get d ''queue_depth'') ''queue_depth'') (\<lambda>q.
     bindR (boolean (py_get d ''circuit_breaker_open'') ''circuit_breaker_open'') (\<lambda>cb.
     Inr \<lparr>sh_source_id = i, sh_runs_succeeded = ok, sh_runs_failed = bad, sh_last_success_at = last_at,
       sh_average_duration_seconds = avg, sh_p95_duration_seconds = p95, sh_item_count = n,
       sh_baseline_item_count = baseline, sh_parse_failure_snapshot_count = snaps, sh_http_statuses = sts,
       sh_queue_depth = q, sh_circuit_breaker_open = cb\<rparr>))))))))))))))"

definition py_list :: "pyval \<Rightarrow> pyval list result" where
  "py_list v = (case v of PList xs \<Rightarrow> Inr xs | _ \<Rightarrow> Inl (InspectionInputError ''sources must be a list''))"

definition parse_health_report_input :: "zone_db \<Rightarrow> (int \<Rightarrow> int) \<Rightarrow> pyval \<Rightarrow> HealthReportInput result" where
  "parse_health_report_input zone of_utc document =
     bindR (mapping document ''health report'') (\<lambda>root'.
     bindR (only_keys root' [''window_end'', ''sources''] ''health report'') (\<lambda>_.
     bindR (timestamp zone of_utc (py_get root' ''window_end'') ''window_end'') (\<lambda>window_end.
     bindR (py_list (py_get root' ''sources'')) (\<lambda>raw_sources.
     bindR (sequenceR (map (source_input zone of_utc) raw_sources)) (\<lambda>sources.
     if length (map sh_source_id sources) \<noteq> card (set (map sh_source_id sources))
     then Inl (InspectionInputError ''sources must not repeat source_id'')
     else Inr \<lparr>hr_window_end = window_end, hr_sources = sources\<rparr>)))))"

definition load_health_report_input :: "'s file_ops \<Rightarrow> zone_db \<Rightarrow> (int \<Rightarrow> int) \<Rightarrow> fpath \<Rightarrow> ('s, HealthReportInput) py" where
  "load_health_report_input ops zone of_utc p =
     bindP (tryP (bindP (read_text ops p) (\<lambda>text. case loads text of
           None \<Rightarrow> raise (InspectionInputError ''health report input is not readable JSON'')
         | Some document \<Rightarrow> ret document))
       (\<lambda>e. case e of OSError m \<Rightarrow> Some (raise (InspectionInputError ''health report input is not readable JSON'')) | _ \<Rightarrow> None))
     (\<lambda>document. liftR (parse_health_report_input zone of_utc document))"

subsection \<open>The report\<close>

text \<open>\<open>a / b\<close> of integers: a quotient too large for a double is an error (and so is \<open>b = 0\<close>, which no call reaches).\<close>

definition true_div :: "int \<Rightarrow> int \<Rightarrow> rat result" where
  "true_div a b = (if b = 0 then Inl (OtherException ''ZeroDivisionError'')
     else if 2 ^ 1024 - 2 ^ 970 \<le> \<bar>(of_int a :: rat) / of_int b\<bar>
       then Inl (OverflowError ''integer division result too large for a float'')
     else Inr (of_int a / of_int b))"

text \<open>\<open>a - b\<close> of two datetimes, in microseconds.\<close>

definition dt_sub :: "zone_db \<Rightarrow> datetime \<Rightarrow> datetime \<Rightarrow> int result" where
  "dt_sub zone a b = (if tz a = tz b then Inr (wall a - wall b)
     else case (utcoffset zone a, utcoffset zone b) of
         (Some x, Some y) \<Rightarrow> Inr ((wall a - x * 1000000) - (wall b - y * 1000000))
       | _ \<Rightarrow> Inl (TypeError ''can't subtract offset-naive and offset-aware datetimes''))"

definition item_count_is_abnormal :: "SourceHealthInput \<Rightarrow> bool result" where
  "item_count_is_abnormal source = (case sh_baseline_item_count source of
       None \<Rightarrow> Inr False
     | Some baseline \<Rightarrow> if baseline = 0 then Inr False
         else bindR (true_div \<bar>sh_item_count source - baseline\<bar> baseline) (\<lambda>d. Inr (MAX_ITEM_DEVIATION \<le> d)))"

text \<open>\<open>statuses[status]\<close>\<close>

definition status_count :: "(string \<times> int) list \<Rightarrow> string \<Rightarrow> int result" where
  "status_count statuses st = (case map_of statuses st of Some n \<Rightarrow> Inr n | None \<Rightarrow> Inl (KeyError st))"

text \<open>\<open>any\<close> stops at the first count that is not zero.\<close>

fun any_status :: "(string \<times> int) list \<Rightarrow> string list \<Rightarrow> bool result" where
  "any_status statuses [] = Inr False"
| "any_status statuses (st # sts) = bindR (status_count statuses st) (\<lambda>n.
     if n \<noteq> 0 then Inr True else any_status statuses sts)"

definition finding :: "bool \<Rightarrow> string \<Rightarrow> string list" where
  "finding b text = (if b then [text] else [])"

definition inspect_source :: "zone_db \<Rightarrow> SourceHealthInput \<Rightarrow> datetime \<Rightarrow> SourceInspection result" where
  "inspect_source zone source window_end =
     (let total_runs = sh_runs_succeeded source + sh_runs_failed source in
      bindR (if total_runs \<noteq> 0 then true_div (sh_runs_failed source) total_runs else Inr 0) (\<lambda>failure_rate.
      bindR (case sh_last_success_at source of
          None \<Rightarrow> Inr [''no recorded successful run'']
        | Some d \<Rightarrow> bindR (dt_sub zone window_end d) (\<lambda>age. Inr (finding (INSPECTION_WINDOW < age) ''last success is older than 24 hours''))) (\<lambda>success.
      bindR (item_count_is_abnormal source) (\<lambda>abnormal.
      bindR (any_status (sh_http_statuses source) INTERESTING_HTTP_STATUSES) (\<lambda>interesting.
      Inr \<lparr>si_source_id = sh_source_id source, si_failure_rate = failure_rate,
        si_last_success_at = map_option (isoformat zone) (sh_last_success_at source),
        si_average_duration_seconds = sh_average_duration_seconds source,
        si_p95_duration_seconds = sh_p95_duration_seconds source, si_item_count = sh_item_count source,
        si_baseline_item_count = sh_baseline_item_count source,
        si_parse_failure_snapshot_count = sh_parse_failure_snapshot_count source,
        si_http_statuses = sh_http_statuses source, si_queue_depth = sh_queue_depth source,
        si_circuit_breaker_open = sh_circuit_breaker_open source,
        si_findings =
          (if total_runs = 0 then [''no runs in the inspection window'']
           else finding (MAX_FAILURE_RATE \<le> failure_rate) ''failure rate at or above 20%'') @
          success @
          finding abnormal ''item count deviates by at least 50%'' @
          finding (sh_parse_failure_snapshot_count source \<noteq> 0) ''new parser-failure snapshots require review'' @
          finding interesting ''observed HTTP 401, 403, or 429'' @
          finding (MAX_QUEUE_DEPTH \<le> sh_queue_depth source) ''queue depth at or above 100'' @
          finding (sh_circuit_breaker_open source) ''circuit breaker is open''\<rparr>)))))"

definition build_daily_report :: "zone_db \<Rightarrow> (int \<Rightarrow> int) \<Rightarrow> HealthReportInput \<Rightarrow> datetime option \<Rightarrow> DailyInspectionReport result" where
  "build_daily_report zone of_utc health now =
     bindR (beijing_timestamp zone of_utc (case now of Some d \<Rightarrow> d | None \<Rightarrow> hr_window_end health) ''now'') (\<lambda>generated_at.
     bindR (sequenceR (map (\<lambda>c. inspect_source zone c (hr_window_end health)) (hr_sources health))) (\<lambda>reports.
     let status = (if list_ex (\<lambda>r. si_findings r \<noteq> []) reports then ''attention''
       else if reports = [] then ''no_data'' else ''healthy'') in
     bindR (dt_add (hr_window_end health) (- INSPECTION_WINDOW)) (\<lambda>window_start.
     Inr \<lparr>dr_schema_version = 1, dr_generated_at = isoformat zone generated_at, dr_window_start = isoformat zone window_start,
       dr_window_end = isoformat zone (hr_window_end health), dr_status = status, dr_sources = reports\<rparr>)))"

subsection \<open>JSON and Markdown\<close>

definition opt_val :: "('a \<Rightarrow> pyval) \<Rightarrow> 'a option \<Rightarrow> pyval" where
  "opt_val f m = (case m of None \<Rightarrow> PNone | Some x \<Rightarrow> f x)"

text \<open>\<open>asdict\<close>: tuples stay tuples.\<close>

definition inspection_dict :: "SourceInspection \<Rightarrow> pyval" where
  "inspection_dict r = PDict [(''source_id'', PStr (si_source_id r)), (''failure_rate'', PFloat (Fin (si_failure_rate r))),
     (''last_success_at'', opt_val PStr (si_last_success_at r)),
     (''average_duration_seconds'', PFloat (si_average_duration_seconds r)), (''p95_duration_seconds'', PFloat (si_p95_duration_seconds r)),
     (''item_count'', PInt (si_item_count r)), (''baseline_item_count'', opt_val PInt (si_baseline_item_count r)),
     (''parse_failure_snapshot_count'', PInt (si_parse_failure_snapshot_count r)),
     (''http_statuses'', PDict (map (\<lambda>(k, n). (k, PInt n)) (si_http_statuses r))), (''queue_depth'', PInt (si_queue_depth r)),
     (''circuit_breaker_open'', PBool (si_circuit_breaker_open r)), (''findings'', PTuple (map PStr (si_findings r)))]"

definition report_dict :: "DailyInspectionReport \<Rightarrow> pyval" where
  "report_dict r = PDict [(''schema_version'', PInt (dr_schema_version r)), (''generated_at'', PStr (dr_generated_at r)),
     (''window_start'', PStr (dr_window_start r)), (''window_end'', PStr (dr_window_end r)), (''status'', PStr (dr_status r)),
     (''sources'', PTuple (map inspection_dict (dr_sources r)))]"

definition report_to_json :: "DailyInspectionReport \<Rightarrow> string result" where
  "report_to_json r = dumps sorted_style (report_dict r)"

text \<open>\<open>format(x, ".nf")\<close> and \<open>format(x, ".n%")\<close>: ties go to the even neighbour.\<close>

definition round_half_even :: "rat \<Rightarrow> int" where
  "round_half_even r = (let f = \<lfloor>r\<rfloor>; d = r - of_int f in
     if d < 1 / 2 then f else if 1 / 2 < d then f + 1 else if even f then f else f + 1)"

definition fixed_text :: "nat \<Rightarrow> rat \<Rightarrow> string" where
  "fixed_text n r = (let q = nat (round_half_even (\<bar>r\<bar> * 10 ^ n)) in
     (if r < 0 then ''-'' else []) @ nat_text (q div 10 ^ n) @ (if n = 0 then [] else CHR ''.'' # pad n (q mod 10 ^ n)))"

definition format_fixed :: "nat \<Rightarrow> pyfloat \<Rightarrow> string" where
  "format_fixed n f = (case f of Fin r \<Rightarrow> fixed_text n r | PosInf \<Rightarrow> ''inf'' | NegInf \<Rightarrow> ''-inf'' | NaN \<Rightarrow> ''nan'')"

definition format_percent :: "nat \<Rightarrow> rat \<Rightarrow> string" where
  "format_percent n r = fixed_text n (100 * r) @ ''%''"

definition status_summary :: "(string \<times> int) list \<Rightarrow> string result" where
  "status_summary statuses = bindR (sequenceR (map (\<lambda>st. bindR (status_count statuses st) (\<lambda>n. Inr (st @ ''='' @ int_text n)))
     INTERESTING_HTTP_STATUSES)) (\<lambda>ts. Inr (join '', '' ts))"

definition inspection_lines :: "SourceInspection \<Rightarrow> string list result" where
  "inspection_lines r = bindR (status_summary (si_http_statuses r)) (\<lambda>summary.
     Inr ([[],
       ''## `'' @ si_source_id r @ ''`'',
       ''- Failure rate: `'' @ format_percent 2 (si_failure_rate r) @ ''`'',
       ''- Last success: `'' @ (case si_last_success_at r of Some t \<Rightarrow> t | None \<Rightarrow> ''none'') @ ''`'',
       ''- Duration: average `'' @ format_fixed 3 (si_average_duration_seconds r) @ ''s`, P95 `'' @
         format_fixed 3 (si_p95_duration_seconds r) @ ''s`'',
       ''- Items: current `'' @ int_text (si_item_count r) @ ''`, baseline `'' @
         (case si_baseline_item_count r of Some n \<Rightarrow> int_text n | None \<Rightarrow> ''none'') @ ''`'',
       ''- Parse-failure snapshots: `'' @ int_text (si_parse_failure_snapshot_count r) @ ''`'',
       ''- HTTP 401/403/429: `'' @ summary @ ''`'',
       ''- Queue depth: `'' @ int_text (si_queue_depth r) @ ''`'',
       ''- Circuit breaker open: `'' @ (if si_circuit_breaker_open r then ''true'' else ''false'') @ ''`''] @
       (if si_findings r \<noteq> [] then [''- Findings: '' @ join ''; '' (si_findings r)] else [])))"

definition render_markdown :: "DailyInspectionReport \<Rightarrow> string result" where
  "render_markdown r =
     (let head = [''# Crawler Daily Inspection'', [], ''- Status: `'' @ dr_status r @ ''`'',
        ''- Window: `'' @ dr_window_start r @ ''` to `'' @ dr_window_end r @ ''`'', ''- Generated: `'' @ dr_generated_at r @ ''`''] in
      if dr_status r = ''no_data''
      then Inr (join [CHR 0x0A] (head @ [[], ''No safe health-report input was supplied. Human setup review is required.'']) @ [CHR 0x0A])
      else bindR (sequenceR (map inspection_lines (dr_sources r))) (\<lambda>ls. Inr (join [CHR 0x0A] (head @ concat ls) @ [CHR 0x0A])))"

text \<open>\<open>main\<close> on its parsed arguments: the part in the \<open>try\<close>, and the whole; \<open>parser.error\<close> raises \<open>SystemExit\<close>.\<close>

definition inspection_report :: "'s file_ops \<Rightarrow> zone_db \<Rightarrow> (int \<Rightarrow> int) \<Rightarrow> fpath \<Rightarrow> string option \<Rightarrow> ('s, DailyInspectionReport) py" where
  "inspection_report ops zone of_utc input_path now_arg =
     bindP (load_health_report_input ops zone of_utc input_path) (\<lambda>health.
     bindP (liftR (case now_arg of None \<Rightarrow> Inr None
       | Some t \<Rightarrow> bindR (timestamp zone of_utc (PStr t) ''now'') (\<lambda>d. Inr (Some d)))) (\<lambda>now.
     liftR (build_daily_report zone of_utc health now)))"

definition inspection_main :: "'s file_ops \<Rightarrow> zone_db \<Rightarrow> (int \<Rightarrow> int) \<Rightarrow> fpath \<Rightarrow> fpath \<Rightarrow> fpath \<Rightarrow> string option \<Rightarrow> ('s, int) py" where
  "inspection_main ops zone of_utc input_path output_path markdown_path now_arg =
     bindP (tryP (inspection_report ops zone of_utc input_path now_arg)
       (\<lambda>e. case e of InspectionInputError m \<Rightarrow> Some (raise (OtherBaseException ''SystemExit'')) | _ \<Rightarrow> None)) (\<lambda>report.
     bindP (liftR (report_to_json report)) (\<lambda>json.
     thenP (write_text ops output_path (json @ [CHR 0x0A]))
     (bindP (liftR (render_markdown report)) (\<lambda>markdown.
     thenP (write_text ops markdown_path markdown) (ret 0)))))"

subsection \<open>Well-formed inputs\<close>

definition wf_statuses :: "(string \<times> int) list \<Rightarrow> bool" where
  "wf_statuses sts \<longleftrightarrow> map fst sts = INTERESTING_HTTP_STATUSES \<and> list_all (\<lambda>(st, n). 0 \<le> n) sts"

definition wf_number :: "pyfloat \<Rightarrow> bool" where
  "wf_number f = (case f of Fin r \<Rightarrow> 0 \<le> r | NegInf \<Rightarrow> False | _ \<Rightarrow> True)"

definition wf_health_source :: "SourceHealthInput \<Rightarrow> bool" where
  "wf_health_source c \<longleftrightarrow> inspection_source_id_match (sh_source_id c) \<and> 0 \<le> sh_runs_succeeded c \<and> 0 \<le> sh_runs_failed c \<and>
     (\<forall>d \<in> set_option (sh_last_success_at c). tz d = Some BEIJING) \<and> wf_number (sh_average_duration_seconds c) \<and>
     wf_number (sh_p95_duration_seconds c) \<and> 0 \<le> sh_item_count c \<and> (\<forall>b \<in> set_option (sh_baseline_item_count c). 0 \<le> b) \<and>
     0 \<le> sh_parse_failure_snapshot_count c \<and> wf_statuses (sh_http_statuses c) \<and> 0 \<le> sh_queue_depth c"

definition wf_health :: "HealthReportInput \<Rightarrow> bool" where
  "wf_health h \<longleftrightarrow> tz (hr_window_end h) = Some BEIJING \<and> distinct (map sh_source_id (hr_sources h)) \<and>
     list_all wf_health_source (hr_sources h)"

lemma beijing_timestamp_tz: "beijing_timestamp zone of_utc d name = Inr x \<Longrightarrow> tz x = Some BEIJING"
  by (auto simp: beijing_timestamp_def astimezone_beijing_def Let_def split: if_splits)

lemma timestamp_tz: "timestamp zone of_utc v name = Inr x \<Longrightarrow> tz x = Some BEIJING"
  by (auto simp: timestamp_def dest: beijing_timestamp_tz split: pyval.splits sum.splits if_splits)

lemma optional_timestamp_tz: "optional_timestamp zone of_utc v = Inr m \<Longrightarrow> \<forall>d \<in> set_option m. tz d = Some BEIJING"
  by (auto simp: optional_timestamp_def dest: timestamp_tz split: if_splits)

lemma nonnegative_int_Inr: "nonnegative_int v name = Inr i \<longleftrightarrow> v = PInt i \<and> 0 \<le> i"
  by (auto simp: nonnegative_int_def split: pyval.splits if_splits)

lemma optional_nonnegative_int_Inr: "optional_nonnegative_int v = Inr m \<Longrightarrow> \<forall>b \<in> set_option m. 0 \<le> b"
  by (auto simp: optional_nonnegative_int_def nonnegative_int_Inr split: if_splits)

lemma nonnegative_number_Inr: "nonnegative_number v name = Inr f \<Longrightarrow> wf_number f"
  by (auto simp: nonnegative_number_def wf_number_def float_of_int_def split: pyval.splits pyfloat.splits if_splits)

lemma http_statuses_Inr:
  assumes "http_statuses v = Inr sts"
  shows "wf_statuses sts"
proof -
  obtain kvs where "list_all2 (\<lambda>st y. bindR (nonnegative_int (py_get kvs st) (''http_statuses.'' @ st)) (\<lambda>n. Inr (st, n)) = Inr y)
      INTERESTING_HTTP_STATUSES sts"
    using assms by (auto simp: http_statuses_def sequenceR_Inr)
  then show ?thesis
    unfolding wf_statuses_def by (induction rule: list_all2_induct) (auto simp: nonnegative_int_Inr)
qed

lemma checked_source_id_Inr: "checked_source_id v = Inr i \<Longrightarrow> inspection_source_id_match i"
  by (auto simp: checked_source_id_def split: pyval.splits if_splits)

lemma source_input_wf: "source_input zone of_utc v = Inr c \<Longrightarrow> wf_health_source c"
  by (auto simp: source_input_def wf_health_source_def nonnegative_int_Inr
      dest: checked_source_id_Inr optional_timestamp_tz optional_nonnegative_int_Inr nonnegative_number_Inr http_statuses_Inr)

lemma parse_health_wf:
  assumes "parse_health_report_input zone of_utc doc = Inr h"
  shows "wf_health h"
proof -
  obtain raw cs where cs: "sequenceR (map (source_input zone of_utc) raw) = Inr cs" "hr_sources h = cs"
    and w: "tz (hr_window_end h) = Some BEIJING" and n: "length (map sh_source_id cs) = card (set (map sh_source_id cs))"
    using assms by (auto simp: parse_health_report_input_def dest: timestamp_tz split: if_splits)
  have "wf_health_source c" if "c \<in> set cs" for c
    using sequenceR_Inr_set [OF cs(1) that] source_input_wf by blast
  moreover have "distinct (map sh_source_id cs)" using n by (metis card_distinct)
  ultimately show ?thesis using cs(2) w by (simp add: wf_health_def list_all_iff)
qed

subsection \<open>Refused inputs\<close>

definition refusal :: "exn \<Rightarrow> bool" where
  "refusal e \<longleftrightarrow> (\<exists>m. e = InspectionInputError m) \<or> (\<exists>m. e = OverflowError m)"

lemma timestamp_Inl: "timestamp zone of_utc v name = Inl e \<Longrightarrow> refusal e"
  by (auto simp: timestamp_def beijing_timestamp_def astimezone_beijing_def refusal_def Let_def
      split: pyval.splits sum.splits if_splits dest: fromisoformat_Inl)

lemma check_Inl:
  "only_keys kvs allowed name = Inl e1 \<Longrightarrow> refusal e1" "mapping v name = Inl e2 \<Longrightarrow> refusal e2"
  "nonnegative_int v name = Inl e3 \<Longrightarrow> refusal e3" "nonnegative_number v name = Inl e4 \<Longrightarrow> refusal e4"
  "boolean v name = Inl e5 \<Longrightarrow> refusal e5" "checked_source_id v = Inl e6 \<Longrightarrow> refusal e6" "py_list v = Inl e7 \<Longrightarrow> refusal e7"
  by (auto simp: only_keys_def mapping_def nonnegative_int_def nonnegative_number_def boolean_def checked_source_id_def py_list_def
      float_of_int_def refusal_def Let_def split: pyval.splits if_splits)

lemma optional_Inl: "optional_timestamp zone of_utc v = Inl e1 \<Longrightarrow> refusal e1" "optional_nonnegative_int v = Inl e2 \<Longrightarrow> refusal e2"
  by (auto simp: optional_timestamp_def optional_nonnegative_int_def bindR_Inl_iff
      dest: timestamp_Inl check_Inl split: if_splits)

lemma http_statuses_Inl: "http_statuses v = Inl e \<Longrightarrow> refusal e"
  by (auto simp: http_statuses_def bindR_Inl_iff dest: check_Inl dest!: sequenceR_Inl_ex)

lemma source_input_Inl: "source_input zone of_utc v = Inl e \<Longrightarrow> refusal e"
  unfolding source_input_def bindR_Inl_iff
  by (elim disjE exE conjE) (auto dest: check_Inl optional_Inl http_statuses_Inl)

lemma parse_health_Inl: "parse_health_report_input zone of_utc doc = Inl e \<Longrightarrow> refusal e"
  unfolding parse_health_report_input_def bindR_Inl_iff
  by (elim disjE exE conjE) (auto simp: refusal_def [of "InspectionInputError _"]
      dest: check_Inl timestamp_Inl source_input_Inl dest!: sequenceR_Inl_ex split: if_splits)

subsection \<open>The findings\<close>

text \<open>The conditions in integers, without division and without errors.\<close>

definition expected_findings :: "SourceHealthInput \<Rightarrow> datetime \<Rightarrow> string list" where
  "expected_findings c window_end =
     (let total_runs = sh_runs_succeeded c + sh_runs_failed c in
      finding (total_runs = 0) ''no runs in the inspection window'' @
      finding (0 < total_runs \<and> total_runs \<le> 5 * sh_runs_failed c) ''failure rate at or above 20%'' @
      (case sh_last_success_at c of None \<Rightarrow> [''no recorded successful run'']
        | Some d \<Rightarrow> finding (86400000000 < wall window_end - wall d) ''last success is older than 24 hours'') @
      finding (\<exists>b \<in> set_option (sh_baseline_item_count c). 0 < b \<and> b \<le> 2 * \<bar>sh_item_count c - b\<bar>)
        ''item count deviates by at least 50%'' @
      finding (0 < sh_parse_failure_snapshot_count c) ''new parser-failure snapshots require review'' @
      finding (\<exists>(st, n) \<in> set (sh_http_statuses c). 0 < n) ''observed HTTP 401, 403, or 429'' @
      finding (100 \<le> sh_queue_depth c) ''queue depth at or above 100'' @
      finding (sh_circuit_breaker_open c) ''circuit breaker is open'')"

lemma failure_rate_Inr:
  assumes "0 \<le> ok" "0 \<le> bad" "(0::int) < ok + bad"
  shows "true_div bad (ok + bad) = Inr (of_int bad / of_int (ok + bad))"
    and "MAX_FAILURE_RATE \<le> of_int bad / of_int (ok + bad) \<longleftrightarrow> ok + bad \<le> 5 * bad"
proof -
  have p: "(0::rat) < of_int (ok + bad)" using assms(3) by simp
  have "(of_int bad :: rat) / of_int (ok + bad) \<le> 1" using assms p by (simp add: divide_le_eq)
  moreover have "(0::rat) \<le> of_int bad / of_int (ok + bad)" using assms p by (simp add: zero_le_divide_iff)
  moreover have "(1::rat) < 2 ^ 1024 - 2 ^ 970" by simp
  ultimately have "\<not> 2 ^ 1024 - 2 ^ 970 \<le> \<bar>(of_int bad :: rat) / of_int (ok + bad)\<bar>" by linarith
  then show "true_div bad (ok + bad) = Inr (of_int bad / of_int (ok + bad))"
    using assms(3) unfolding true_div_def by (simp only: if_False) simp
  have "MAX_FAILURE_RATE \<le> of_int bad / of_int (ok + bad) \<longleftrightarrow> of_int (ok + bad) \<le> (5::rat) * of_int bad"
    using p by (simp add: MAX_FAILURE_RATE_def le_divide_eq field_simps)
  also have "\<dots> \<longleftrightarrow> ok + bad \<le> 5 * bad" by (metis of_int_le_iff of_int_mult of_int_numeral)
  finally show "MAX_FAILURE_RATE \<le> of_int bad / of_int (ok + bad) \<longleftrightarrow> ok + bad \<le> 5 * bad" .
qed

lemma abnormal_Inr:
  assumes "\<forall>b \<in> set_option (sh_baseline_item_count c). 0 \<le> b" and "item_count_is_abnormal c = Inr x"
  shows "x \<longleftrightarrow> (\<exists>b \<in> set_option (sh_baseline_item_count c). 0 < b \<and> b \<le> 2 * \<bar>sh_item_count c - b\<bar>)"
proof (cases "sh_baseline_item_count c")
  case None
  then show ?thesis using assms(2) by (simp add: item_count_is_abnormal_def)
next
  case (Some b)
  show ?thesis
  proof (cases "b = 0")
    case True
    then show ?thesis using assms(2) Some by (simp add: item_count_is_abnormal_def)
  next
    case False
    then have b: "0 < b" using assms(1) Some by simp
    have "x \<longleftrightarrow> MAX_ITEM_DEVIATION \<le> of_int \<bar>sh_item_count c - b\<bar> / of_int b"
      using assms(2) Some False by (auto simp: item_count_is_abnormal_def true_div_def split: if_splits)
    also have "\<dots> \<longleftrightarrow> (of_int b :: rat) \<le> 2 * of_int \<bar>sh_item_count c - b\<bar>"
      using b by (simp add: MAX_ITEM_DEVIATION_def le_divide_eq field_simps)
    also have "\<dots> \<longleftrightarrow> b \<le> 2 * \<bar>sh_item_count c - b\<bar>" by (metis of_int_le_iff of_int_mult of_int_numeral)
    finally show ?thesis using Some b by simp
  qed
qed

lemma any_status_Inr:
  assumes "wf_statuses sts"
  shows "any_status sts INTERESTING_HTTP_STATUSES = Inr (\<exists>(st, n) \<in> set sts. 0 < n)"
proof -
  obtain a b c where "sts = [(''401'', a), (''403'', b), (''429'', c)]" "0 \<le> a" "0 \<le> b" "0 \<le> c"
    using assms by (auto simp: wf_statuses_def INTERESTING_HTTP_STATUSES_def map_eq_Cons_conv)
  then show ?thesis by (auto simp: INTERESTING_HTTP_STATUSES_def status_count_def)
qed

lemma inspect_source_findings:
  assumes wf: "wf_health_source c" and w: "tz window_end = Some BEIJING" and r: "inspect_source zone c window_end = Inr r"
  shows "si_findings r = expected_findings c window_end \<and> si_source_id r = sh_source_id c \<and>
    si_http_statuses r = sh_http_statuses c"
proof -
  let ?n = "sh_runs_succeeded c + sh_runs_failed c"
  have n: "0 \<le> sh_runs_succeeded c" "0 \<le> sh_runs_failed c" and sts: "wf_statuses (sh_http_statuses c)"
    and bl: "\<forall>b \<in> set_option (sh_baseline_item_count c). 0 \<le> b"
    and ls: "\<forall>d \<in> set_option (sh_last_success_at c). tz d = Some BEIJING"
    and sn: "0 \<le> sh_parse_failure_snapshot_count c"
    using wf by (simp_all add: wf_health_source_def)
  obtain rate abn where rate: "(if ?n \<noteq> 0 then true_div (sh_runs_failed c) ?n else Inr 0) = Inr rate"
    and abn: "item_count_is_abnormal c = Inr abn"
    and f: "si_findings r = (if ?n = 0 then [''no runs in the inspection window''] else finding (MAX_FAILURE_RATE \<le> rate) ''failure rate at or above 20%'') @
      (case sh_last_success_at c of None \<Rightarrow> [''no recorded successful run'']
        | Some d \<Rightarrow> finding (INSPECTION_WINDOW < wall window_end - wall d) ''last success is older than 24 hours'') @
      finding abn ''item count deviates by at least 50%'' @
      finding (sh_parse_failure_snapshot_count c \<noteq> 0) ''new parser-failure snapshots require review'' @
      finding (\<exists>(st, n) \<in> set (sh_http_statuses c). 0 < n) ''observed HTTP 401, 403, or 429'' @
      finding (MAX_QUEUE_DEPTH \<le> sh_queue_depth c) ''queue depth at or above 100'' @
      finding (sh_circuit_breaker_open c) ''circuit breaker is open''"
    and i: "si_source_id r = sh_source_id c" "si_http_statuses r = sh_http_statuses c"
    using r ls w any_status_Inr [OF sts]
    by (cases "sh_last_success_at c") (auto simp: inspect_source_def Let_def dt_sub_def)
  have "(if ?n = 0 then [''no runs in the inspection window''] else finding (MAX_FAILURE_RATE \<le> rate) ''failure rate at or above 20%'') =
      finding (?n = 0) ''no runs in the inspection window'' @
      finding (0 < ?n \<and> ?n \<le> 5 * sh_runs_failed c) ''failure rate at or above 20%''"
    using rate failure_rate_Inr [OF n] n by (cases "?n = 0") (auto simp: finding_def)
  moreover have "INSPECTION_WINDOW = 86400000000" "MAX_QUEUE_DEPTH = 100" by (simp_all add: INSPECTION_WINDOW_def MAX_QUEUE_DEPTH_def)
  moreover have "(sh_parse_failure_snapshot_count c \<noteq> 0) = (0 < sh_parse_failure_snapshot_count c)" using sn by auto
  ultimately show ?thesis using f i abnormal_Inr [OF bl abn] by (simp only: expected_findings_def Let_def append_assoc)
qed


text \<open>C36: The verdict is that of the thresholds. For a parsed input, every source of the report has exactly the findings
  of the conditions written in integers (a failure rate of at least one fifth, an item count at least half a
  baseline away from it, and so on), and the report asks for attention exactly when some source has a
  finding, and says that there is no data exactly when there is no source.\<close>

theorem report_follows_thresholds:
  assumes "parse_health_report_input zone of_utc document = Inr h" and "build_daily_report zone of_utc h now = Inr r"
  shows "list_all2 (\<lambda>c i. si_source_id i = sh_source_id c \<and> si_findings i = expected_findings c (hr_window_end h))
      (hr_sources h) (dr_sources r) \<and>
    dr_status r = (if hr_sources h = [] then ''no_data''
      else if \<exists>c \<in> set (hr_sources h). expected_findings c (hr_window_end h) \<noteq> [] then ''attention'' else ''healthy'')"
proof -
  have wf: "wf_health h" using assms(1) by (rule parse_health_wf)
  obtain reports where rs: "sequenceR (map (\<lambda>c. inspect_source zone c (hr_window_end h)) (hr_sources h)) = Inr reports"
    and r: "dr_sources r = reports" "dr_status r = (if list_ex (\<lambda>r. si_findings r \<noteq> []) reports then ''attention''
       else if reports = [] then ''no_data'' else ''healthy'')"
    using assms(2) by (auto simp: build_daily_report_def Let_def)
  have "list_all2 (\<lambda>c i. inspect_source zone c (hr_window_end h) = Inr i) (hr_sources h) reports"
    using rs by (simp add: sequenceR_Inr)
  then have l: "list_all2 (\<lambda>c i. si_source_id i = sh_source_id c \<and> si_findings i = expected_findings c (hr_window_end h)) (hr_sources h) reports"
    by (rule list.rel_mono_strong) (use wf inspect_source_findings in \<open>auto simp: wf_health_def list_all_iff\<close>)
  have "list_ex (\<lambda>r. si_findings r \<noteq> []) reports \<longleftrightarrow> (\<exists>c \<in> set (hr_sources h). expected_findings c (hr_window_end h) \<noteq> [])"
    using l by (induction rule: list_all2_induct) auto
  moreover have "reports = [] \<longleftrightarrow> hr_sources h = []" using l by (auto dest: list_all2_lengthD)
  ultimately show ?thesis using l r by auto
qed

lemma inspection_report_reads:
  assumes "file_store ops files"
  shows "keeps (\<lambda>s t. files t = files s) (inspection_report ops zone of_utc input_path now_arg)"
proof -
  have tr: "transp (\<lambda>s t. files t = files s)" and re: "reflp (\<lambda>s t. files t = files s)"
    by (simp_all add: transp_def reflp_def)
  have "keeps (\<lambda>s t. files t = files s) (f_read ops p)" for p
    using file_store.read_files [OF assms] by (rule keepsI)
  then show ?thesis
    unfolding inspection_report_def load_health_report_input_def read_text_def
    by (intro keeps_bindP [OF tr] keeps_tryP [OF tr] keeps_pure(3) [OF re])
      (auto intro!: keeps_pure [OF re] split: option.splits exn.splits)
qed

lemma write_text_files:
  assumes "file_store ops files" and "write_text ops p c s = (y, t)"
  shows "p' \<noteq> p \<Longrightarrow> files t p' = files s p'" and "y = Inr u \<Longrightarrow> \<exists>m. files t p = Some (utf8 c, m)"
  using file_store.write_other [OF assms(1) assms(2) [unfolded write_text_def]]
    file_store.write_Inr [OF assms(1), of p "utf8 c" s u t] assms(2) by (auto simp: write_text_def)

text \<open>A run of \<open>main\<close> writes both reports or neither is touched. An input that cannot be reported ends the run without
  changing any file (an \<open>InspectionInputError\<close> becomes argparse's \<open>SystemExit\<close>); otherwise a run that returns has
  returned 0, and the two files hold the JSON and the Markdown of the report. No other file changes.\<close>

theorem inspection_writes_reports:
  assumes fs: "file_store ops files" and ne: "output_path \<noteq> markdown_path"
    and run: "inspection_main ops zone of_utc input_path output_path markdown_path now_arg s = (x, t)"
  shows "case inspection_report ops zone of_utc input_path now_arg s of
      (Inl e, u) \<Rightarrow> files t = files s \<and> x = Inl (case e of InspectionInputError m \<Rightarrow> OtherBaseException ''SystemExit'' | _ \<Rightarrow> e)
    | (Inr report, u) \<Rightarrow> (\<forall>p. p \<noteq> output_path \<and> p \<noteq> markdown_path \<longrightarrow> files t p = files s p) \<and>
        (\<forall>n. x = Inr n \<longrightarrow> n = 0 \<and> (\<exists>json md m m'. report_to_json report = Inr json \<and> render_markdown report = Inr md \<and>
          files t output_path = Some (utf8 (json @ [CHR 0x0A]), m) \<and> files t markdown_path = Some (utf8 md, m')))"
proof -
  obtain r u where r: "inspection_report ops zone of_utc input_path now_arg s = (r, u)"
    by (cases "inspection_report ops zone of_utc input_path now_arg s")
  have u: "files u = files s" using keepsD [OF inspection_report_reads [OF fs] r] .
  show ?thesis
  proof (cases r)
    case (Inl e)
    then show ?thesis using run r u
      by (cases e) (auto simp: inspection_main_def tryP_def bindP_def)
  next
    case (Inr report)
    have m: "inspection_main ops zone of_utc input_path output_path markdown_path now_arg s =
        bindP (liftR (report_to_json report)) (\<lambda>json.
        thenP (write_text ops output_path (json @ [CHR 0x0A]))
        (bindP (liftR (render_markdown report)) (\<lambda>markdown.
        thenP (write_text ops markdown_path markdown) (ret 0)))) u"
      using r Inr by (simp add: inspection_main_def tryP_def bindP_def)
    note w = write_text_files(1) [OF fs]
    have other: "files t p = files s p" if p: "p \<noteq> output_path" "p \<noteq> markdown_path" for p
      using run m u w p by (cases "report_to_json report"; cases "render_markdown report")
        (fastforce simp: bindP_def thenP_def split: prod.splits sum.splits)+
    have "n = 0 \<and> (\<exists>json md m m'. report_to_json report = Inr json \<and> render_markdown report = Inr md \<and>
          files t output_path = Some (utf8 (json @ [CHR 0x0A]), m) \<and> files t markdown_path = Some (utf8 md, m'))"
      if n: "x = Inr n" for n
    proof -
      obtain json y v md z where j: "report_to_json report = Inr json" "write_text ops output_path (json @ [CHR 0x0A]) u = (Inr y, v)"
        "render_markdown report = Inr md" "write_text ops markdown_path md v = (Inr z, t)" "n = 0"
        using run m n by (auto simp: bindP_eq_Inr thenP_eq_Inr)
      have "files t output_path = files v output_path" using w [OF j(4), of output_path] ne by simp
      then show ?thesis using j(1,3,5) write_text_files(2) [OF fs j(2)] write_text_files(2) [OF fs j(4)] by auto
    qed
    then show ?thesis using r Inr other by simp
  qed
qed

subsection \<open>Examples\<close>

definition demo_of_utc :: "int \<Rightarrow> int" where
  "demo_of_utc u = u + 28800 * 1000000"

definition beijing_zone :: zone_db where
  "beijing_zone = (\<lambda>_ _. 28800)"

definition demo_health :: pyval where
  "demo_health = PDict [(''window_end'', PStr ''2024-01-01T00:00:00+00:00''), (''sources'', PList [PDict [
     (''source_id'', PStr ''a''), (''runs_succeeded'', PInt 0), (''runs_failed'', PInt 0), (''last_success_at'', PNone),
     (''average_duration_seconds'', PFloat NaN), (''p95_duration_seconds'', PInt 1), (''item_count'', PInt 3),
     (''baseline_item_count'', PNone), (''parse_failure_snapshot_count'', PInt 0),
     (''http_statuses'', PDict [(''401'', PInt 0), (''403'', PInt 1), (''429'', PInt 0)]), (''queue_depth'', PInt 100),
     (''circuit_breaker_open'', PBool False)]])]"

lemma demo_health_parsed: "\<exists>h r. parse_health_report_input beijing_zone demo_of_utc demo_health = Inr h \<and>
    build_daily_report beijing_zone demo_of_utc h None = Inr r \<and> hr_sources h \<noteq> [] \<and>
    map si_findings (dr_sources r) = [[''no runs in the inspection window'', ''no recorded successful run'',
      ''observed HTTP 401, 403, or 429'', ''queue depth at or above 100'']]"
proof -
  have p: "parse_health_report_input beijing_zone demo_of_utc demo_health = Inr \<lparr>
      hr_window_end = \<lparr>wall = 63839692800000000, tz = Some BEIJING\<rparr>,
      hr_sources = [\<lparr>sh_source_id = ''a'', sh_runs_succeeded = 0, sh_runs_failed = 0, sh_last_success_at = None,
        sh_average_duration_seconds = NaN, sh_p95_duration_seconds = Fin 1, sh_item_count = 3, sh_baseline_item_count = None,
        sh_parse_failure_snapshot_count = 0, sh_http_statuses = [(''401'', 0), (''403'', 1), (''429'', 0)],
        sh_queue_depth = 100, sh_circuit_breaker_open = False\<rparr>]\<rparr>"
    by code_simp
  show ?thesis unfolding p
    by (simp add: build_daily_report_def inspect_source_def item_count_is_abnormal_def beijing_timestamp_def
        astimezone_beijing_def INTERESTING_HTTP_STATUSES_def status_count_def finding_def MAX_QUEUE_DEPTH_def
        dt_add_def wall_ok_def INSPECTION_WINDOW_def Let_def)
qed

theorem report_follows_thresholds_witness:
  "\<exists>h r. parse_health_report_input beijing_zone demo_of_utc demo_health = Inr h \<and>
    build_daily_report beijing_zone demo_of_utc h None = Inr r \<and> dr_status r = ''attention''"
proof -
  obtain h r where hr: "parse_health_report_input beijing_zone demo_of_utc demo_health = Inr h"
    "build_daily_report beijing_zone demo_of_utc h None = Inr r" "hr_sources h \<noteq> []"
    "map si_findings (dr_sources r) = [[''no runs in the inspection window'', ''no recorded successful run'',
      ''observed HTTP 401, 403, or 429'', ''queue depth at or above 100'']]"
    using demo_health_parsed by (elim exE conjE) rule
  note th = report_follows_thresholds [OF hr(1,2)]
  have "\<exists>c \<in> set (hr_sources h). expected_findings c (hr_window_end h) \<noteq> []"
    using th hr(4) by (cases "hr_sources h"; cases "dr_sources r") auto
  then show ?thesis using th hr by auto
qed

definition no_data_doc :: pyval where
  "no_data_doc = PDict [(''window_end'', PStr ''2024-01-01T00:00:00+08:00''), (''sources'', PList [])]"

definition health_text :: string where
  "health_text = ''{\"window_end\": \"2024-01-01T00:00:00+08:00\", \"sources\": []}''"

definition inspection_disk :: disk where
  "inspection_disk = \<lparr>disk_files = [([''in''], health_text, 1)], disk_dirs = [], disk_now = 2, disk_locked = False\<rparr>"

definition no_data_report :: DailyInspectionReport where
  "no_data_report = (let end_text = isoformat beijing_zone \<lparr>wall = 63839664000000000, tz = Some BEIJING\<rparr> in
     \<lparr>dr_schema_version = 1, dr_generated_at = end_text,
       dr_window_start = isoformat beijing_zone \<lparr>wall = 63839577600000000, tz = Some BEIJING\<rparr>,
       dr_window_end = end_text, dr_status = ''no_data'', dr_sources = []\<rparr>)"

lemma no_data_run: "inspection_report disk_ops beijing_zone demo_of_utc [''in''] None inspection_disk = (Inr no_data_report, inspection_disk)"
proof -
  have "utf8_decode health_text = Some health_text" "universal_newlines health_text = health_text" by code_simp+
  moreover have "loads health_text = Some no_data_doc"
  proof -
    have "dumps default_style no_data_doc = Inr health_text" by code_simp
    moreover have "json_wf no_data_doc" by (simp add: no_data_doc_def)
    ultimately show ?thesis
      using loads_dumps [OF style_ok_styles(1), of no_data_doc] by (simp add: default_style_def no_data_doc_def)
  qed
  moreover have "parse_health_report_input beijing_zone demo_of_utc no_data_doc = Inr
      \<lparr>hr_window_end = \<lparr>wall = 63839664000000000, tz = Some BEIJING\<rparr>, hr_sources = []\<rparr>" by code_simp
  moreover have "build_daily_report beijing_zone demo_of_utc
      \<lparr>hr_window_end = \<lparr>wall = 63839664000000000, tz = Some BEIJING\<rparr>, hr_sources = []\<rparr> None = Inr no_data_report"
    by (simp add: build_daily_report_def beijing_timestamp_def astimezone_beijing_def dt_add_def wall_ok_def
        INSPECTION_WINDOW_def no_data_report_def Let_def)
  moreover have "f_read disk_ops [''in''] inspection_disk = (Inr health_text, inspection_disk)"
    by (simp add: disk_ops_def disk_need_def disk_at_def inspection_disk_def)
  ultimately show ?thesis
    by (auto simp: inspection_report_def load_health_report_input_def read_text_def bindP_def tryP_def)
qed

theorem inspection_writes_reports_witness:
  "\<exists>t. inspection_main disk_ops beijing_zone demo_of_utc [''in''] [''out''] [''md''] None inspection_disk = (Inr 0, t) \<and>
    disk_at t [''in''] = Some (health_text, 1) \<and> disk_at t [''out''] \<noteq> None"
proof -
  obtain json where "report_to_json no_data_report = Inr json"
    using dumps_styles_total(3) [of "report_dict no_data_report"] by (auto simp: report_to_json_def report_dict_def no_data_report_def Let_def)
  moreover obtain md where "render_markdown no_data_report = Inr md" by (simp add: render_markdown_def no_data_report_def Let_def)
  ultimately obtain t where t: "inspection_main disk_ops beijing_zone demo_of_utc [''in''] [''out''] [''md''] None inspection_disk = (Inr 0, t)"
    using no_data_run by (auto simp: inspection_main_def tryP_def bindP_def thenP_def write_text_def disk_ops_def disk_do_def inspection_disk_def)
  have "disk_at inspection_disk [''in''] = Some (health_text, 1)" by (simp add: disk_at_def inspection_disk_def)
  then show ?thesis
    using inspection_writes_reports [OF disk.file_store_axioms _ t] no_data_run t by auto
qed

text \<open>A duration that is not a number is accepted, and the report that is written is not JSON.\<close>

theorem nan_duration_accepted:
  "nonnegative_number (PFloat NaN) name = Inr NaN \<and> dumps sorted_style (PFloat NaN) = Inr ''NaN''"
  by (simp add: nonnegative_number_def sorted_style_def compact_style_def default_style_def)

end
