(* ===== verification/Schema.thy ===== *)
theory Schema
  imports PyPrelude "HOL-Library.AList"
begin

section \<open>Relational schema: models and migrations (\<open>models.py\<close>, \<open>migrations/versions/\<close>)\<close>

text \<open>
  The declarations of \<open>models.py\<close> as data (\<open>models\<close>), the tables they stand for (\<open>model_table\<close>), and the
  three Alembic revisions as the sequences of their \<open>op\<close> calls (\<open>versions\<close>). Alembic and PostgreSQL are
  parameters: \<open>ap\<close> executes one operation, \<open>vw\<close> reads the catalogue. The locale \<open>schema_database\<close> states
  what PostgreSQL documents of the operations used here: an operation whose requirements hold
  (\<open>ddl_ready\<close>) succeeds, whatever rows the tables hold, and changes the catalogue as \<open>ddl_effect\<close> says. A
  \<open>NOT NULL\<close> column without a server default is therefore never promised to be addable, and the names of
  tables, indexes, primary keys and unique constraints share one name space.

  The lemmas: upgrading a database that does not use the names of the schema gives exactly the tables that
  the models declare, and the downgrades give the old catalogue back; every \<open>NOT NULL\<close> column that the
  repository does not set has a default.
\<close>

subsection \<open>Tables\<close>

datatype sql_type = Uuid | SqlString nat | Boolean | Integer | DateTime bool | JSONB

record column =
  col_name :: string
  col_type :: sql_type
  col_nullable :: bool
  col_server_default :: "string option"

text \<open>Constraints with their columns and their name; a foreign key with its table and columns.\<close>

datatype table_constraint =
    PrimaryKeyConstraint "string list" "string option"
  | UniqueConstraint "string list" "string option"
  | ForeignKeyConstraint "string list" string "string list" "string option"

record index =
  index_name :: string
  index_columns :: "string list"
  index_unique :: bool

record sql_table =
  tbl_columns :: "column list"
  tbl_constraints :: "table_constraint list"
  tbl_indexes :: "index list"

fun constraint_columns :: "table_constraint \<Rightarrow> string list" where
  "constraint_columns (PrimaryKeyConstraint cs _) = cs"
| "constraint_columns (UniqueConstraint cs _) = cs"
| "constraint_columns (ForeignKeyConstraint cs _ _ _) = cs"

fun constraint_relations :: "table_constraint \<Rightarrow> string list" where
  "constraint_relations (PrimaryKeyConstraint _ (Some n)) = [n]"
| "constraint_relations (UniqueConstraint _ (Some n)) = [n]"
| "constraint_relations _ = []"

text \<open>The columns of other tables that a constraint refers to.\<close>

fun constraint_references :: "table_constraint \<Rightarrow> (string \<times> string) list" where
  "constraint_references (ForeignKeyConstraint _ t ks _) = map (Pair t) ks"
| "constraint_references _ = []"

fun constraint_name :: "table_constraint \<Rightarrow> string option" where
  "constraint_name (PrimaryKeyConstraint _ n) = n"
| "constraint_name (UniqueConstraint _ n) = n"
| "constraint_name (ForeignKeyConstraint _ _ _ n) = n"

text \<open>The names that a table takes in the name space of relations.\<close>

definition relation_names :: "string \<Rightarrow> sql_table \<Rightarrow> string list" where
  "relation_names t tb = t # map index_name (tbl_indexes tb) @ concat (map constraint_relations (tbl_constraints tb))"

definition references :: "sql_table \<Rightarrow> (string \<times> string) list" where
  "references tb = concat (map constraint_references (tbl_constraints tb))"

definition column_type :: "column list \<Rightarrow> string \<Rightarrow> sql_type option" where
  "column_type cols c = map_option col_type (find (\<lambda>k. col_name k = c) cols)"

subsection \<open>The models\<close>

datatype python_default = Uuid4 | PyBool bool | PyInt int | EmptyDict | BeijingNow

record mapped_column =
  attr :: string
  sqltype :: sql_type
  optional_annotation :: bool
  nullable :: "bool option"
  primary_key :: bool
  foreign_key :: "(string \<times> string \<times> string) option"
  unique :: bool
  default :: "python_default option"
  onupdate :: "python_default option"

text \<open>\<open>attr: Mapped[...] = mapped_column(type)\<close> with no keyword argument.\<close>

definition mapped :: "string \<Rightarrow> sql_type \<Rightarrow> mapped_column" where
  "mapped a ty = \<lparr>attr = a, sqltype = ty, optional_annotation = False, nullable = None, primary_key = False,
     foreign_key = None, unique = False, default = None, onupdate = None\<rparr>"

datatype table_arg = UniqueArg "string list" string | IndexArg string "string list"

record model =
  tablename :: string
  table_args :: "table_arg list"
  mapped_columns :: "mapped_column list"

definition id_column :: mapped_column where
  "id_column = mapped ''id'' Uuid \<lparr>primary_key := True, default := Some Uuid4\<rparr>"

definition created_column :: "string \<Rightarrow> mapped_column" where
  "created_column a = mapped a (DateTime False) \<lparr>nullable := Some False, default := Some BeijingNow\<rparr>"

definition updated_at_column :: mapped_column where
  "updated_at_column = mapped ''updated_at'' (DateTime False)
     \<lparr>nullable := Some False, default := Some BeijingNow, onupdate := Some BeijingNow\<rparr>"

definition Source_model :: model where
  "Source_model = \<lparr>tablename = ''sources'',
     table_args = [UniqueArg [''source_key''] ''uq_sources_source_key'', IndexArg ''ix_sources_enabled'' [''enabled'']],
     mapped_columns =
       [id_column,
        mapped ''source_key'' (SqlString 128) \<lparr>nullable := Some False\<rparr>,
        mapped ''name'' (SqlString 256) \<lparr>nullable := Some False\<rparr>,
        mapped ''enabled'' Boolean \<lparr>nullable := Some False, default := Some (PyBool True)\<rparr>,
        mapped ''settings'' JSONB \<lparr>nullable := Some False, default := Some EmptyDict\<rparr>,
        created_column ''created_at'',
        updated_at_column]\<rparr>"

definition CrawlRun_model :: model where
  "CrawlRun_model = \<lparr>tablename = ''crawl_runs'',
     table_args = [IndexArg ''ix_crawl_runs_source_started_at'' [''source_id'', ''started_at'']],
     mapped_columns =
       [id_column,
        mapped ''source_id'' Uuid \<lparr>nullable := Some False,
          foreign_key := Some (''sources'', ''id'', ''fk_crawl_runs_source_id_sources'')\<rparr>,
        mapped ''status'' (SqlString 32) \<lparr>nullable := Some False\<rparr>,
        created_column ''started_at'',
        mapped ''finished_at'' (DateTime False) \<lparr>optional_annotation := True\<rparr>,
        mapped ''record_count'' Integer \<lparr>nullable := Some False, default := Some (PyInt 0)\<rparr>,
        mapped ''error_metadata'' JSONB \<lparr>optional_annotation := True\<rparr>,
        mapped ''snapshot_path'' (SqlString 1024) \<lparr>optional_annotation := True\<rparr>]\<rparr>"

definition SourceFetchState_model :: model where
  "SourceFetchState_model = \<lparr>tablename = ''source_fetch_states'', table_args = [],
     mapped_columns =
       [id_column,
        mapped ''source_id'' Uuid \<lparr>nullable := Some False, unique := True,
          foreign_key := Some (''sources'', ''id'', ''fk_source_fetch_states_source_id_sources'')\<rparr>,
        mapped ''etag'' (SqlString 512) \<lparr>optional_annotation := True\<rparr>,
        mapped ''last_modified'' (SqlString 128) \<lparr>optional_annotation := True\<rparr>,
        mapped ''raw_response_hash'' (SqlString 64) \<lparr>optional_annotation := True\<rparr>,
        updated_at_column]\<rparr>"

definition Record_model :: model where
  "Record_model = \<lparr>tablename = ''records'',
     table_args =
       [UniqueArg [''source_id'', ''external_id''] ''uq_records_source_external_id'',
        IndexArg ''ix_records_source_is_active'' [''source_id'', ''is_active''],
        IndexArg ''ix_records_source_updated_at'' [''source_id'', ''updated_at'']],
     mapped_columns =
       [id_column,
        mapped ''source_id'' Uuid \<lparr>nullable := Some False,
          foreign_key := Some (''sources'', ''id'', ''fk_records_source_id_sources'')\<rparr>,
        mapped ''external_id'' (SqlString 256) \<lparr>nullable := Some False\<rparr>,
        mapped ''payload'' JSONB \<lparr>nullable := Some False, default := Some EmptyDict\<rparr>,
        mapped ''content_hash'' (SqlString 128) \<lparr>nullable := Some False\<rparr>,
        mapped ''is_active'' Boolean \<lparr>nullable := Some False, default := Some (PyBool True)\<rparr>,
        mapped ''last_seen_at'' (DateTime False) \<lparr>optional_annotation := True\<rparr>,
        mapped ''missing_count'' Integer \<lparr>nullable := Some False, default := Some (PyInt 0)\<rparr>,
        created_column ''created_at'',
        updated_at_column]\<rparr>"

definition ChangeEvent_model :: model where
  "ChangeEvent_model = \<lparr>tablename = ''change_events'',
     table_args = [IndexArg ''ix_change_events_record_occurred_at'' [''record_id'', ''occurred_at'']],
     mapped_columns =
       [id_column,
        mapped ''record_id'' Uuid \<lparr>nullable := Some False,
          foreign_key := Some (''records'', ''id'', ''fk_change_events_record_id_records'')\<rparr>,
        mapped ''event_type'' (SqlString 64) \<lparr>nullable := Some False\<rparr>,
        mapped ''payload'' JSONB \<lparr>nullable := Some False, default := Some EmptyDict\<rparr>,
        created_column ''occurred_at'']\<rparr>"

definition models :: "model list" where
  "models = [Source_model, CrawlRun_model, SourceFetchState_model, Record_model, ChangeEvent_model]"

lemmas model_defs = models_def Source_model_def CrawlRun_model_def SourceFetchState_model_def Record_model_def
  ChangeEvent_model_def id_column_def created_column_def updated_at_column_def mapped_def

text \<open>What SQLAlchemy makes of a declaration: \<open>nullable\<close> defaults to the optionality of the annotation
  (never for a primary key), the default of a column is Python's and leaves no trace in the table.\<close>

definition column_of :: "mapped_column \<Rightarrow> column" where
  "column_of c = \<lparr>col_name = attr c, col_type = sqltype c,
     col_nullable = (case nullable c of Some b \<Rightarrow> b | None \<Rightarrow> \<not> primary_key c \<and> optional_annotation c),
     col_server_default = None\<rparr>"

definition column_constraints :: "mapped_column \<Rightarrow> table_constraint list" where
  "column_constraints c =
     (case foreign_key c of Some (t, k, n) \<Rightarrow> [ForeignKeyConstraint [attr c] t [k] (Some n)] | None \<Rightarrow> []) @
     (if unique c then [UniqueConstraint [attr c] None] else [])"

fun arg_constraints :: "table_arg \<Rightarrow> table_constraint list" where
  "arg_constraints (UniqueArg cs n) = [UniqueConstraint cs (Some n)]"
| "arg_constraints (IndexArg n cs) = []"

fun arg_indexes :: "table_arg \<Rightarrow> index list" where
  "arg_indexes (UniqueArg cs n) = []"
| "arg_indexes (IndexArg n cs) = [\<lparr>index_name = n, index_columns = cs, index_unique = False\<rparr>]"

definition model_table :: "model \<Rightarrow> sql_table" where
  "model_table m = \<lparr>tbl_columns = map column_of (mapped_columns m),
     tbl_constraints =
       PrimaryKeyConstraint (map attr (filter primary_key (mapped_columns m))) None #
       concat (map column_constraints (mapped_columns m)) @ concat (map arg_constraints (table_args m)),
     tbl_indexes = concat (map arg_indexes (table_args m))\<rparr>"

text \<open>The columns an \<open>INSERT\<close> leaves without a value although they take no \<open>NULL\<close>: \<open>given\<close> are the
  keyword arguments of the constructor.\<close>

definition missing_columns :: "model \<Rightarrow> string list \<Rightarrow> string list" where
  "missing_columns m given = map attr (filter (\<lambda>c. \<not> col_nullable (column_of c) \<and> default c = None \<and> attr c \<notin> set given)
     (mapped_columns m))"

subsection \<open>Operations of a migration\<close>

text \<open>The \<open>op\<close> functions the revisions call, with their arguments.\<close>

datatype ddl =
    CreateTable string "column list" "table_constraint list"
  | CreateIndex string string "string list" bool
  | DropIndex string string
  | DropTable string
  | AddColumn string column
  | DropColumn string string
  | AlterServerDefault string string "string option"

type_synonym catalog = "string \<Rightarrow> sql_table option"

fun ddl_table :: "ddl \<Rightarrow> string" where
  "ddl_table (CreateTable t _ _) = t"
| "ddl_table (CreateIndex _ t _ _) = t"
| "ddl_table (DropIndex _ t) = t"
| "ddl_table (DropTable t) = t"
| "ddl_table (AddColumn t _) = t"
| "ddl_table (DropColumn t _) = t"
| "ddl_table (AlterServerDefault t _ _) = t"

text \<open>The names an operation adds to the name space of relations.\<close>

fun ddl_new_names :: "ddl \<Rightarrow> string list" where
  "ddl_new_names (CreateTable t _ cons) = t # concat (map constraint_relations cons)"
| "ddl_new_names (CreateIndex i _ _ _) = [i]"
| "ddl_new_names _ = []"

text \<open>What an operation makes of the definition of its table.\<close>

fun ddl_change :: "ddl \<Rightarrow> sql_table option \<Rightarrow> sql_table option" where
  "ddl_change (CreateTable _ cols cons) _ = Some \<lparr>tbl_columns = cols, tbl_constraints = cons, tbl_indexes = []\<rparr>"
| "ddl_change (CreateIndex i _ cs u) tb = map_option (tbl_indexes_update
     (\<lambda>xs. xs @ [\<lparr>index_name = i, index_columns = cs, index_unique = u\<rparr>])) tb"
| "ddl_change (DropIndex i _) tb = map_option (tbl_indexes_update (filter (\<lambda>x. index_name x \<noteq> i))) tb"
| "ddl_change (DropTable _) tb = None"
| "ddl_change (AddColumn _ c) tb = map_option (tbl_columns_update (\<lambda>cs. cs @ [c])) tb"
| "ddl_change (DropColumn _ c) tb = map_option (tbl_columns_update (filter (\<lambda>k. col_name k \<noteq> c))) tb"
| "ddl_change (AlterServerDefault _ c d) tb = map_option (tbl_columns_update
     (map (\<lambda>k. if col_name k = c then k\<lparr>col_server_default := d\<rparr> else k))) tb"

definition ddl_effect :: "ddl \<Rightarrow> catalog \<Rightarrow> catalog" where
  "ddl_effect d m = m(ddl_table d := ddl_change d (m (ddl_table d)))"

text \<open>A foreign key needs its columns, and a target whose primary key they match in type.\<close>

fun constraint_ok :: "catalog \<Rightarrow> column list \<Rightarrow> table_constraint \<Rightarrow> bool" where
  "constraint_ok m cols (ForeignKeyConstraint cs t ks _) \<longleftrightarrow> set cs \<subseteq> set (map col_name cols) \<and>
     (case m t of None \<Rightarrow> False | Some tb \<Rightarrow>
        list_ex (\<lambda>c. case c of PrimaryKeyConstraint ps _ \<Rightarrow> ps = ks | _ \<Rightarrow> False) (tbl_constraints tb) \<and>
        map (column_type (tbl_columns tb)) ks = map (column_type cols) cs)"
| "constraint_ok m cols c \<longleftrightarrow> set (constraint_columns c) \<subseteq> set (map col_name cols)"

text \<open>The requirements of an operation. \<open>m\<close> is the catalogue, \<open>everywhere P\<close> says that every table of it
  satisfies \<open>P\<close>.\<close>

definition unused :: "((string \<Rightarrow> sql_table \<Rightarrow> bool) \<Rightarrow> bool) \<Rightarrow> string \<Rightarrow> bool" where
  "unused everywhere n \<longleftrightarrow> everywhere (\<lambda>t tb. n \<notin> set (relation_names t tb))"

fun ddl_ready :: "catalog \<Rightarrow> ((string \<Rightarrow> sql_table \<Rightarrow> bool) \<Rightarrow> bool) \<Rightarrow> ddl \<Rightarrow> bool" where
  "ddl_ready m everywhere (CreateTable t cols cons) \<longleftrightarrow>
     m t = None \<and> distinct (map col_name cols) \<and>
     distinct (t # concat (map constraint_relations cons)) \<and>
     list_all (unused everywhere) (t # concat (map constraint_relations cons)) \<and>
     list_all (constraint_ok m cols) cons \<and> list_all (\<lambda>c. constraint_name c \<noteq> None) cons"
| "ddl_ready m everywhere (CreateIndex i t cs u) \<longleftrightarrow> (case m t of None \<Rightarrow> False | Some tb \<Rightarrow>
     set cs \<subseteq> set (map col_name (tbl_columns tb)) \<and> unused everywhere i \<and> \<not> u)"
| "ddl_ready m everywhere (DropIndex i t) \<longleftrightarrow> (case m t of None \<Rightarrow> False | Some tb \<Rightarrow>
     i \<in> set (map index_name (tbl_indexes tb)))"
| "ddl_ready m everywhere (DropTable t) \<longleftrightarrow>
     m t \<noteq> None \<and> everywhere (\<lambda>t' tb. t' = t \<or> t \<notin> fst ` set (references tb))"
| "ddl_ready m everywhere (AddColumn t c) \<longleftrightarrow> (case m t of None \<Rightarrow> False | Some tb \<Rightarrow>
     col_name c \<notin> set (map col_name (tbl_columns tb)) \<and> (col_nullable c \<or> col_server_default c \<noteq> None))"
| "ddl_ready m everywhere (DropColumn t c) \<longleftrightarrow> (case m t of None \<Rightarrow> False | Some tb \<Rightarrow>
     c \<in> set (map col_name (tbl_columns tb)) \<and>
     list_all (\<lambda>k. c \<notin> set (constraint_columns k)) (tbl_constraints tb) \<and>
     list_all (\<lambda>i. c \<notin> set (index_columns i)) (tbl_indexes tb) \<and>
     everywhere (\<lambda>t' tb'. (t, c) \<notin> set (references tb')))"
| "ddl_ready m everywhere (AlterServerDefault t c d) \<longleftrightarrow> (case m t of None \<Rightarrow> False | Some tb \<Rightarrow>
     c \<in> set (map col_name (tbl_columns tb)))"

subsection \<open>The revisions\<close>

record revision =
  revision_id :: string
  down_revision :: "string option"
  upgrade :: "ddl list"
  downgrade :: "ddl list"

text \<open>\<open>sa.Column(name, type, nullable=...)\<close>; \<open>nullable\<close> defaults to true.\<close>

definition Column :: "string \<Rightarrow> sql_type \<Rightarrow> bool \<Rightarrow> column" where
  "Column n ty b = \<lparr>col_name = n, col_type = ty, col_nullable = b, col_server_default = None\<rparr>"
definition upgrade_20260711_01 :: "ddl list" where
  "upgrade_20260711_01 =
    [CreateTable ''sources''
       [Column ''id'' Uuid False, Column ''source_key'' (SqlString 128) False, Column ''name'' (SqlString 256) False,
        Column ''enabled'' Boolean False, Column ''settings'' JSONB False,
        Column ''created_at'' (DateTime False) False, Column ''updated_at'' (DateTime False) False]
       [PrimaryKeyConstraint [''id''] (Some ''pk_sources''),
        UniqueConstraint [''source_key''] (Some ''uq_sources_source_key'')],
     CreateIndex ''ix_sources_enabled'' ''sources'' [''enabled''] False,
     CreateTable ''crawl_runs''
       [Column ''id'' Uuid False, Column ''source_id'' Uuid False, Column ''status'' (SqlString 32) False,
        Column ''started_at'' (DateTime False) False, Column ''finished_at'' (DateTime False) True,
        Column ''record_count'' Integer False, Column ''error_metadata'' JSONB True]
       [ForeignKeyConstraint [''source_id''] ''sources'' [''id''] (Some ''fk_crawl_runs_source_id_sources''),
        PrimaryKeyConstraint [''id''] (Some ''pk_crawl_runs'')],
     CreateIndex ''ix_crawl_runs_source_started_at'' ''crawl_runs'' [''source_id'', ''started_at''] False,
     CreateTable ''records''
       [Column ''id'' Uuid False, Column ''source_id'' Uuid False, Column ''external_id'' (SqlString 256) False,
        Column ''payload'' JSONB False, Column ''content_hash'' (SqlString 128) False,
        Column ''is_active'' Boolean False,
        Column ''created_at'' (DateTime False) False, Column ''updated_at'' (DateTime False) False]
       [ForeignKeyConstraint [''source_id''] ''sources'' [''id''] (Some ''fk_records_source_id_sources''),
        PrimaryKeyConstraint [''id''] (Some ''pk_records''),
        UniqueConstraint [''source_id'', ''external_id''] (Some ''uq_records_source_external_id'')],
     CreateIndex ''ix_records_source_is_active'' ''records'' [''source_id'', ''is_active''] False,
     CreateIndex ''ix_records_source_updated_at'' ''records'' [''source_id'', ''updated_at''] False,
     CreateTable ''change_events''
       [Column ''id'' Uuid False, Column ''record_id'' Uuid False, Column ''event_type'' (SqlString 64) False,
        Column ''payload'' JSONB False, Column ''occurred_at'' (DateTime False) False]
       [ForeignKeyConstraint [''record_id''] ''records'' [''id''] (Some ''fk_change_events_record_id_records''),
        PrimaryKeyConstraint [''id''] (Some ''pk_change_events'')],
     CreateIndex ''ix_change_events_record_occurred_at'' ''change_events'' [''record_id'', ''occurred_at''] False]"

definition downgrade_20260711_01 :: "ddl list" where
  "downgrade_20260711_01 =
    [DropIndex ''ix_change_events_record_occurred_at'' ''change_events'',
     DropTable ''change_events'',
     DropIndex ''ix_records_source_updated_at'' ''records'',
     DropIndex ''ix_records_source_is_active'' ''records'',
     DropTable ''records'',
     DropIndex ''ix_crawl_runs_source_started_at'' ''crawl_runs'',
     DropTable ''crawl_runs'',
     DropIndex ''ix_sources_enabled'' ''sources'',
     DropTable ''sources'']"

definition upgrade_20260711_02 :: "ddl list" where
  "upgrade_20260711_02 =
    [CreateTable ''source_fetch_states''
       [Column ''id'' Uuid False, Column ''source_id'' Uuid False, Column ''etag'' (SqlString 512) True,
        Column ''last_modified'' (SqlString 128) True, Column ''raw_response_hash'' (SqlString 64) True,
        Column ''updated_at'' (DateTime False) False]
       [ForeignKeyConstraint [''source_id''] ''sources'' [''id''] (Some ''fk_source_fetch_states_source_id_sources''),
        PrimaryKeyConstraint [''id''] (Some ''pk_source_fetch_states''),
        UniqueConstraint [''source_id''] (Some ''uq_source_fetch_states_source_id'')],
     AddColumn ''records'' (Column ''last_seen_at'' (DateTime False) True),
     AddColumn ''records'' (Column ''missing_count'' Integer False \<lparr>col_server_default := Some ''0''\<rparr>),
     AlterServerDefault ''records'' ''missing_count'' None]"

definition downgrade_20260711_02 :: "ddl list" where
  "downgrade_20260711_02 =
    [DropColumn ''records'' ''missing_count'', DropColumn ''records'' ''last_seen_at'',
     DropTable ''source_fetch_states'']"

definition upgrade_20260712_03 :: "ddl list" where
  "upgrade_20260712_03 = [AddColumn ''crawl_runs'' (Column ''snapshot_path'' (SqlString 1024) True)]"

definition downgrade_20260712_03 :: "ddl list" where
  "downgrade_20260712_03 = [DropColumn ''crawl_runs'' ''snapshot_path'']"

definition revision_20260711_01 :: revision where
  "revision_20260711_01 = \<lparr>revision_id = ''20260711_01'', down_revision = None,
     upgrade = upgrade_20260711_01, downgrade = downgrade_20260711_01\<rparr>"

definition revision_20260711_02 :: revision where
  "revision_20260711_02 = \<lparr>revision_id = ''20260711_02'', down_revision = Some ''20260711_01'',
     upgrade = upgrade_20260711_02, downgrade = downgrade_20260711_02\<rparr>"

definition revision_20260712_03 :: revision where
  "revision_20260712_03 = \<lparr>revision_id = ''20260712_03'', down_revision = Some ''20260711_02'',
     upgrade = upgrade_20260712_03, downgrade = downgrade_20260712_03\<rparr>"

definition versions :: "revision list" where
  "versions = [revision_20260711_01, revision_20260711_02, revision_20260712_03]"

lemmas version_defs = versions_def revision_20260711_01_def revision_20260711_02_def revision_20260712_03_def
  upgrade_20260711_01_def upgrade_20260711_02_def upgrade_20260712_03_def
  downgrade_20260711_01_def downgrade_20260711_02_def downgrade_20260712_03_def Column_def

text \<open>Alembic follows \<open>down_revision\<close>: the revisions after \<open>current\<close>, in order. \<open>n\<close> bounds the walk; the
  number of revisions is enough for a history without cycles.\<close>

fun revisions_after :: "nat \<Rightarrow> revision list \<Rightarrow> string option \<Rightarrow> revision list" where
  "revisions_after 0 rs current = []"
| "revisions_after (Suc n) rs current = (case find (\<lambda>r. down_revision r = current) rs of
     None \<Rightarrow> []
   | Some r \<Rightarrow> r # revisions_after n rs (Some (revision_id r)))"

text \<open>The revisions that lead back from \<open>current\<close> to the empty database, newest first.\<close>

fun revisions_until :: "nat \<Rightarrow> revision list \<Rightarrow> string option \<Rightarrow> revision list" where
  "revisions_until 0 rs current = []"
| "revisions_until (Suc n) rs current = (case find (\<lambda>r. Some (revision_id r) = current) rs of
     None \<Rightarrow> []
   | Some r \<Rightarrow> r # revisions_until n rs (down_revision r))"

primrec run_ops :: "(ddl \<Rightarrow> ('s, unit) py) \<Rightarrow> ddl list \<Rightarrow> ('s, unit) py" where
  "run_ops ap [] = ret ()"
| "run_ops ap (d # ds) = thenP (ap d) (run_ops ap ds)"

definition upgrade_head :: "(ddl \<Rightarrow> ('s, unit) py) \<Rightarrow> string option \<Rightarrow> ('s, unit) py" where
  "upgrade_head ap current =
     run_ops ap (concat (map upgrade (revisions_after (length versions) versions current)))"

definition downgrade_base :: "(ddl \<Rightarrow> ('s, unit) py) \<Rightarrow> string option \<Rightarrow> ('s, unit) py" where
  "downgrade_base ap current =
     run_ops ap (concat (map downgrade (revisions_until (length versions) versions current)))"

subsection \<open>The tables of a catalogue and the tables of the models\<close>

text \<open>A constraint that the model leaves unnamed may have any name in the database.\<close>

fun constraint_matches :: "table_constraint \<Rightarrow> table_constraint \<Rightarrow> bool" where
  "constraint_matches (PrimaryKeyConstraint cs n) (PrimaryKeyConstraint cs' n') \<longleftrightarrow> cs = cs' \<and> (n' = None \<or> n = n')"
| "constraint_matches (UniqueConstraint cs n) (UniqueConstraint cs' n') \<longleftrightarrow> cs = cs' \<and> (n' = None \<or> n = n')"
| "constraint_matches (ForeignKeyConstraint cs t ks n) (ForeignKeyConstraint cs' t' ks' n') \<longleftrightarrow>
     cs = cs' \<and> t = t' \<and> ks = ks' \<and> (n' = None \<or> n = n')"
| "constraint_matches _ _ \<longleftrightarrow> False"

definition table_matches :: "sql_table \<Rightarrow> sql_table \<Rightarrow> bool" where
  "table_matches tb mt \<longleftrightarrow> set (tbl_columns tb) = set (tbl_columns mt) \<and>
     length (tbl_columns tb) = length (tbl_columns mt) \<and>
     (\<forall>c \<in> set (tbl_constraints tb). \<exists>c' \<in> set (tbl_constraints mt). constraint_matches c c') \<and>
     (\<forall>c' \<in> set (tbl_constraints mt). \<exists>c \<in> set (tbl_constraints tb). constraint_matches c c') \<and>
     set (tbl_indexes tb) = set (tbl_indexes mt)"

subsection \<open>What PostgreSQL promises\<close>

locale schema_database =
  fixes ap :: "ddl \<Rightarrow> ('s, unit) py" and vw :: "'s \<Rightarrow> catalog"
  assumes ddl_law: "ddl_ready (vw s) (\<lambda>P. \<forall>t tb. vw s t = Some tb \<longrightarrow> P t tb) d \<Longrightarrow>
    \<exists>s'. ap d s = (Inr (), s') \<and> vw s' = ddl_effect d (vw s)"

text \<open>The reference database: a catalogue as an association list.\<close>

type_synonym listing = "(string \<times> sql_table) list"

definition every_table :: "listing \<Rightarrow> (string \<Rightarrow> sql_table \<Rightarrow> bool) \<Rightarrow> bool" where
  "every_table L P \<longleftrightarrow> list_all (\<lambda>t. case map_of L t of Some tb \<Rightarrow> P t tb | None \<Rightarrow> True) (map fst L)"

definition listed_ready :: "listing \<Rightarrow> ddl \<Rightarrow> bool" where
  "listed_ready L d = ddl_ready (map_of L) (every_table L) d"

definition listed_effect :: "ddl \<Rightarrow> listing \<Rightarrow> listing" where
  "listed_effect d L = (case ddl_change d (map_of L (ddl_table d)) of
     Some tb \<Rightarrow> AList.update (ddl_table d) tb L
   | None \<Rightarrow> AList.delete (ddl_table d) L)"

definition listed_ap :: "ddl \<Rightarrow> (listing, unit) py" where
  "listed_ap d L = (if listed_ready L d then (Inr (), listed_effect d L)
     else (Inl (RuntimeError ''ProgrammingError''), L))"

lemma every_table_iff: "every_table L P \<longleftrightarrow> (\<forall>t tb. map_of L t = Some tb \<longrightarrow> P t tb)"
proof -
  have "t \<in> fst ` set L" if "map_of L t = Some tb" for t tb using map_of_SomeD [OF that] by force
  then show ?thesis unfolding every_table_def list_all_iff by (auto split: option.splits)
qed

lemma map_of_listed_effect: "map_of (listed_effect d L) = ddl_effect d (map_of L)"
  by (auto simp: listed_effect_def ddl_effect_def update_conv' delete_conv' split: option.splits)

interpretation listed: schema_database listed_ap map_of
proof unfold_locales
  fix s :: listing and d
  have "every_table s = (\<lambda>P. \<forall>t tb. map_of s t = Some tb \<longrightarrow> P t tb)" by (simp add: fun_eq_iff every_table_iff)
  moreover assume "ddl_ready (map_of s) (\<lambda>P. \<forall>t tb. map_of s t = Some tb \<longrightarrow> P t tb) d"
  ultimately show "\<exists>s'. listed_ap d s = (Inr (), s') \<and> map_of s' = ddl_effect d (map_of s)"
    by (simp add: listed_ap_def listed_ready_def map_of_listed_effect)
qed

subsection \<open>Running a migration beside other tables\<close>

text \<open>The catalogue \<open>m\<close> does not use the names \<open>N\<close>.\<close>

definition apart :: "string list \<Rightarrow> catalog \<Rightarrow> bool" where
  "apart N m \<longleftrightarrow> (\<forall>t tb. m t = Some tb \<longrightarrow> set (relation_names t tb) \<inter> set N = {} \<and> fst ` set (references tb) \<inter> set N = {})"

definition uses_only :: "string list \<Rightarrow> ddl \<Rightarrow> bool" where
  "uses_only N d \<longleftrightarrow> ddl_table d \<in> set N \<and> set (ddl_new_names d) \<subseteq> set N"

lemma apart_None: "apart N m \<Longrightarrow> t \<in> set N \<Longrightarrow> m t = None"
  unfolding apart_def relation_names_def by (cases "m t") auto

lemma apart_references: "apart N m \<Longrightarrow> m t = Some tb \<Longrightarrow> n \<in> set N \<Longrightarrow> (n, c) \<notin> set (references tb)"
  unfolding apart_def by force

lemma unused_beside:
  assumes "apart N v" and "n \<in> set N" and "unused (every_table L) n"
  shows "unused (\<lambda>P. \<forall>t tb. (v ++ map_of L) t = Some tb \<longrightarrow> P t tb) n"
  using assms unfolding unused_def every_table_iff apart_def by (auto simp: map_add_Some_iff)

lemma constraint_ok_beside: "constraint_ok (map_of L) cols c \<Longrightarrow> constraint_ok (v ++ map_of L) cols c"
  by (cases c) (auto simp: map_add_def split: option.splits)

lemma ddl_ready_beside:
  assumes v: "apart N v" and d: "uses_only N d" and L: "listed_ready L d"
  shows "ddl_ready (v ++ map_of L) (\<lambda>P. \<forall>t tb. (v ++ map_of L) t = Some tb \<longrightarrow> P t tb) d"
proof -
  have t: "(v ++ map_of L) (ddl_table d) = map_of L (ddl_table d)"
    using apart_None [OF v] d by (simp add: uses_only_def map_add_def split: option.splits)
  show ?thesis
  proof (cases d)
    case (CreateTable n cols cons)
    with L t d show ?thesis
      by (auto simp: listed_ready_def uses_only_def list_all_iff intro!: unused_beside [OF v] constraint_ok_beside)
  next
    case (CreateIndex i n cs u)
    with L t d show ?thesis
      by (auto simp: listed_ready_def uses_only_def split: option.splits intro!: unused_beside [OF v])
  next
    case (DropTable n)
    with L t d v show ?thesis
      by (auto simp: listed_ready_def uses_only_def every_table_iff map_add_Some_iff dest: apart_references)
  next
    case (DropColumn n c)
    with L t d v show ?thesis
      by (auto simp: listed_ready_def uses_only_def every_table_iff map_add_Some_iff dest: apart_references split: option.splits)
  qed (use L t in \<open>simp_all add: listed_ready_def split: option.splits\<close>)
qed

lemma ddl_effect_beside:
  assumes "apart N v" and "uses_only N d"
  shows "ddl_effect d (v ++ map_of L) = v ++ map_of (listed_effect d L)"
  using apart_None [OF assms(1), of "ddl_table d"] assms(2)
  by (auto simp: fun_eq_iff ddl_effect_def map_of_listed_effect uses_only_def map_add_def split: option.splits)

text \<open>A run on the reference database, if every operation is ready and uses the names \<open>N\<close> only.\<close>

primrec run_listed :: "string list \<Rightarrow> ddl list \<Rightarrow> listing \<Rightarrow> listing option" where
  "run_listed N [] L = Some L"
| "run_listed N (d # ds) L = (if uses_only N d \<and> listed_ready L d then run_listed N ds (listed_effect d L) else None)"

context schema_database
begin

lemma run_beside:
  assumes "apart N v" and "run_listed N ds L = Some L'" and "vw s = v ++ map_of L"
  shows "\<exists>s'. run_ops ap ds s = (Inr (), s') \<and> vw s' = v ++ map_of L'"
  using assms(2,3)
proof (induction ds arbitrary: L s)
  case (Cons d ds)
  from Cons.prems(1) have d: "uses_only N d" "listed_ready L d" and run: "run_listed N ds (listed_effect d L) = Some L'"
    by (simp_all split: if_splits)
  obtain s1 where s1: "ap d s = (Inr (), s1)" "vw s1 = v ++ map_of (listed_effect d L)"
    using ddl_law [of s d] ddl_ready_beside [OF assms(1) d] ddl_effect_beside [OF assms(1) d(1)] Cons.prems(2) by auto
  from Cons.IH [OF run s1(2)] s1(1) show ?case by simp
qed simp

end

subsection \<open>The migrations give the tables of the models\<close>

text \<open>The catalogue of a database that was empty, after the first \<open>n\<close> revisions.\<close>

definition migrated :: "nat \<Rightarrow> listing" where
  "migrated n = fold listed_effect (concat (map upgrade (take n versions))) []"

definition schema_names :: "string list" where
  "schema_names = concat (map (\<lambda>(t, tb). relation_names t tb) (migrated 3))"

lemma history:
  "revisions_after (length versions) versions None = versions"
  "revisions_after (length versions) versions (Some ''20260711_01'') = drop 1 versions"
  "revisions_after (length versions) versions (Some ''20260711_02'') = drop 2 versions"
  "revisions_until (length versions) versions (Some ''20260712_03'') = rev versions"
  by code_simp+

lemma upgrade_runs:
  "run_listed schema_names (concat (map upgrade versions)) [] = Some (migrated 3)"
  by code_simp

lemma downgrade_runs:
  "run_listed schema_names (concat (map downgrade (rev versions))) (migrated 3) = Some []"
  by code_simp

lemma migrated_matches_models:
  "list_all (\<lambda>m. case map_of (migrated 3) (tablename m) of Some tb \<Rightarrow> table_matches tb (model_table m) | None \<Rightarrow> False) models"
  by code_simp

text \<open>What Alembic records as the current revision after \<open>n\<close> revisions.\<close>

definition revision_after :: "nat \<Rightarrow> string option" where
  "revision_after n = (if n = 0 then None else Some (revision_id (versions ! (n - 1))))"

lemma upgrades_run:
  "list_all (\<lambda>n. run_listed schema_names
     (concat (map upgrade (revisions_after (length versions) versions (revision_after n)))) (migrated n)
       = Some (migrated 3)) [0, 1, 2, 3]"
  by code_simp

lemma each_downgrade_runs:
  "list_all (\<lambda>n. run_listed schema_names (downgrade (versions ! n)) (migrated (Suc n)) = Some (migrated n)) [0, 1, 2]"
  by code_simp

lemma migrated_tables: "set (map fst (migrated 3)) = tablename ` set models"
  by code_simp

lemma migrated_0: "migrated 0 = []"
  by (simp add: migrated_def)

lemma below_4: "n \<le> 3 \<Longrightarrow> n \<in> set [0, 1, 2, 3 :: nat]"
  by auto

text \<open>Any step back from a deployed revision gives the catalogue of the revision before it.\<close>

lemma downgrade_undoes_revision:
  assumes "schema_database ap vw" and "apart schema_names v" and "n < 3"
    and "vw s = v ++ map_of (migrated (Suc n))"
  shows "\<exists>s'. run_ops ap (downgrade (versions ! n)) s = (Inr (), s') \<and> vw s' = v ++ map_of (migrated n)"
proof -
  have "n \<in> set [0, 1, 2]" using assms(3) by auto
  then show ?thesis
    using each_downgrade_runs schema_database.run_beside [OF assms(1,2) _ assms(4)] unfolding list_all_iff by blast
qed

text \<open>
  C28: On a database that obeys the documented rules of the DDL operations and whose other tables do not
  use the names of the schema, \<open>alembic upgrade head\<close> from any deployed revision succeeds whatever rows are
  stored, gives each model of \<open>models.py\<close> exactly its table (columns with type and nullability, keys,
  unique constraints and indexes; column order and names of constraints that the model leaves unnamed
  aside), leaves every other table alone, and \<open>alembic downgrade base\<close> gives the old catalogue back.
\<close>

theorem migrations_build_the_models:
  assumes "schema_database ap vw" and "apart schema_names v" and "n \<le> 3"
    and "vw s = v ++ map_of (migrated n)"
  shows "\<exists>s'. upgrade_head ap (revision_after n) s = (Inr (), s') \<and>
    (\<forall>m \<in> set models. \<exists>tb. vw s' (tablename m) = Some tb \<and> table_matches tb (model_table m)) \<and>
    (\<forall>t. t \<notin> tablename ` set models \<longrightarrow> vw s' t = v t) \<and>
    (\<exists>s''. downgrade_base ap (Some ''20260712_03'') s' = (Inr (), s'') \<and> vw s'' = v)"
proof -
  have "run_listed schema_names (concat (map upgrade (revisions_after (length versions) versions (revision_after n))))
      (migrated n) = Some (migrated 3)"
    using upgrades_run below_4 [OF assms(3)] unfolding list_all_iff by blast
  from schema_database.run_beside [OF assms(1,2) this assms(4)] obtain s' where
    s': "upgrade_head ap (revision_after n) s = (Inr (), s')" "vw s' = v ++ map_of (migrated 3)"
    unfolding upgrade_head_def by blast
  from schema_database.run_beside [OF assms(1,2) downgrade_runs s'(2)]
  have undone: "\<exists>s''. downgrade_base ap (Some ''20260712_03'') s' = (Inr (), s'') \<and> vw s'' = v"
    unfolding downgrade_base_def history(4) by simp
  have built: "\<exists>tb. vw s' (tablename m) = Some tb \<and> table_matches tb (model_table m)" if "m \<in> set models" for m
    using migrated_matches_models that unfolding list_all_iff s'(2)
    by (fastforce simp: map_add_Some_iff split: option.splits)
  have "vw s' t = v t" if "t \<notin> tablename ` set models" for t
  proof -
    have "map_of (migrated 3) t = None" using that by (simp add: migrated_tables [symmetric] map_of_eq_None_iff)
    then show ?thesis by (simp add: s'(2) map_add_def)
  qed
  with s'(1) built undone show ?thesis by blast
qed

definition alembic_version :: listing where
  "alembic_version = [(''alembic_version'',
     \<lparr>tbl_columns = [Column ''version_num'' (SqlString 32) False],
      tbl_constraints = [PrimaryKeyConstraint [''version_num''] (Some ''alembic_version_pkc'')], tbl_indexes = []\<rparr>)]"

lemma alembic_version_apart: "apart schema_names (map_of alembic_version)"
proof -
  have "every_table alembic_version (\<lambda>t tb. set (relation_names t tb) \<inter> set schema_names = {} \<and>
      fst ` set (references tb) \<inter> set schema_names = {})"
    by code_simp
  then show ?thesis unfolding apart_def every_table_iff .
qed

theorem migrations_build_the_models_witness:
  "\<exists>s'. upgrade_head listed_ap (revision_after 1) (migrated 1 @ alembic_version) = (Inr (), s') \<and>
    (\<forall>m \<in> set models. \<exists>tb. map_of s' (tablename m) = Some tb \<and> table_matches tb (model_table m)) \<and>
    (\<forall>t. t \<notin> tablename ` set models \<longrightarrow> map_of s' t = map_of alembic_version t) \<and>
    (\<exists>s''. downgrade_base listed_ap (Some ''20260712_03'') s' = (Inr (), s'') \<and> map_of s'' = map_of alembic_version)"
proof (rule migrations_build_the_models [OF listed.schema_database_axioms alembic_version_apart])
  show "map_of (migrated 1 @ alembic_version) = map_of alembic_version ++ map_of (migrated 1)"
    by simp
qed simp

text \<open>The rows that the repository inserts: no required column is left without a value.\<close>

lemma repository_inserts_complete:
  "missing_columns Record_model [''source_id'', ''external_id'', ''payload'', ''content_hash'', ''last_seen_at'', ''missing_count''] = []"
  "missing_columns ChangeEvent_model [''record_id'', ''event_type'', ''payload''] = []"
  "missing_columns SourceFetchState_model [''source_id'', ''etag'', ''last_modified'', ''raw_response_hash'', ''updated_at''] = []"
  by code_simp+

end
