(* ===== verification/Database.thy ===== *)
theory Database
  imports BrowserSession Observability
begin

section \<open>Database access and the migration environment (\<open>database.py\<close>, \<open>migrations/env.py\<close>)\<close>

text \<open>
  The Beijing wall clock, the database URL, the settings of the engine, the connection probe, and the two
  ways in which Alembic runs the migrations. Parameters: \<open>of_utc\<close>, the wall clock of Asia/Shanghai at a
  UTC instant; opening, using and closing a connection; \<open>sqlalchemy_error\<close>, the exceptions of the class
  \<open>SQLAlchemyError\<close>; Alembic's configuration and its context.

  The lemmas: a URL comes from the named source, without blanks, or the call raises before any
  connection is opened; an error of the probe carries a fixed text, whatever the database reported, and
  the connection is closed.
\<close>

subsection \<open>\<open>database.py\<close>\<close>

definition beijing_now :: "(int \<Rightarrow> int) \<Rightarrow> int \<Rightarrow> datetime" where
  "beijing_now of_utc instant = (let aware = \<lparr>wall = of_utc instant, tz = Some BEIJING\<rparr> in aware\<lparr>tz := None\<rparr>)"

lemma beijing_now_naive: "beijing_now of_utc instant = naive (of_utc instant)"
  by (simp add: beijing_now_def naive_def)

definition load_database_url :: "(string \<Rightarrow> string option) \<Rightarrow> string \<Rightarrow> string result" where
  "load_database_url environ variable_name =
     (let database_url = strip (environ_get environ variable_name []) in
      if database_url = [] then Inl (DatabaseUnavailableError (variable_name @ '' is required for database access.''))
      else Inr database_url)"

record engine =
  engine_url :: string
  connect_timeout :: int
  pool_pre_ping :: bool

definition build_engine :: "string \<Rightarrow> engine" where
  "build_engine database_url = \<lparr>engine_url = database_url, connect_timeout = 3, pool_pre_ping = True\<rparr>"

definition build_session_factory :: "string \<Rightarrow> (engine \<Rightarrow> 'f) \<Rightarrow> 'f" where
  "build_session_factory database_url sessionmaker = sessionmaker (build_engine database_url)"

text \<open>A connection as a context manager: closed on every way out.\<close>

record ('s, 'c) connections =
  open_connection :: "('s, 'c) py"
  execute_text :: "'c \<Rightarrow> string \<Rightarrow> ('s, unit) py"
  close_connection :: "'c \<Rightarrow> ('s, unit) py"

definition with_connection :: "('s, 'c) connections \<Rightarrow> ('c \<Rightarrow> ('s, 'a) py) \<Rightarrow> ('s, 'a) py" where
  "with_connection cn f = bindP (open_connection cn) (\<lambda>c. finallyP (f c) (close_connection cn c))"

definition probe_connection :: "(exn \<Rightarrow> bool) \<Rightarrow> ('s, 'c) connections \<Rightarrow> ('s, unit) py" where
  "probe_connection sqlalchemy_error cn = tryP (with_connection cn (\<lambda>c. execute_text cn c ''SELECT 1''))
     (\<lambda>e. if sqlalchemy_error e then Some (raise (DatabaseUnavailableError ''Database connection probe failed.'')) else None)"

subsection \<open>\<open>env.py\<close>\<close>

text \<open>What \<open>env.py\<close> uses of Alembic: the option \<open>sqlalchemy.url\<close>, \<open>context.configure\<close> without or with a
  connection, \<open>context.begin_transaction()\<close> around \<open>context.run_migrations()\<close>; and the connections of
  an engine built from the configuration.\<close>

record ('s, 'c) alembic =
  get_url :: "'s \<Rightarrow> string"
  set_url :: "string \<Rightarrow> ('s, unit) py"
  configure_url :: "string \<Rightarrow> ('s, unit) py"
  configure_connection :: "'c \<Rightarrow> ('s, unit) py"
  begin_transaction :: "('s, unit) py \<Rightarrow> ('s, unit) py"
  run_migrations :: "('s, unit) py"
  engine_connections :: "('s, 'c) connections"

definition require_database_url :: "('s, 'c) alembic \<Rightarrow> (string \<Rightarrow> string option) \<Rightarrow> ('s, string) py" where
  "require_database_url al environ s =
     (let configured = strip (get_url al s);
          database_url = (if configured = [] then strip (environ_get environ ''DATABASE_URL'' []) else configured) in
      if database_url = [] then (Inl (RuntimeError ''Alembic requires sqlalchemy.url or DATABASE_URL.''), s)
      else thenP (set_url al database_url) (ret database_url) s)"

definition run_migrations_offline :: "('s, 'c) alembic \<Rightarrow> (string \<Rightarrow> string option) \<Rightarrow> ('s, unit) py" where
  "run_migrations_offline al environ = bindP (require_database_url al environ)
     (\<lambda>url. thenP (configure_url al url) (begin_transaction al (run_migrations al)))"

definition run_migrations_online :: "('s, 'c) alembic \<Rightarrow> (string \<Rightarrow> string option) \<Rightarrow> ('s, unit) py" where
  "run_migrations_online al environ = bindP (require_database_url al environ)
     (\<lambda>_. with_connection (engine_connections al)
       (\<lambda>c. thenP (configure_connection al c) (begin_transaction al (run_migrations al))))"

definition run_migration_env :: "bool \<Rightarrow> ('s, 'c) alembic \<Rightarrow> (string \<Rightarrow> string option) \<Rightarrow> ('s, unit) py" where
  "run_migration_env is_offline_mode al environ =
     (if is_offline_mode then run_migrations_offline al environ else run_migrations_online al environ)"

subsection \<open>Lemmas\<close>

lemma load_database_url_cases:
  "load_database_url environ name = (case environ name of
     Some v \<Rightarrow> if strip v = [] then Inl (DatabaseUnavailableError (name @ '' is required for database access.'')) else Inr (strip v)
   | None \<Rightarrow> Inl (DatabaseUnavailableError (name @ '' is required for database access.'')))"
  by (auto simp: load_database_url_def environ_get_def strip_def Let_def split: option.splits)

text \<open>Without a URL nothing happens: no option is set, no connection opened, no migration run.\<close>

lemma no_url_no_migration:
  assumes "strip (get_url al s) = []" and "strip (environ_get environ ''DATABASE_URL'' []) = []"
  shows "run_migration_env offline al environ s = (Inl (RuntimeError ''Alembic requires sqlalchemy.url or DATABASE_URL.''), s)"
  using assms by (simp add: run_migration_env_def run_migrations_offline_def run_migrations_online_def require_database_url_def bindP_def)

text \<open>The option wins over the environment, and the URL used is the one that is set.\<close>

lemma require_database_url_result:
  assumes "require_database_url al environ s = (Inr url, t)"
  shows "url \<noteq> [] \<and> set_url al url s = (Inr (), t) \<and>
    (url = strip (get_url al s) \<or> strip (get_url al s) = [] \<and> environ ''DATABASE_URL'' \<noteq> None \<and>
     url = strip (the (environ ''DATABASE_URL'')))"
  using assms by (auto simp: require_database_url_def Let_def thenP_eq_Inr environ_get_def strip_def
      split: if_splits option.splits)

text \<open>The probe reports a database error with its fixed text, once the connection is closed.\<close>

lemma probe_reports_unavailable:
  assumes "open_connection cn s = (Inr c, s1)" and "execute_text cn c ''SELECT 1'' s1 = (Inl e, s2)"
    and "close_connection cn c s2 = (Inr (), s3)" and "sqlalchemy_error e"
  shows "probe_connection sqlalchemy_error cn s = (Inl (DatabaseUnavailableError ''Database connection probe failed.''), s3)"
  using assms by (simp add: probe_connection_def with_connection_def tryP_def bindP_def finallyP_def)

lemma probe_hides_errors:
  assumes "probe_connection sqlalchemy_error cn s = (Inl e, t)" and "sqlalchemy_error e"
  shows "e = DatabaseUnavailableError ''Database connection probe failed.''"
  using assms by (auto simp: probe_connection_def tryP_def split: prod.splits sum.splits if_splits)

lemma probe_succeeds:
  assumes "open_connection cn s = (Inr c, s1)" and "execute_text cn c ''SELECT 1'' s1 = (Inr (), s2)"
    and "close_connection cn c s2 = (Inr (), s3)"
  shows "probe_connection sqlalchemy_error cn s = (Inr (), s3)"
  using assms by (simp add: probe_connection_def with_connection_def tryP_def bindP_def finallyP_def)

end
