(* ===== verification/MockServer.thy ===== *)
theory MockServer
  imports Adapters
begin

section \<open>Mock source server and its client (\<open>mock_server.py\<close>)\<close>

text \<open>
  The handler of \<open>MockCrawlerServer\<close>, a function of the server's mutable state and of the request's
  \<open>If-None-Match\<close> header, and the demo adapter run against it. A reply is what goes over the wire (the
  \<open>Server\<close> and \<open>Date\<close> headers of \<open>send_response\<close> left out), the seconds slept before it, and the
  exception that ended the handler, if any. \<open>urlopen\<close> is the standard library's: it sends no
  \<open>If-None-Match\<close>, raises \<open>HTTPError\<close> for a status outside 200 to 299 (the mock never redirects) and
  \<open>TimeoutError\<close> when the reply takes the whole timeout. The server object is its state, its address (the
  port is the operating system's choice) and the state of its thread; a call that never returns is \<open>None\<close>.

  The property: what a collection from each of the server's modes delivers. The lemmas on the server object:
  a \<open>with\<close> block gives the outcome of its body and ends the thread, an object serves once only, and \<open>stop\<close>
  before \<open>start\<close> never returns.
\<close>

record MockServerState =
  mode :: string
  mock_items :: "(string \<times> pyval) list list"
  mock_etag :: string

definition initial_state :: MockServerState where
  "initial_state = \<lparr>mode = ''normal'', mock_items = [[(''id'', PStr ''one'')]],
     mock_etag = [CHR 0x22, CHR ''v'', CHR ''1'', CHR 0x22]\<rparr>"

record mock_reply =
  waited :: rat
  status :: int
  headers :: "(string \<times> string) list"
  payload :: string
  raised :: "exn option"

definition do_GET :: "MockServerState \<Rightarrow> string option \<Rightarrow> mock_reply" where
  "do_GET st if_none_match =
     (let wait = (if mode st = ''timeout'' then 1 else 0) in
      if mode st = ''429'' then
        \<lparr>waited = wait, status = 429, headers = [(''Retry-After'', ''7'')], payload = [], raised = None\<rparr>
      else if mode st = ''500'' then
        \<lparr>waited = wait, status = 500, headers = [], payload = [], raised = None\<rparr>
      else if if_none_match = Some (mock_etag st) then
        \<lparr>waited = wait, status = 304, headers = [], payload = [], raised = None\<rparr>
      else
        let hs = [(''Content-Type'', ''application/json''), (''ETag'', mock_etag st)];
            body = (if mode st = ''invalid_json'' then Inr ''{''
              else if mode st = ''empty'' then Inr (''{'' @ [CHR 0x22] @ ''items'' @ [CHR 0x22] @ '': []}'')
              else if mode st = ''missing_field'' then Inr (''{'' @ [CHR 0x22] @ ''items'' @ [CHR 0x22] @ '': [{}]}'')
              else dumps default_style (PDict [(''items'', PList (map PDict (mock_items st)))]))
        in (case body of
              Inl e \<Rightarrow> \<lparr>waited = wait, status = 200, headers = hs, payload = [], raised = Some e\<rparr>
            | Inr t \<Rightarrow> \<lparr>waited = wait, status = 200, headers = hs, payload = utf8 t, raised = None\<rparr>))"

lemma fixed_bodies:
  "dumps default_style (PDict [(''items'', PList [])]) = Inr (''{'' @ [CHR 0x22] @ ''items'' @ [CHR 0x22] @ '': []}'')"
  "dumps default_style (PDict [(''items'', PList [PDict []])]) =
     Inr (''{'' @ [CHR 0x22] @ ''items'' @ [CHR 0x22] @ '': [{}]}'')"
  by code_simp+

subsection \<open>The client\<close>

definition header_get :: "(string \<times> string) list \<Rightarrow> string \<Rightarrow> string option" where
  "header_get hs name = map_option snd (find (\<lambda>(k, v). lower k = lower name) hs)"

definition urlopen_reply :: "rat \<Rightarrow> mock_reply \<Rightarrow> (string \<times> string option) result" where
  "urlopen_reply timeout r =
     (if timeout \<le> waited r then Inl (OtherException ''TimeoutError'')
      else if 200 \<le> status r \<and> status r < 300 then Inr (payload r, header_get (headers r) ''ETag'')
      else Inl (OtherException ''HTTPError''))"

definition mock_urlopen :: "string \<Rightarrow> rat \<Rightarrow> (MockServerState, string \<times> string option) py" where
  "mock_urlopen url timeout st = (urlopen_reply timeout (do_GET st None), st)"

text \<open>The reply of the server to a plain request that does not fail.\<close>

definition served_text :: "MockServerState \<Rightarrow> string result" where
  "served_text st =
     (if mode st = ''invalid_json'' then Inr ''{''
      else if mode st = ''empty'' then dumps default_style (PDict [(''items'', PList [])])
      else if mode st = ''missing_field'' then dumps default_style (PDict [(''items'', PList [PDict []])])
      else dumps default_style (PDict [(''items'', PList (map PDict (mock_items st)))]))"

definition answers :: "MockServerState \<Rightarrow> rat \<Rightarrow> bool" where
  "answers st timeout \<longleftrightarrow> mode st \<notin> {''429'', ''500''} \<and> (if mode st = ''timeout'' then 1 else 0) < timeout"

lemma mock_urlopen_answers:
  assumes "answers st timeout" and "served_text st = Inr t"
  shows "mock_urlopen url timeout st = (Inr (utf8 t, Some (mock_etag st)), st)"
  using assms
  by (auto simp: answers_def served_text_def fixed_bodies mock_urlopen_def urlopen_reply_def do_GET_def Let_def
      header_get_def lower_def simp del: dumps.simps split: if_splits)

lemma mock_urlopen_refuses:
  assumes "0 < timeout" and "\<not> answers st timeout"
  shows "mock_urlopen url timeout st \<in> {(Inl (OtherException ''HTTPError''), st), (Inl (OtherException ''TimeoutError''), st)}"
  using assms by (auto simp: answers_def mock_urlopen_def urlopen_reply_def do_GET_def Let_def split: if_splits sum.splits)

text \<open>The items that the server's mode makes it serve, and the items that JSON carries unchanged: values
  \<open>json.dumps\<close> accepts, distinct keys, no tuples.\<close>

definition served_items :: "MockServerState \<Rightarrow> (string \<times> pyval) list list" where
  "served_items st = (if mode st = ''empty'' then [] else if mode st = ''missing_field'' then [[]] else mock_items st)"

definition plain_item :: "(string \<times> pyval) list \<Rightarrow> bool" where
  "plain_item d \<longleftrightarrow> jsonable (PDict d) \<and> json_wf (PDict d) \<and> canon False (PDict d) = PDict d"

lemma loads_served:
  assumes "mode st \<noteq> ''invalid_json''" and "list_all plain_item (mock_items st)"
  shows "\<exists>t. served_text st = Inr t \<and> loads t = Some (PDict [(''items'', PList (map PDict (served_items st)))])"
proof -
  let ?d = "PDict [(''items'', PList (map PDict (served_items st)))]"
  have plain: "list_all plain_item (served_items st)"
    using assms(2) by (simp add: served_items_def plain_item_def)
  then have "jsonable ?d" "json_wf ?d" by (simp_all add: list_all_iff plain_item_def)
  moreover from this(1) obtain t where t: "dumps default_style ?d = Inr t" using dumps_styles_total(1) by blast
  moreover have "canon False ?d = ?d" using plain by (simp add: list_all_iff plain_item_def)
  ultimately have "loads t = Some ?d"
    using loads_dumps [OF style_ok_styles(1) _ t] by (simp add: default_style_def)
  moreover have "served_text st = dumps default_style ?d" using assms(1)
    by (simp add: served_text_def served_items_def del: dumps.simps)
  ultimately show ?thesis using t by auto
qed

lemma invalid_document: "loads ''{'' = None"
  by code_simp

lemma demo_run_refused:
  assumes "0 < timeout" and "\<not> answers st timeout"
  shows "adapter_run (DemoApiAdapter mock_urlopen url timeout) st = (Inl (FetchError ''demo_api request failed''), st)"
proof -
  have "demo_fetch mock_urlopen url timeout st = (Inl (FetchError ''demo_api request failed''), st)"
    using mock_urlopen_refuses [OF assms, of url] by (auto simp: demo_fetch_def)
  then show ?thesis
    by (simp add: adapter_run_def runner_fetch_def DemoApiAdapter_def wrap_error_def bindP_def)
qed

lemma demo_run_invalid:
  assumes "answers st timeout" and "mode st = ''invalid_json''"
  shows "adapter_run (DemoApiAdapter mock_urlopen url timeout) st =
    (Inl (ParseError ''demo_api response is not a valid items document''), st)"
proof -
  have "mock_urlopen url timeout st = (Inr (utf8 ''{'', Some (mock_etag st)), st)"
    using mock_urlopen_answers [OF assms(1)] assms(2) by (simp add: served_text_def)
  then show ?thesis
    by (simp add: adapter_run_def runner_fetch_def runner_parse_def DemoApiAdapter_def demo_fetch_def demo_parse_def
        utf8_no_mark invalid_document wrap_error_def bindP_def)
qed

lemma demo_run_served:
  assumes "answers st timeout" and "mode st \<noteq> ''invalid_json''" and "list_all plain_item (mock_items st)"
  shows "case adapter_run (DemoApiAdapter mock_urlopen url timeout) st of
      (Inr res, u) \<Rightarrow> u = st \<and> list_all demo_item_ok (served_items st) \<and> etag (response res) = Some (mock_etag st) \<and>
        list_all2 (\<lambda>raw i. map_of raw ''id'' = Some (PStr (external_id i)) \<and> item_data i = raw)
          (served_items st) (result_items res)
    | (Inl e, u) \<Rightarrow> u = st \<and> \<not> list_all demo_item_ok (served_items st) \<and> is_AdapterRunError e"
proof -
  from loads_served [OF assms(2,3)] obtain t where t: "served_text st = Inr t"
    "loads t = Some (PDict [(''items'', PList (map PDict (served_items st)))])" by blast
  show ?thesis
    by (rule demo_adapter_delivers [where urlopen = mock_urlopen, OF mock_urlopen_answers [OF assms(1) t(1)] t(2)]) simp
qed

text \<open>
  C27: the demo adapter run against the mock server, in every mode. The run fails with \<open>FetchError\<close> exactly when
  the server answers 429 or 500 or sleeps past the client's timeout, with \<open>ParseError\<close> on the invalid
  document; otherwise it delivers one item per object served, with its \<open>id\<close>, all of its fields and the
  server's entity tag, exactly when each has a string \<open>id\<close> that is not blank and business data that can be
  fingerprinted, and fails with an adapter error if not.
\<close>

theorem demo_collection_from_mock_server:
  assumes "0 < timeout" and "list_all plain_item (mock_items st)"
  shows "case adapter_run (DemoApiAdapter mock_urlopen url timeout) st of
      (Inl e, u) \<Rightarrow> u = st \<and>
        (if \<not> answers st timeout then e = FetchError ''demo_api request failed''
         else if mode st = ''invalid_json'' then e = ParseError ''demo_api response is not a valid items document''
         else \<not> list_all demo_item_ok (served_items st) \<and> is_AdapterRunError e)
    | (Inr res, u) \<Rightarrow> u = st \<and> answers st timeout \<and> mode st \<noteq> ''invalid_json'' \<and>
        list_all demo_item_ok (served_items st) \<and> etag (response res) = Some (mock_etag st) \<and>
        list_all2 (\<lambda>raw i. map_of raw ''id'' = Some (PStr (external_id i)) \<and> item_data i = raw)
          (served_items st) (result_items res)"
proof (cases "answers st timeout \<and> mode st \<noteq> ''invalid_json''")
  case True
  then show ?thesis using demo_run_served [of st timeout url] assms(2) by (auto split: prod.splits sum.splits)
next
  case False
  show ?thesis
  proof (cases "answers st timeout")
    case True
    with False show ?thesis by (simp add: demo_run_invalid)
  qed (simp add: demo_run_refused [OF assms(1)])
qed

text \<open>The server as it starts, and in its \<open>timeout\<close> mode: it sleeps one second, less than the adapter's default
  timeout of two, so the collection succeeds.\<close>

theorem demo_collection_from_mock_server_witness:
  "\<exists>res. adapter_run (DemoApiAdapter mock_urlopen ''http://127.0.0.1/items'' 2) (initial_state\<lparr>mode := ''timeout''\<rparr>) =
      (Inr res, initial_state\<lparr>mode := ''timeout''\<rparr>) \<and> map external_id (result_items res) = [''one'']"
proof -
  let ?st = "initial_state\<lparr>mode := ''timeout''\<rparr>"
  have "answers ?st 2" "mode ?st \<noteq> ''invalid_json''" by (simp_all add: answers_def)
  moreover have "list_all demo_item_ok (served_items ?st)"
    by (simp add: served_items_def initial_state_def demo_item_ok_def strip_def is_space_def ord_def)
  moreover have "list_all plain_item (mock_items ?st)" by (simp add: initial_state_def plain_item_def)
  note demo_collection_from_mock_server [of 2 ?st "''http://127.0.0.1/items''", OF _ this]
  ultimately show ?thesis
    by (auto simp: served_items_def initial_state_def list_all2_Cons1 split: prod.splits sum.splits)
qed

lemma initial_items_delivered:
  "\<exists>res. adapter_run (DemoApiAdapter mock_urlopen url 2) initial_state = (Inr res, initial_state) \<and>
    result_items res = [\<lparr>external_id = ''one'', item_data = [(''id'', PStr ''one'')]\<rparr>]"
proof -
  let ?raws = "[[(''id'', PStr ''one'')]]"
  have raws: "served_items initial_state = ?raws" by (simp add: served_items_def initial_state_def)
  have "answers initial_state 2" "mode initial_state \<noteq> ''invalid_json''" "list_all plain_item (mock_items initial_state)"
    by (simp_all add: answers_def initial_state_def plain_item_def)
  note run = demo_run_served [OF this, of url, unfolded raws]
  have "list_all demo_item_ok ?raws" by (simp add: demo_item_ok_def strip_def is_space_def ord_def)
  with run obtain res where res: "adapter_run (DemoApiAdapter mock_urlopen url 2) initial_state = (Inr res, initial_state)"
    "list_all2 (\<lambda>raw i. map_of raw ''id'' = Some (PStr (external_id i)) \<and> item_data i = raw) ?raws (result_items res)"
    by (auto split: prod.splits sum.splits)
  from res(2) have "result_items res = [\<lparr>external_id = ''one'', item_data = [(''id'', PStr ''one'')]\<rparr>]"
    by (auto simp: list_all2_Cons1)
  with res(1) show ?thesis by blast
qed

subsection \<open>The server object\<close>

text \<open>
  A \<open>Thread\<close> starts once; \<open>BaseServer.shutdown\<close> waits for the event that \<open>serve_forever\<close> sets when it ends,
  which is clear until the thread has run, and \<open>join\<close> then waits for the thread.
\<close>

datatype thread_state = Initial | Started | Stopped

record MockCrawlerServer =
  srv_state :: MockServerState
  server_address :: "string \<times> int"
  srv_thread :: thread_state

definition mock_server :: "int \<Rightarrow> MockCrawlerServer" where
  "mock_server port = \<lparr>srv_state = initial_state, server_address = (''127.0.0.1'', port), srv_thread = Initial\<rparr>"

definition mock_url :: "MockCrawlerServer \<Rightarrow> string" where
  "mock_url srv = (case server_address srv of (host, port) \<Rightarrow> ''http://'' @ host @ '':'' @ int_text port @ ''/items'')"

definition mock_start :: "(MockCrawlerServer, unit) py" where
  "mock_start srv = (if srv_thread srv = Initial then (Inr (), srv\<lparr>srv_thread := Started\<rparr>)
     else (Inl (RuntimeError ''threads can only be started once''), srv))"

definition mock_stop :: "MockCrawlerServer \<Rightarrow> (unit result \<times> MockCrawlerServer) option" where
  "mock_stop srv = (if srv_thread srv = Initial then None else Some (Inr (), srv\<lparr>srv_thread := Stopped\<rparr>))"

text \<open>\<open>with server: body\<close>, where \<open>__exit__\<close> swallows nothing.\<close>

definition mock_with :: "(MockCrawlerServer, 'a) py \<Rightarrow> MockCrawlerServer \<Rightarrow> ('a result \<times> MockCrawlerServer) option" where
  "mock_with block srv = (case mock_start srv of
       (Inl e, s) \<Rightarrow> Some (Inl e, s)
     | (Inr _, s) \<Rightarrow> (case block s of (r, t) \<Rightarrow> (case mock_stop t of
           None \<Rightarrow> None
         | Some (Inl e, u) \<Rightarrow> Some (Inl e, u)
         | Some (Inr _, u) \<Rightarrow> Some (r, u))))"

text \<open>A client of the running server: it sees and changes the handler's state only.\<close>

definition in_state :: "(MockServerState, 'a) py \<Rightarrow> (MockCrawlerServer, 'a) py" where
  "in_state m srv = (case m (srv_state srv) of (r, st) \<Rightarrow> (r, srv\<lparr>srv_state := st\<rparr>))"

lemma with_gives_outcome:
  assumes "srv_thread srv = Initial" and "m (srv_state srv) = (r, st)"
  shows "mock_with (in_state m) srv = Some (r, srv\<lparr>srv_state := st, srv_thread := Stopped\<rparr>)"
  using assms by (simp add: mock_with_def mock_start_def mock_stop_def in_state_def)

lemma stopped_server_not_reusable:
  assumes "mock_with (in_state m) srv = Some (r, t)" and "srv_thread srv = Initial"
  shows "mock_with block t = Some (Inl (RuntimeError ''threads can only be started once''), t)"
  using assms by (cases "m (srv_state srv)") (auto simp: mock_with_def mock_start_def mock_stop_def in_state_def)

lemma stop_before_start_hangs: "mock_stop (mock_server port) = None"
  by (simp add: mock_stop_def mock_server_def)

lemma collection_in_with_block:
  "\<exists>res. mock_with (in_state (adapter_run (DemoApiAdapter mock_urlopen (mock_url (mock_server port)) 2))) (mock_server port) =
      Some (Inr res, mock_server port\<lparr>srv_thread := Stopped\<rparr>) \<and>
    result_items res = [\<lparr>external_id = ''one'', item_data = [(''id'', PStr ''one'')]\<rparr>]"
proof -
  let ?a = "DemoApiAdapter mock_urlopen (mock_url (mock_server port)) 2"
  obtain res where "adapter_run ?a initial_state = (Inr res, initial_state)"
    "result_items res = [\<lparr>external_id = ''one'', item_data = [(''id'', PStr ''one'')]\<rparr>]"
    using initial_items_delivered by blast
  then show ?thesis
    using with_gives_outcome [of "mock_server port" "adapter_run ?a" "Inr res" initial_state] by (simp add: mock_server_def)
qed

end
