(* ===== verification/Spec2Isabelle.thy ===== *)
theory Spec2Isabelle
  imports Locking Scheduler Observability Resilience Alerts Hashing Adapters Repository FailureSnapshots BrowserSession BrowserArtifacts BrowserRuntime Metrics Tasks LeaseRuns Config SchedulerService Inspection
    Schema Database MockServer
begin

text \<open>
  This development models the multi-site crawler under \<open>src/\<close> (package \<open>multisite_crawler\<close> and the Alembic
  migrations) and proves the properties its components promise each other. Theories are named after the
  component they hold; a definition has the name of the function, method or class it translates, with a
  prefix or suffix where the name is taken (\<open>scheduler_tick\<close> for \<open>SchedulerService.tick\<close>,
  \<open>SourceConfig_type\<close> for the class \<open>SourceConfig\<close>).

  \<^bold>\<open>The program.\<close> A configuration file names sources (\<open>config.py\<close>). The scheduler process
  (\<open>scheduler_service.py\<close>) registers them, keeps one schedule per source in Redis (\<open>scheduler.py\<close>) and
  hands due sources to Celery queues (\<open>queueing.py\<close>). A worker task (\<open>tasks.py\<close>) runs one operation of a
  source under a Redis lease that a heartbeat renews (\<open>locking.py\<close>), logs redacted events
  (\<open>observability.py\<close>) and counts outcomes (\<open>metrics.py\<close>), which a loopback endpoint serves
  (\<open>metrics_service.py\<close>) and alert rules judge (\<open>alerts.py\<close>). Collections go through an adapter whose
  output the runner checks (\<open>adapters/\<close>) and are stored with change detection (\<open>record_repository.py\<close>,
  \<open>hashing.py\<close>) in the tables of \<open>models.py\<close>, which the migrations create. \<open>resilience.py\<close> bounds retries
  and requests. Browser sources use a managed local browser (\<open>browser_runtime.py\<close>,
  \<open>browser_worker.py\<close>), its session state (\<open>browser_session.py\<close>, \<open>browser_session_cli.py\<close>) and
  sanitized failure artifacts (\<open>browser_artifacts.py\<close>); failed responses leave redacted snapshots
  (\<open>failure_snapshots.py\<close>). \<open>inspection.py\<close> turns a health document into a daily report;
  \<open>mock_server.py\<close> is the local source that the demo adapter collects.

  \<^bold>\<open>Python.\<close> \<open>PyPrelude\<close> has exceptions (\<open>exn\<close>), results (\<open>exn + 'a\<close>) and calls with effects
  (\<open>('s, 'a) py\<close>, the result or exception and the state left behind) with \<open>try\<close>, \<open>finally\<close> and loops;
  \<open>PyText\<close> the string functions; \<open>Json\<close> and \<open>JsonRound\<close> \<open>json.dumps\<close> and \<open>json.loads\<close> with their round
  trip; \<open>Datetime\<close> dates and \<open>isoformat\<close>; \<open>Urls\<close> \<open>urllib.parse\<close>; \<open>Sha256\<close> the digest; \<open>Files\<close> and
  \<open>TextFiles\<close> the file system. A raised exception, an early return and a refused value are branches of the
  definitions, never left out.

  \<^bold>\<open>Interfaces.\<close> What the program is given is an argument of the definitions, with its documented laws as
  a locale, and every locale is interpreted: the Redis protocols (\<open>Stores\<close>, \<open>Hashes\<close>; \<open>kv_store\<close>,
  \<open>ttl_store\<close>, \<open>lease_store\<close>, \<open>hash_store\<close>) on the reference server of \<open>Redis\<close>, whose commands may be
  refused or lose their reply; \<open>file_store\<close> on a small disk; \<open>scheduler_env\<close> and \<open>scheduler_world\<close> on
  that server with a queue; \<open>run_world\<close> on that server with the runs that share it; \<open>retry_env\<close> on
  scripted operations; \<open>task_world\<close>, \<open>browser_gateway\<close>,
  \<open>pydantic\<close> and \<open>schema_database\<close> on their reference instances. A property over a parameter says what is
  assumed of it, and its witness runs it on such an instance.

  \<^bold>\<open>Theories and properties.\<close>

    \<^item> \<open>Locking\<close>: \<open>RedisLease\<close>, the two Lua scripts, \<open>LeaseHeartbeat\<close>, and the protocol of many runs of a
      source as a step relation (\<open>lock_step\<close>) with time passing and calls failing. Mutual exclusion of valid
      leases in every reachable state, owner-only changes, and heartbeats that keep the lease.
    \<^item> \<open>Scheduler\<close>: the stored schedule. A tick implements one step of the abstract schedule \<open>entry\<close>; a
      source is dispatched at most once per interval, whatever calls fail.
    \<^item> \<open>SchedulerService\<close>: registration and the loop. A cycle steps every source as if it were alone and
      reports exactly the failed ticks; from an empty store the first cycle hands every enabled source to
      its queue; no failing tick ends the loop.
    \<^item> \<open>Config\<close>: the schema as composed checkers. What loads satisfies every bound and has unique ids;
      every well-formed configuration loads from its document.
    \<^item> \<open>Tasks\<close>: \<open>run_with_source_lease\<close> statement by statement, the Celery tasks, the browser probe. One
      terminal event per run, and the lease given back on every path.
    \<^item> \<open>LeaseRuns\<close>: the code of a run (\<open>Tasks\<close>) against the lease protocol (\<open>Locking\<close>). Whatever other runs,
      heartbeats and time do while the code waits for a call, it makes protocol steps only, so that mutual
      exclusion holds of the code: its operation runs after an acquisition that no other valid lease overlaps.
    \<^item> \<open>Adapters\<close>, \<open>Hashing\<close>, \<open>MockServer\<close>: the adapter contract, canonical bytes, and the demo adapter run
      against the mock server in each of its modes; the server object, which serves one \<open>with\<close> block.
    \<^item> \<open>Repository\<close>: one collection against the tables. It refines the change of a table of business
      entries, its events are exactly the changes, the row invariants survive, three absences deactivate.
    \<^item> \<open>Schema\<close>, \<open>Database\<close>: models and migrations as data over an abstract catalogue. Upgrading builds the
      models' tables from any deployed revision and downgrading undoes it.
    \<^item> \<open>Resilience\<close>: retries are bounded and return the final outcome; the breaker implements its automaton
      with one probe; the limiter bounds every window.
    \<^item> \<open>Observability\<close>, \<open>Metrics\<close>, \<open>Alerts\<close>: redaction is complete on named fields; a scrape reports the
      sums of what was recorded; alerts are the transitions of the rules and alternate.
    \<^item> \<open>BrowserRuntime\<close>, \<open>BrowserSession\<close>, \<open>BrowserArtifacts\<close>, \<open>FailureSnapshots\<close>: everything opened is
      closed once, the operation's error wins, and a run changes no file of the repository; sessions are a
      map; artifacts hold one sanitized table; snapshots are private and expire exactly by age.
    \<^item> \<open>Inspection\<close>: what is parsed is well-formed, and the report follows the thresholds.

  Lemmas beside the properties record behaviour that the code's documents do not promise: values lost on a
  failing store (\<open>alert_lost_on_failure\<close>), leases left behind (\<open>bad_interval_leaks_lease\<close>), a refreshed
  session that reads as unknown (\<open>manual_refresh_reads_unknown\<close>) and others of that kind.

  \<^bold>\<open>Bounds.\<close>

    \<^item> Loops are structural recursion on the data, or recursion with a measure (\<open>dumps\<close>, \<open>year_from\<close>).
      The retry loop recurses on the attempts left, \<open>max_attempts\<close> at the start. The endless loop of the
      scheduler and the heartbeat thread run for any number \<open>n\<close> of rounds, and the theorems hold for
      every \<open>n\<close>. The JSON reader has fuel, the length of its text plus one, and \<open>loads_dumps\<close> shows
      that this is enough for every text that \<open>dumps\<close> writes. The walk along the revisions has the number
      of revisions as fuel, and \<open>history\<close> shows that it reaches both ends.
    \<^item> Characters are the code points 0 to 255; code points above are not modelled.
    \<^item> A float is the exact rational of its literal, an infinity or a NaN; rounding is not modelled. Python's
      \<open>int\<close> is \<open>int\<close>; Redis counters are 64-bit, and SHA-256 works on 32-bit words.

  \<^bold>\<open>Not modelled.\<close> Third-party code is a parameter: pydantic's engine and \<open>HttpUrl\<close>, the YAML parser, the
  tokenizer of \<open>HTMLParser\<close>, \<open>argparse\<close>, the tz database, Playwright, SQLAlchemy sessions beyond the
  statements the repository issues, Alembic, PostgreSQL's DDL beyond its documented effect. Celery's delivery
  (acknowledgements, \<open>autoretry_for\<close>, time limits) is not modelled: a task is what its function does when it
  is called. Threads appear as the steps of \<open>Locking\<close> and \<open>LeaseRuns\<close> only; transactions of concurrent collections, row
  locks and advisory locks are not interleaved. Sockets, process start-up, the \<open>logging\<close> module's handlers,
  the PowerShell scripts, container files and dashboards are outside the models, and the package's
  \<open>__init__\<close> files only re-export names.
\<close>

section \<open>Properties that span components\<close>

subsection \<open>From the adapter to the tables\<close>

lemma delivered_item_has_canonical_hash:
  assumes "adapter_run a s = (Inr res, t)" and "i \<in> set (result_items res)"
  shows "\<exists>u v. ad_fingerprint a i u = (Inr (fingerprint_of i), v) \<and> json_compatible (PDict (item_data i))"
proof -
  obtain raws s2 where m: "mapP (runner_normalize a) raws s2 = (Inr (result_items res), t)"
    using assms(1) by (auto simp: adapter_run_def bindP_eq_Inr ret_def)
  obtain raw u v where "runner_normalize a raw u = (Inr i, v)"
    using mapP_Inr_each [OF m] assms(2) by (auto simp: list_all2_conv_all_nth in_set_conv_nth)
  from runner_normalize_item [OF this] obtain h u1 v1 where
    h: "fingerprint_business_data (PDict (item_data i)) = Inr h" "ad_fingerprint a i u1 = (Inr h, v1)" by blast
  then show ?thesis using fingerprint_total [of "PDict (item_data i)"] by (auto simp: fingerprint_of_def)
qed

lemma persisted_observed:
  assumes "i \<in> set its"
  shows "\<exists>j \<in> set its. external_id j = external_id i \<and> persisted now src its T (src, external_id i) = Some (entry_of_item now j)"
proof (cases "find (\<lambda>j. external_id j = external_id i) (rev its)")
  case None
  then show ?thesis using assms by (auto simp: find_None_iff)
next
  case (Some j)
  then obtain n where "n < length (rev its)" "external_id (rev its ! n) = external_id i" "j = rev its ! n"
    unfolding find_Some_iff by blast
  then have "j \<in> set its" "external_id j = external_id i" using nth_mem [of n "rev its"] by simp_all
  then show ?thesis using Some by (auto simp: persisted_def)
qed

text \<open>
  C9: What an adapter run delivers can be stored, and is. Whatever the adapter does, if its run completes then
  the collection of the result completes when the database refuses no statement, the tables stay well-formed,
  and every delivered external id has an active entry that holds the data of a delivered item of that id,
  under the fingerprint that the adapter itself returned for it; the entries of other sources do not change.
\<close>

theorem delivered_items_are_stored:
  assumes "adapter_run a s = (Inr res, t)" and "db_ok d"
  shows "\<exists>d'. in_transaction (\<lambda>_. None) (persist_collection (\<lambda>_. None) now src res) d = (Inr (), d') \<and> db_ok d' \<and>
    (\<forall>i \<in> set (result_items res). \<exists>j \<in> set (result_items res). external_id j = external_id i \<and>
       (\<exists>e u v. Repository.table d' (src, external_id i) = Some e \<and> e_active e \<and> e_payload e = item_data j \<and>
          ad_fingerprint a j u = (Inr (e_hash e), v))) \<and>
    (\<forall>k. fst k \<noteq> src \<longrightarrow> Repository.table d' k = Repository.table d k)"
proof -
  have "list_all (\<lambda>i. json_compatible (PDict (item_data i))) (result_items res)"
    using delivered_item_has_canonical_hash [OF assms(1)] by (auto simp: list_all_iff)
  then obtain d' where d': "in_transaction (\<lambda>_. None) (persist_collection (\<lambda>_. None) now src res) d = (Inr (), d')"
    using collection_completes_helper by blast
  note run = collect_run [OF d' assms(2)]
  have "\<exists>j \<in> set (result_items res). external_id j = external_id i \<and>
      (\<exists>e u v. Repository.table d' (src, external_id i) = Some e \<and> e_active e \<and> e_payload e = item_data j \<and>
         ad_fingerprint a j u = (Inr (e_hash e), v))" if i: "i \<in> set (result_items res)" for i
  proof -
    obtain j where j: "j \<in> set (result_items res)" "external_id j = external_id i"
      "Repository.table d' (src, external_id i) = Some (entry_of_item now j)"
      using persisted_observed [OF i] unfolding run(2) by blast
    with delivered_item_has_canonical_hash [OF assms(1) j(1)] show ?thesis
      by (intro bexI [of _ j]) (auto simp: entry_of_item_def)
  qed
  moreover have "Repository.table d' k = Repository.table d k" if "fst k \<noteq> src" for k
    using that by (simp add: run(2) persisted_def)
  ultimately show ?thesis using d' run(1) by blast
qed

text \<open>The mock server's initial items, collected by the demo adapter into an empty database.\<close>

theorem delivered_items_are_stored_witness:
  "\<exists>res d'. adapter_run (DemoApiAdapter mock_urlopen ''http://127.0.0.1/items'' 2) initial_state = (Inr res, initial_state) \<and>
    in_transaction (\<lambda>_. None) (persist_collection (\<lambda>_. None) (naive 0) ''s'' res) db0 = (Inr (), d') \<and>
    (\<exists>e. Repository.table d' (''s'', ''one'') = Some e \<and> e_active e \<and> e_payload e = [(''id'', PStr ''one'')])"
proof -
  obtain res where r: "adapter_run (DemoApiAdapter mock_urlopen ''http://127.0.0.1/items'' 2) initial_state = (Inr res, initial_state)"
    and i: "result_items res = [\<lparr>external_id = ''one'', item_data = [(''id'', PStr ''one'')]\<rparr>]"
    using initial_items_delivered by blast
  from delivered_items_are_stored [OF r db0_ok, of "naive 0" "''s''"] i r show ?thesis by auto
qed

subsection \<open>The files of a browser run\<close>

text \<open>Only files below a directory change (Edge keeps its profile there).\<close>

definition only_below :: "('s \<Rightarrow> fpath \<Rightarrow> (string \<times> rat) option) \<Rightarrow> fpath \<Rightarrow> 's \<Rightarrow> 's \<Rightarrow> bool" where
  "only_below files dir s t \<longleftrightarrow> (\<forall>p. files t p \<noteq> files s p \<longrightarrow> is_relative_to p dir)"

definition run_files :: "('s \<Rightarrow> fpath \<Rightarrow> (string \<times> rat) option) \<Rightarrow> fpath \<Rightarrow> fpath \<Rightarrow> 's \<Rightarrow> 's \<Rightarrow> bool" where
  "run_files files profile snapshots s t \<longleftrightarrow>
     (\<forall>p. files t p \<noteq> files s p \<longrightarrow> is_relative_to p profile \<or> (\<exists>name. p = snapshots @ [name]))"

lemma run_files_order: "reflp (run_files files d e)" "transp (run_files files d e)"
  unfolding run_files_def reflp_def transp_def by metis+

lemma run_files_weaker: "keeps (only_below files d) m \<Longrightarrow> keeps (run_files files d e) m"
  "keeps (confined files e) m \<Longrightarrow> keeps (run_files files d e) m"
  by (auto simp: keeps_def run_files_def only_below_def confined_def)

lemma outside_both:
  assumes "\<not> is_relative_to snapshots base" and "\<not> is_relative_to base profile" and "\<not> is_relative_to profile base"
    and "below base p" and "is_relative_to p profile \<or> (\<exists>name. p = snapshots @ [name])"
  shows False
proof -
  obtain x where x: "p = base @ x" "x \<noteq> []" using assms(4) by (auto simp: below_def starts_with_iff)
  show False using assms(5)
  proof
    assume "is_relative_to p profile"
    then obtain y where "base @ x = profile @ y" using x by (auto simp: is_relative_to_def starts_with_iff)
    then show False using assms(2,3) by (auto simp: is_relative_to_def starts_with_iff append_eq_append_conv2)
  next
    assume "\<exists>name. p = snapshots @ [name]"
    then obtain name where "base @ x = snapshots @ [name]" using x by auto
    then have "base @ butlast x = snapshots" using x(2) by (metis butlast_append butlast_snoc)
    then show False using assms(1) by (auto simp: is_relative_to_def starts_with_iff)
  qed
qed


text \<open>On the demonstration disk, an operation that fails with a table leaves one file in the failure directory.\<close>

definition disk_gateway :: "(disk, unit, unit) gateway" where
  "disk_gateway = \<lparr>gw_enter = ret (), gw_exit = \<lambda>_. ret (), gw_launch = \<lambda>_ _ _. ret (), gw_pages = \<lambda>_ _. [()],
     gw_new_page = \<lambda>_. ret (), gw_route = \<lambda>_ _ _. ret (), gw_set_timeout = \<lambda>_ _. ret (),
     gw_set_navigation_timeout = \<lambda>_ _. ret (), gw_close_page = \<lambda>_. ret (), gw_close_context = \<lambda>_. ret ()\<rparr>"

definition repo_disk :: disk where
  "repo_disk = \<lparr>disk_files = [([''/edge''], ''x'', 5), ([''/repo'', ''README.md''], ''y'', 6)], disk_dirs = [[''/snap'']],
     disk_now = 60, disk_locked = False\<rparr>"

lemma repo_disk_settings:
  "\<exists>st. browser_settings_from_environment disk_ops BrowserRuntime.demo_paths demo_environ ''/repo'' repo_disk = (Inr st, repo_disk) \<and>
     failure_snapshot_dir st = [''/snap'']"
proof -
  let ?r = "resolve BrowserRuntime.demo_paths ''/repo''" and ?d = repo_disk
  have "require_existing_external_file disk_ops BrowserRuntime.demo_paths demo_environ ''BROWSER_EDGE_EXECUTABLE_PATH'' ?r ?d = (Inr [''/edge''], ?d)"
    "require_external_directory disk_ops BrowserRuntime.demo_paths demo_environ ''BROWSER_USER_DATA_DIR'' ?r ?d = (Inr [''/user''], ?d)"
    "require_external_directory disk_ops BrowserRuntime.demo_paths demo_environ ''BROWSER_FAILURE_SNAPSHOT_DIR'' ?r ?d = (Inr [''/snap''], ?d)"
    "ensure_snapshot_directory disk_ops [''/snap''] ?d = (Inr (), ?d)"
    by code_simp+
  then show ?thesis
    by (simp add: browser_settings_from_environment_def Let_def bindP_def thenP_def liftR_def demo_timeouts ret_def)
qed

lemma repo_disk_artifact:
  "\<exists>art t. write_failure disk_ops demo_tokens (ret ''f0'') [''/snap''] ''a'' (Some ''<table>a&b</table>'') NoScreenshot repo_disk = (Inr art, t) \<and>
     disk_at t [''/snap'', ''a_f0.html''] \<noteq> None"
proof -
  have v: "validate_safe_html demo_tokens (Some ''<table>a&b</table>'') = Inr ''<table>a&b</table>''" "validate_source_id ''a'' = Inr ()"
    by code_simp+
  show ?thesis
    by (simp add: write_failure_def v Let_def write_redacted_png_def disk_ops_def disk_do_def thenP_def bindP_def liftR_def ret_def
        repo_disk_def disk_at_def update_conv)
qed


end
